(* ===== verification/Prelude.thy ===== *)
theory Prelude
  imports Complex_Main "HOL-Library.AList" "HOL-Library.Multiset" "HOL-Library.Sublist"
begin

text \<open>
  What every component shares: Go's 64-bit integers with their wrap-around, Go's maps as
  association lists whose order is the order one \<^verbatim>\<open>range\<close> visits them in,
  \<^verbatim>\<open>sort.Sort\<close>/\<^verbatim>\<open>sort.Slice\<close> with the interface of the comparators they are
  given, and the functions of the packages \<^verbatim>\<open>strings\<close> and \<^verbatim>\<open>strconv\<close> the
  sources call.
\<close>

named_theorems i64_simps \<open>facts that remove the 64-bit wrap-around from values in range\<close>

section \<open>64-bit integers\<close>

text \<open>
  Go's \<^verbatim>\<open>int\<close> (on the supported 64-bit platforms) and \<^verbatim>\<open>int64\<close> are two's complement
  words. A value is an \<^typ>\<open>int\<close>, and each arithmetic operation of the source whose result
  may leave the range is wrapped explicitly.
\<close>

definition i64 :: "int \<Rightarrow> int" where
  "i64 x = (x + 9223372036854775808) mod 18446744073709551616 - 9223372036854775808"

definition in_i64 :: "int \<Rightarrow> bool" where
  "in_i64 x \<longleftrightarrow> - 9223372036854775808 \<le> x \<and> x < 9223372036854775808"

definition max_int :: int where
  "max_int = 9223372036854775807"

lemma i64_id [i64_simps]: "in_i64 x \<Longrightarrow> i64 x = x"
  by (simp add: i64_def in_i64_def)

lemma i64_range: "in_i64 (i64 x)"
  unfolding i64_def in_i64_def
  using pos_mod_bound [of 18446744073709551616 "x + 9223372036854775808"]
    pos_mod_sign [of 18446744073709551616 "x + 9223372036854775808"] by linarith

text \<open>Wrapping an intermediate result does not change the final one.\<close>

lemma i64_absorb [simp]: "i64 (i64 a + b) = i64 (a + b)" "i64 (a + i64 b) = i64 (a + b)" "i64 (i64 a) = i64 a"
proof -
  let ?M = "18446744073709551616 :: int" and ?H = "9223372036854775808 :: int"
  have e: "i64 a = a - ?M * ((a + ?H) div ?M)" for a
    using minus_mult_div_eq_mod [of "a + ?H" ?M] by (simp add: i64_def)
  have shift: "i64 (x - ?M * k) = i64 x" for x k
  proof -
    have "(x - ?M * k + ?H) mod ?M = (x + ?H + ?M * (- k)) mod ?M" by (simp add: algebra_simps)
    also have "\<dots> = (x + ?H) mod ?M" by (rule mod_mult_self2)
    finally show ?thesis unfolding i64_def by simp
  qed
  show "i64 (i64 a + b) = i64 (a + b)"
    using shift [of "a + b" "(a + ?H) div ?M"] by (simp add: e [of a] algebra_simps)
  show "i64 (a + i64 b) = i64 (a + b)"
    using shift [of "a + b" "(b + ?H) div ?M"] by (simp add: e [of b] algebra_simps)
  show "i64 (i64 a) = i64 a"
    using i64_range by (rule i64_id)
qed

lemma i64_between [i64_simps]: "\<lbrakk>0 \<le> x; x \<le> max_int\<rbrakk> \<Longrightarrow> i64 x = x"
  by (rule i64_id) (simp add: in_i64_def max_int_def)

lemma i64_diff [i64_simps]: "\<lbrakk>0 \<le> x; x \<le> max_int; 0 \<le> y; y \<le> max_int\<rbrakk> \<Longrightarrow> i64 (x - y) = x - y"
  by (rule i64_id) (simp add: in_i64_def max_int_def)

section \<open>Maps\<close>

text \<open>
  A Go map that the code ranges over. The order of the list is the order in which a
  \<^verbatim>\<open>range\<close> visits the entries, which Go leaves open: a theorem about every list is a
  theorem about every iteration order.
\<close>

type_synonym ('k, 'v) gomap = "('k \<times> 'v) list"

definition vals :: "('k, 'v) gomap \<Rightarrow> 'v list" where
  "vals m = map snd m"

definition keys :: "('k, 'v) gomap \<Rightarrow> 'k list" where
  "keys m = map fst m"

lemma vals_simps [simp]: "vals [] = []" "vals ((k, v) # m) = v # vals m"
  by (simp_all add: vals_def)

lemma keys_simps [simp]: "keys [] = []" "keys ((k, v) # m) = k # keys m"
  by (simp_all add: keys_def)

lemma vals_append [simp]: "vals (m @ m') = vals m @ vals m'"
  by (simp add: vals_def)

lemma length_vals [simp]: "length (vals m) = length m"
  by (simp add: vals_def)

lemma in_vals_iff: "v \<in> set (vals m) \<longleftrightarrow> (\<exists>k. (k, v) \<in> set m)"
  by (force simp: vals_def)

lemma map_of_in_vals: "map_of m k = Some v \<Longrightarrow> v \<in> set (vals m)"
  by (auto simp: in_vals_iff dest: map_of_SomeD)

lemma keys_map_entry [simp]: "keys (AList.map_entry k f m) = keys m"
  by (induction m) auto

lemma map_entry_None: "map_of m k = None \<Longrightarrow> AList.map_entry k f m = m"
  by (induction m) (auto split: if_splits)

lemma keys_update: "keys (AList.update k v m) = (if k \<in> set (keys m) then keys m else keys m @ [k])"
  by (induction m) auto

lemma distinct_keys_update: "distinct (keys m) \<Longrightarrow> distinct (keys (AList.update k v m))"
  by (simp add: keys_update)

lemma map_of_update: "map_of (AList.update k v m) k' = (if k' = k then Some v else map_of m k')"
  by (simp add: update_conv')

lemma set_keys: "set (keys m) = dom (map_of m)"
  by (simp add: keys_def dom_map_of_conv_image_fst)

section \<open>Comparators and sorting\<close>

text \<open>
  \<^verbatim>\<open>sort.Sort\<close> and \<^verbatim>\<open>sort.Slice\<close> run an insertion sort up to twelve elements, which
  moves each element to the left past its neighbour while \<^verbatim>\<open>less\<close> says so. The sorted
  prefix is kept reversed. Above twelve elements the library uses pattern-defeating
  quicksort, whose result is only determined up to ties; \<open>sort_unique\<close> below shows that for
  the total comparators every sorting algorithm gives this result.
\<close>

fun ins_rev :: "('a \<Rightarrow> 'a \<Rightarrow> bool) \<Rightarrow> 'a \<Rightarrow> 'a list \<Rightarrow> 'a list" where
  "ins_rev lt x [] = [x]"
| "ins_rev lt x (y # ys) = (if lt x y then y # ins_rev lt x ys else x # y # ys)"

definition go_sort :: "('a \<Rightarrow> 'a \<Rightarrow> bool) \<Rightarrow> 'a list \<Rightarrow> 'a list" where
  "go_sort lt xs = rev (foldl (\<lambda>acc x. ins_rev lt x acc) [] xs)"

lemma mset_ins_rev: "mset (ins_rev lt x ys) = {#x#} + mset ys"
  by (induction ys) auto

lemma set_ins_rev: "set (ins_rev lt x ys) = insert x (set ys)"
  by (induction ys) auto

lemma mset_go_sort_aux:
  "mset (foldl (\<lambda>acc x. ins_rev lt x acc) acc xs) = mset acc + mset xs"
  by (induction xs arbitrary: acc) (simp_all add: mset_ins_rev)

lemma mset_go_sort [simp]: "mset (go_sort lt xs) = mset xs"
  by (simp add: go_sort_def mset_go_sort_aux)

lemma set_go_sort [simp]: "set (go_sort lt xs) = set xs"
  by (metis mset_go_sort set_mset_mset)

lemma length_go_sort [simp]: "length (go_sort lt xs) = length xs"
  by (metis mset_go_sort size_mset)

lemma distinct_go_sort [simp]: "distinct (go_sort lt xs) = distinct xs"
  by (metis mset_eq_imp_distinct_iff mset_go_sort)

lemma distinct_map_go_sort [simp]: "distinct (map f (go_sort lt xs)) = distinct (map f xs)"
  by (metis mset_eq_imp_distinct_iff mset_go_sort mset_map)

text \<open>The contract of a comparator: \<^verbatim>\<open>Less\<close> must describe a strict weak ordering.\<close>

locale comparator =
  fixes lt :: "'a \<Rightarrow> 'a \<Rightarrow> bool"
  assumes less_asym: "lt x y \<Longrightarrow> \<not> lt y x"
    and less_negtrans: "\<lbrakk>\<not> lt x y; \<not> lt y z\<rbrakk> \<Longrightarrow> \<not> lt x z"
begin

lemma ins_rev_sorted:
  "sorted_wrt (\<lambda>a b. \<not> lt a b) ys \<Longrightarrow> sorted_wrt (\<lambda>a b. \<not> lt a b) (ins_rev lt x ys)"
proof (induction ys)
  case Nil
  then show ?case by simp
next
  case (Cons y ys)
  show ?case
  proof (cases "lt x y")
    case True
    with Cons show ?thesis by (auto simp: set_ins_rev dest: less_asym)
  next
    case False
    with Cons.prems show ?thesis by (auto dest: less_negtrans)
  qed
qed

lemma foldl_ins_rev_sorted:
  "sorted_wrt (\<lambda>a b. \<not> lt a b) acc \<Longrightarrow>
   sorted_wrt (\<lambda>a b. \<not> lt a b) (foldl (\<lambda>acc x. ins_rev lt x acc) acc xs)"
  by (induction xs arbitrary: acc) (simp_all add: ins_rev_sorted)

lemma go_sort_sorted: "sorted_wrt (\<lambda>a b. \<not> lt b a) (go_sort lt xs)"
  using foldl_ins_rev_sorted [of "[]" xs] by (simp add: go_sort_def sorted_wrt_rev)

end

text \<open>
  Two sorted lists with the same elements are equal when the comparator tells all of them
  apart, so the result does not depend on the sorting algorithm nor on the input order.
\<close>

lemma sort_unique:
  assumes "sorted_wrt (\<lambda>a b. \<not> lt b a) xs" and "sorted_wrt (\<lambda>a b. \<not> lt b a) ys"
    and "mset xs = mset ys"
    and tot: "\<And>a b. \<lbrakk>a \<in> set xs; b \<in> set xs; a \<noteq> b\<rbrakk> \<Longrightarrow> lt a b \<or> lt b a"
  shows "xs = ys"
  using assms
proof (induction xs arbitrary: ys)
  case Nil
  then show ?case by simp
next
  case (Cons x xs)
  from Cons.prems(3) obtain y ys' where ys: "ys = y # ys'"
    by (cases ys) auto
  have setq: "insert x (set xs) = insert y (set ys')"
    using Cons.prems(3) ys by (metis list.simps(15) set_mset_mset)
  have xy: "x = y"
  proof (rule ccontr)
    assume neq: "x \<noteq> y"
    with setq have "y \<in> set xs" and "x \<in> set ys'" by auto
    with Cons.prems(1,2) ys have "\<not> lt y x" and "\<not> lt x y" by auto
    with Cons.prems(4) \<open>y \<in> set xs\<close> neq show False by auto
  qed
  have "xs = ys'"
  proof (rule Cons.IH)
    show "sorted_wrt (\<lambda>a b. \<not> lt b a) xs" using Cons.prems(1) by simp
    show "sorted_wrt (\<lambda>a b. \<not> lt b a) ys'" using Cons.prems(2) ys by simp
    show "mset xs = mset ys'" using Cons.prems(3) ys xy by simp
    show "lt a b \<or> lt b a" if "a \<in> set xs" "b \<in> set xs" "a \<noteq> b" for a b
      using Cons.prems(4) that by simp
  qed
  with xy ys show ?case by simp
qed

lemma go_sort_order_independent:
  assumes "comparator lt" "mset xs = mset ys"
    and "\<And>a b. \<lbrakk>a \<in> set xs; b \<in> set xs; a \<noteq> b\<rbrakk> \<Longrightarrow> lt a b \<or> lt b a"
  shows "go_sort lt xs = go_sort lt ys"
  by (rule sort_unique [where lt = lt])
    (use assms comparator.go_sort_sorted [OF assms(1)] in auto)

text \<open>
  The comparator chain of \<^verbatim>\<open>sortPriority.Less\<close>: each comparator but the last decides when
  it tells the two apart, the last one has the final say.
\<close>

fun chain_less :: "('a \<Rightarrow> 'a \<Rightarrow> bool) list \<Rightarrow> 'a \<Rightarrow> 'a \<Rightarrow> bool" where
  "chain_less [] a b = False"
| "chain_less [f] a b = f a b"
| "chain_less (f # g # fs) a b =
     (if f a b then True else if f b a then False else chain_less (g # fs) a b)"

lemma comparator_chain:
  "\<forall>f \<in> set fs. comparator f \<Longrightarrow> comparator (chain_less fs)"
proof (induction fs)
  case Nil
  then show ?case by (simp add: comparator_def)
next
  case (Cons f fs)
  show ?case
  proof (cases fs)
    case Nil
    have "chain_less [f] = f" by (intro ext) simp
    with Cons.prems Nil show ?thesis by simp
  next
    case (Cons g gs)
    have f: "comparator f" and c: "comparator (chain_less (g # gs))"
      using Cons.IH Cons.prems Cons by auto
    show ?thesis
      unfolding Cons
    proof (unfold_locales)
      fix x y
      assume "chain_less (f # g # gs) x y"
      then show "\<not> chain_less (f # g # gs) y x"
        using comparator.less_asym [OF f, of x y] comparator.less_asym [OF c, of x y]
        by (simp split: if_splits)
    next
      fix x y z
      assume "\<not> chain_less (f # g # gs) x y" "\<not> chain_less (f # g # gs) y z"
      then show "\<not> chain_less (f # g # gs) x z"
        using comparator.less_asym [OF f, of x y] comparator.less_asym [OF f, of y z]
          comparator.less_negtrans [OF f, of x y z] comparator.less_negtrans [OF f, of z y x]
          comparator.less_negtrans [OF f, of y z x] comparator.less_negtrans [OF f, of z x y]
          comparator.less_negtrans [OF c, of x y z]
        by (simp split: if_splits) blast+
    qed
  qed
qed

lemma comparator_key: "comparator (\<lambda>a b. f a < (f b :: 'b :: linorder))"
  by unfold_locales auto

lemma comparator_key_desc: "comparator (\<lambda>a b. f a > (f b :: 'b :: linorder))"
  by unfold_locales auto

section \<open>Strings\<close>

text \<open>\<^verbatim>\<open>strings.ReplaceAll(s, " ", "")\<close>.\<close>

definition strip_spaces :: "string \<Rightarrow> string" where
  "strip_spaces s = filter (\<lambda>c. c \<noteq> CHR '' '') s"

text \<open>\<^verbatim>\<open>strings.Split(s, sep)\<close> for a separator of one byte; the result is never empty.\<close>

fun split_on :: "char \<Rightarrow> string \<Rightarrow> string list" where
  "split_on c [] = [[]]"
| "split_on c (x # xs) =
     (if x = c then [] # split_on c xs
      else (case split_on c xs of [] \<Rightarrow> [[x]] | w # ws \<Rightarrow> (x # w) # ws))"

text \<open>\<^verbatim>\<open>strings.Join(xs, sep)\<close>.\<close>

fun join :: "string \<Rightarrow> string list \<Rightarrow> string" where
  "join sep [] = []"
| "join sep [x] = x"
| "join sep (x # y # ys) = x @ sep @ join sep (y # ys)"

text \<open>\<^verbatim>\<open>strings.Index(s, sep)\<close> for a one-byte separator.\<close>

fun index_of :: "char \<Rightarrow> string \<Rightarrow> nat option" where
  "index_of c [] = None"
| "index_of c (x # xs) = (if x = c then Some 0 else map_option Suc (index_of c xs))"

lemma split_on_notin: "c \<notin> set s \<Longrightarrow> split_on c s = [s]"
  by (induction s) auto

lemma split_on_append: "c \<notin> set s \<Longrightarrow> split_on c (s @ c # t) = s # split_on c t"
  by (induction s) auto

lemma split_on_join:
  "\<lbrakk>xs \<noteq> []; \<forall>x \<in> set xs. c \<notin> set x\<rbrakk> \<Longrightarrow> split_on c (join [c] xs) = xs"
proof (induction xs rule: induct_list012)
  case (3 x y zs)
  then show ?case by (simp add: split_on_append)
qed (simp_all add: split_on_notin)

lemma set_join: "set (join sep xs) \<subseteq> set sep \<union> (\<Union>x \<in> set xs. set x)"
  by (induction xs rule: induct_list012) auto

lemma set_split_on: "w \<in> set (split_on c s) \<Longrightarrow> set w \<subseteq> set s - {c}"
proof (induction s arbitrary: w)
  case Nil
  then show ?case by simp
next
  case (Cons a s)
  then show ?case by (cases "split_on c s") (fastforce split: if_splits)+
qed

lemma split_on_not_Nil [simp]: "split_on c s \<noteq> []"
  by (induction s) (auto split: list.splits)

lemma index_of_append: "c \<notin> set s \<Longrightarrow> index_of c (s @ c # t) = Some (length s)"
  by (induction s) auto

lemma cut_inj:
  "c \<notin> set u \<Longrightarrow> c \<notin> set v \<Longrightarrow> u @ c # a = v @ c # b \<longleftrightarrow> u = v \<and> a = b"
proof (induction u arbitrary: v)
  case Nil
  then show ?case by (cases v) auto
next
  case (Cons x u)
  then show ?case by (cases v) auto
qed

lemma dropWhile_none: "\<forall>x \<in> set v. \<not> P x \<Longrightarrow> dropWhile P v = v"
  by (cases v) auto

lemma index_of_notin [simp]: "c \<notin> set s \<Longrightarrow> index_of c s = None"
  by (induction s) auto

lemma index_of_None: "index_of c s = None \<longleftrightarrow> c \<notin> set s"
  by (induction s) auto

lemma index_of_Some:
  "index_of c s = Some i \<Longrightarrow> i < length s \<and> s ! i = c \<and> c \<notin> set (take i s)"
  by (induction s arbitrary: i) (auto split: if_splits)

lemma strip_spaces_id: "CHR '' '' \<notin> set s \<Longrightarrow> strip_spaces s = s"
  by (simp add: strip_spaces_def filter_id_conv) blast

subsection \<open>Numbers in text\<close>

definition digit_char :: "nat \<Rightarrow> char" where
  "digit_char d = char_of (48 + d)"

definition digit_val :: "char \<Rightarrow> nat option" where
  "digit_val c = (let v = (of_char c :: nat) in if 48 \<le> v \<and> v \<le> 57 then Some (v - 48) else None)"

fun dec_nat :: "nat \<Rightarrow> string" where
  "dec_nat n = (if n < 10 then [digit_char n] else dec_nat (n div 10) @ [digit_char (n mod 10)])"

declare dec_nat.simps [simp del]

text \<open>\<^verbatim>\<open>strconv.Itoa\<close> and the verb \<^verbatim>\<open>%d\<close>.\<close>

definition itoa :: "int \<Rightarrow> string" where
  "itoa i = (if i < 0 then CHR ''-'' # dec_nat (nat (- i)) else dec_nat (nat i))"

fun parse_digits :: "nat \<Rightarrow> string \<Rightarrow> nat option" where
  "parse_digits acc [] = Some acc"
| "parse_digits acc (c # cs) =
     (case digit_val c of None \<Rightarrow> None | Some d \<Rightarrow> parse_digits (10 * acc + d) cs)"

definition parse_nat :: "string \<Rightarrow> nat option" where
  "parse_nat s = (if s = [] then None else parse_digits 0 s)"

text \<open>
  \<^verbatim>\<open>strconv.ParseInt(s, 10, 64)\<close> and \<^verbatim>\<open>strconv.Atoi\<close>: an optional sign, decimal digits
  only, and an error for a value outside the 64-bit range.
\<close>

definition parse_int :: "string \<Rightarrow> int option" where
  "parse_int s =
     (case (case s of [] \<Rightarrow> None
             | c # cs \<Rightarrow> if c = CHR ''-'' then map_option (\<lambda>n. - int n) (parse_nat cs)
                        else if c = CHR ''+'' then map_option int (parse_nat cs)
                        else map_option int (parse_nat s)) of
        None \<Rightarrow> None
      | Some i \<Rightarrow> if in_i64 i then Some i else None)"

lemma digit_val_char [simp]: "d < 10 \<Longrightarrow> digit_val (digit_char d) = Some d"
  by (simp add: digit_val_def digit_char_def)

lemma parse_digits_append:
  "parse_digits acc (xs @ ys) =
     (case parse_digits acc xs of None \<Rightarrow> None | Some a \<Rightarrow> parse_digits a ys)"
  by (induction xs arbitrary: acc) (auto split: option.splits)

lemma dec_nat_neq_Nil [simp]: "dec_nat n \<noteq> []"
  by (subst dec_nat.simps) simp

lemma parse_digits_dec_nat: "parse_digits 0 (dec_nat n) = Some n"
proof (induction n rule: dec_nat.induct)
  case (1 n)
  show ?case
  proof (cases "n < 10")
    case True
    then show ?thesis by (simp add: dec_nat.simps [of n])
  next
    case False
    with 1 have "parse_digits 0 (dec_nat (n div 10)) = Some (n div 10)" by simp
    with False show ?thesis
      by (simp add: dec_nat.simps [of n] parse_digits_append)
  qed
qed

definition digit_chars :: "char set" where
  "digit_chars = digit_char ` {..<10}"

lemma set_dec_nat: "set (dec_nat n) \<subseteq> digit_chars"
proof (induction n rule: dec_nat.induct)
  case (1 n)
  show ?case
  proof (cases "n < 10")
    case True
    then show ?thesis by (simp add: dec_nat.simps [of n] digit_chars_def)
  next
    case False
    moreover have "n mod 10 \<in> {..<10}" by simp
    ultimately show ?thesis
      using 1 by (simp add: dec_nat.simps [of n] digit_chars_def del: lessThan_iff)
  qed
qed

lemma digit_chars_val: "c \<in> digit_chars \<Longrightarrow> 48 \<le> (of_char c :: nat) \<and> (of_char c :: nat) \<le> 57"
  by (auto simp: digit_chars_def digit_char_def)

lemma notin_dec_nat: "\<not> (48 \<le> (of_char c :: nat) \<and> (of_char c :: nat) \<le> 57) \<Longrightarrow> c \<notin> set (dec_nat n)"
  using digit_chars_val set_dec_nat by blast

lemma set_itoa: "set (itoa i) \<subseteq> insert (CHR ''-'') digit_chars"
  using set_dec_nat by (auto simp: itoa_def)

lemma notin_itoa:
  "\<lbrakk>c \<noteq> CHR ''-''; \<not> (48 \<le> (of_char c :: nat) \<and> (of_char c :: nat) \<le> 57)\<rbrakk> \<Longrightarrow> c \<notin> set (itoa i)"
  using set_itoa digit_chars_val by blast

lemma itoa_neq_Nil [simp]: "itoa i \<noteq> []"
  by (simp add: itoa_def)

theorem parse_int_itoa [simp]: "in_i64 i \<Longrightarrow> parse_int (itoa i) = Some i"
proof -
  assume r: "in_i64 i"
  have p: "parse_nat (dec_nat n) = Some n" for n
    by (simp add: parse_nat_def parse_digits_dec_nat)
  show ?thesis
  proof (cases "i < 0")
    case True
    with r show ?thesis by (simp add: itoa_def parse_int_def p)
  next
    case False
    obtain c cs where dn: "dec_nat (nat i) = c # cs"
      by (cases "dec_nat (nat i)") auto
    have "c \<in> digit_chars" using set_dec_nat [of "nat i"] dn by simp
    then have "c \<noteq> CHR ''-''" "c \<noteq> CHR ''+''"
      using digit_chars_val [of c] by auto
    with False r show ?thesis
      using p [of "nat i"] by (simp add: itoa_def parse_int_def dn)
  qed
qed

lemma parse_int_range: "parse_int s = Some i \<Longrightarrow> in_i64 i"
  by (auto simp: parse_int_def split: option.splits if_splits list.splits)

subsection \<open>Case folding and trimming (ASCII)\<close>

definition is_space :: "char \<Rightarrow> bool" where
  "is_space c = (let v = (of_char c :: nat) in v = 32 \<or> (9 \<le> v \<and> v \<le> 13))"

definition trim_space :: "string \<Rightarrow> string" where
  "trim_space s = rev (dropWhile is_space (rev (dropWhile is_space s)))"

definition upper_char :: "char \<Rightarrow> char" where
  "upper_char c = (let v = (of_char c :: nat) in if 97 \<le> v \<and> v \<le> 122 then char_of (v - 32) else c)"

definition lower_char :: "char \<Rightarrow> char" where
  "lower_char c = (let v = (of_char c :: nat) in if 65 \<le> v \<and> v \<le> 90 then char_of (v + 32) else c)"

definition to_upper :: "string \<Rightarrow> string" where
  "to_upper s = map upper_char s"

definition to_lower :: "string \<Rightarrow> string" where
  "to_lower s = map lower_char s"

text \<open>The byte-wise order of Go strings.\<close>

fun str_less :: "string \<Rightarrow> string \<Rightarrow> bool" where
  "str_less s [] = False"
| "str_less [] (y # ys) = True"
| "str_less (x # xs) (y # ys) =
     ((of_char x :: nat) < of_char y \<or> ((of_char x :: nat) = of_char y \<and> str_less xs ys))"

lemma str_less_asym: "str_less s t \<Longrightarrow> \<not> str_less t s"
  by (induction s t rule: str_less.induct) auto

lemma str_less_total: "s \<noteq> t \<Longrightarrow> str_less s t \<or> str_less t s"
  by (induction s t rule: str_less.induct) (auto simp: neq_Nil_conv)

lemma str_less_trans: "str_less s t \<Longrightarrow> str_less t u \<Longrightarrow> str_less s u"
proof (induction s t arbitrary: u rule: str_less.induct)
  case (3 x xs y ys)
  then show ?case by (cases u) auto
next
  case (2 y ys)
  then show ?case by (cases u) auto
qed simp

interpretation str_cmp: comparator str_less
proof unfold_locales
  show "\<not> str_less t s" if "str_less s t" for s t
    using that by (rule str_less_asym)
  show "\<not> str_less s u" if "\<not> str_less s t" "\<not> str_less t u" for s t u
    using that str_less_total [of s t] str_less_total [of t u] str_less_trans [of u t s]
      str_less_asym [of u s] by (cases "s = t"; cases "t = u") auto
qed

end
