(* ===== verification/Kube.thy ===== *)
theory Kube
  imports Prelude
begin

text \<open>
  The Kubernetes objects the scheduler reads and writes, and the helpers of
  \<^verbatim>\<open>pkg/util/util.go\<close> and \<^verbatim>\<open>pkg/util/consts.go\<close> over them: annotations and labels,
  container resources, device selectors, the node a pod's devices live on, gang identities
  and the selection of the pod being allocated. What the Kubernetes libraries compute from
  an object is a field of the record: \<^verbatim>\<open>podutil.GetPodCondition\<close> for the condition
  PodScheduled, \<^verbatim>\<open>IsRestartableInitContainer\<close>, \<^verbatim>\<open>GetControllerOf\<close> and
  \<^verbatim>\<open>resource.Quantity.Value\<close>.
\<close>

section \<open>Names\<close>

text \<open>
  The annotation and label keys are the variables of \<^verbatim>\<open>consts.go\<close>: for every domain name
  they are pairwise different strings, so the keys are an enumeration.
\<close>

datatype anno_key =
    NodeDeviceRegisterAnnotation | NodeDeviceTopologyAnnotation | NodeConfigInfoAnnotation
  | NodeGPUDomainAnnotation | NodeRemoteEndpointsAnnotation
  | NodeSchedulerPolicyAnnotation | DeviceSchedulerPolicyAnnotation
  | MemorySchedulerPolicyAnnotation | SchedulerStuckGracePeriodAnnotation
  | DeviceTopologyModeAnnotation | CrossPodTopologyAnnotation
  | PodIncludeGPUUUIDAnnotation | PodExcludeGPUUUIDAnnotation
  | PodIncludeGpuTypeAnnotation | PodExcludeGpuTypeAnnotation
  | PodPredicateNodeAnnotation | PodPredicateTimeAnnotation
  | PodVGPUPreAllocAnnotation | PodVGPURealAllocAnnotation | VGPUAccessModeAnnotation
  | NodeRemoteSelectorsAnnotation
  | KubeGroupNameAnnotation | VolcanoGroupNameAnnotation | KoordinatorGangNameAnnotation

datatype label_key =
    PodAssignedPhaseLabel | PodMetricsNodeLabel | NodeRemoteServerLabel | NodeRemoteConsumerLabel
  | CoschedulingPodGroupLabel | CoschedulingPodGroupNameLabel

datatype resource_name = VGPUNumberResourceName | VGPUMemoryResourceName | VGPUCoreResourceName

definition HundredCore :: int where
  "HundredCore = 100"

definition MaxContainerLimit :: int where
  "MaxContainerLimit = 300000"

definition PodAnnotationMaxLength :: int where
  "PodAnnotationMaxLength = 1048576"

text \<open>The topology modes; any other string is carried as it is.\<close>

datatype topology_mode =
    NoneTopology | NUMATopology | NUMATopologyStrict | LinkTopology | LinkTopologyStrict
  | PCIeTopology | PCIeTopologyStrict | OtherTopology string

fun BaseTopology :: "topology_mode \<Rightarrow> topology_mode" where
  "BaseTopology NUMATopology = NUMATopology"
| "BaseTopology NUMATopologyStrict = NUMATopology"
| "BaseTopology LinkTopology = LinkTopology"
| "BaseTopology LinkTopologyStrict = LinkTopology"
| "BaseTopology PCIeTopology = PCIeTopology"
| "BaseTopology PCIeTopologyStrict = PCIeTopology"
| "BaseTopology NoneTopology = NoneTopology"
| "BaseTopology (OtherTopology m) = (if m = [] then NoneTopology else OtherTopology m)"

fun IsStrictTopology :: "topology_mode \<Rightarrow> bool" where
  "IsStrictTopology m = (m = NUMATopologyStrict \<or> m = LinkTopologyStrict \<or> m = PCIeTopologyStrict)"

definition UsesLinkTiers :: "topology_mode \<Rightarrow> bool" where
  "UsesLinkTiers m =
     (case BaseTopology m of LinkTopology \<Rightarrow> True | PCIeTopology \<Rightarrow> True | _ \<Rightarrow> False)"

section \<open>Objects\<close>

record container =
  c_Name :: string
  c_Limits :: "(resource_name, int) gomap"
  c_Restartable :: bool

record container_status =
  cs_Name :: string
  cs_Running :: bool
  cs_Terminated :: bool
  cs_Waiting :: "string option"

record pod_condition =
  cond_Status :: string
  cond_Reason :: string
  cond_LastTransition :: int

record owner_reference =
  ref_Kind :: string
  ref_Name :: string

datatype pod_phase = PodPending | PodRunning | PodSucceeded | PodFailed | PodUnknown

record toleration =
  tol_Key :: string
  tol_Operator :: string
  tol_Value :: string
  tol_Effect :: string

record taint =
  taint_Key :: string
  taint_Value :: string
  taint_Effect :: string

record pod =
  p_Name :: string
  p_Namespace :: string
  p_UID :: string
  p_Annotations :: "(anno_key, string) gomap"
  p_Labels :: "(label_key, string) gomap"
  p_OwnerReferences :: "owner_reference list"
  p_Controller :: "string option"
  p_Deleting :: bool
  p_InitContainers :: "container list"
  p_Containers :: "container list"
  p_NodeName :: string
  p_OS :: "string option"
  p_Tolerations :: "toleration list"
  p_PodGroupName :: "string option"
  p_Phase :: pod_phase
  p_Reason :: string
  p_Scheduled :: "pod_condition option"
  p_InitContainerStatuses :: "container_status list"
  p_ContainerStatuses :: "container_status list"

record node =
  n_Name :: string
  n_Annotations :: "(anno_key, string) gomap"
  n_Labels :: "(label_key, string) gomap"
  n_Allocatable :: "(resource_name, int) gomap"
  n_Deleting :: bool
  n_Taints :: "taint list"

section \<open>Annotations, labels and resources\<close>

definition HasAnnotation :: "pod \<Rightarrow> anno_key \<Rightarrow> string option" where
  "HasAnnotation p k = map_of (p_Annotations p) k"

definition InsertAnnotation :: "pod \<Rightarrow> anno_key \<Rightarrow> string \<Rightarrow> pod" where
  "InsertAnnotation p k v = p\<lparr>p_Annotations := AList.update k v (p_Annotations p)\<rparr>"

definition HasLabel :: "pod \<Rightarrow> label_key \<Rightarrow> string option" where
  "HasLabel p k = map_of (p_Labels p) k"

text \<open>\<^verbatim>\<open>val, _ := HasAnnotation(...)\<close>: the zero value stands for an absent key.\<close>

definition anno_or_empty :: "pod \<Rightarrow> anno_key \<Rightarrow> string" where
  "anno_or_empty p k = (case HasAnnotation p k of None \<Rightarrow> [] | Some v \<Rightarrow> v)"

definition GetAllocatableOfNode :: "node \<Rightarrow> resource_name \<Rightarrow> int option" where
  "GetAllocatableOfNode n r = map_of (n_Allocatable n) r"

definition IsVGPUEnabledNode :: "node \<Rightarrow> bool" where
  "IsVGPUEnabledNode n =
     ((case GetAllocatableOfNode n VGPUNumberResourceName of None \<Rightarrow> 0 | Some v \<Rightarrow> v) > 0)"

definition GetResourceOfContainer :: "container \<Rightarrow> resource_name \<Rightarrow> int" where
  "GetResourceOfContainer c r = (case map_of (c_Limits c) r of None \<Rightarrow> 0 | Some v \<Rightarrow> v)"

definition IsVGPURequiredContainer :: "container \<Rightarrow> bool" where
  "IsVGPURequiredContainer c = (GetResourceOfContainer c VGPUNumberResourceName > 0)"

definition IsVGPUResourcePod :: "pod \<Rightarrow> bool" where
  "IsVGPUResourcePod p =
     (list_ex (\<lambda>c. GetResourceOfContainer c VGPUNumberResourceName > 0) (p_Containers p) \<or>
      list_ex (\<lambda>c. GetResourceOfContainer c VGPUNumberResourceName > 0) (p_InitContainers p))"

section \<open>Container states\<close>

definition IsContainerRunning :: "pod \<Rightarrow> string \<Rightarrow> bool" where
  "IsContainerRunning p name =
     (case find (\<lambda>s. cs_Name s = name) (p_InitContainerStatuses p) of
        Some s \<Rightarrow> cs_Running s
      | None \<Rightarrow>
          (case find (\<lambda>s. cs_Name s = name) (p_ContainerStatuses p) of
             Some s \<Rightarrow> cs_Running s
           | None \<Rightarrow> False))"

definition CollectableContainerNames :: "pod \<Rightarrow> string list" where
  "CollectableContainerNames p =
     map c_Name (filter (\<lambda>c. c_Restartable c \<or> IsContainerRunning p (c_Name c)) (p_InitContainers p))
     @ map c_Name (p_Containers p)"

definition AllocateCheckErrMsg :: string where
  "AllocateCheckErrMsg = ''Allocate check failed''"

definition PreStartContainerCheckErrMsg :: string where
  "PreStartContainerCheckErrMsg = ''PreStartContainer check failed''"

definition IsShouldDeletePod :: "pod \<Rightarrow> bool" where
  "IsShouldDeletePod p =
     (if p_Deleting p then True
      else if int (length (p_ContainerStatuses p)) > MaxContainerLimit then True
      else if list_ex (\<lambda>s. case cs_Waiting s of None \<Rightarrow> False
                            | Some msg \<Rightarrow> sublist PreStartContainerCheckErrMsg msg \<or>
                                         sublist AllocateCheckErrMsg msg) (p_ContainerStatuses p)
      then True
      else p_Reason p = ''UnexpectedAdmissionError'')"

definition notRunning :: "container_status list \<Rightarrow> bool" where
  "notRunning ss = list_all (\<lambda>s. cs_Terminated s \<or> cs_Waiting s \<noteq> None) ss"

definition PodIsTerminated :: "pod \<Rightarrow> bool" where
  "PodIsTerminated p =
     (p_Phase p = PodFailed \<or> p_Phase p = PodSucceeded \<or>
      (p_Deleting p \<and> notRunning (p_ContainerStatuses p)))"

section \<open>Device selectors\<close>

text \<open>The loop of \<^verbatim>\<open>matchDeviceSelector\<close>: the first usable entry that matches ends it.\<close>

fun match_entries :: "string list \<Rightarrow> string \<Rightarrow> bool \<Rightarrow> bool \<times> bool" where
  "match_entries [] dev need = (False, need)"
| "match_entries (e # es) dev need =
     (let entry = trim_space e in
      if entry = [] then match_entries es dev need
      else if sublist entry dev then (True, True)
      else match_entries es dev True)"

definition matchDeviceSelector :: "string \<Rightarrow> string \<Rightarrow> bool \<times> bool" where
  "matchDeviceSelector value dev = match_entries (split_on (CHR '','') (to_upper value)) dev False"

definition check_selectors ::
  "(anno_key, string) gomap \<Rightarrow> anno_key \<Rightarrow> anno_key \<Rightarrow> string \<Rightarrow> bool" where
  "check_selectors annos incl excl raw =
     (let dev = to_upper (trim_space raw) in
      if (case map_of annos incl of None \<Rightarrow> False
          | Some v \<Rightarrow> (case matchDeviceSelector v dev of (match, need) \<Rightarrow> need \<and> \<not> match))
      then False
      else if (case map_of annos excl of None \<Rightarrow> False
          | Some v \<Rightarrow> (case matchDeviceSelector v dev of (match, need) \<Rightarrow> need \<and> match))
      then False
      else True)"

definition CheckDeviceType :: "(anno_key, string) gomap \<Rightarrow> string \<Rightarrow> bool" where
  "CheckDeviceType annos deviceType =
     check_selectors annos PodIncludeGpuTypeAnnotation PodExcludeGpuTypeAnnotation deviceType"

definition CheckDeviceUuid :: "(anno_key, string) gomap \<Rightarrow> string \<Rightarrow> bool" where
  "CheckDeviceUuid annos deviceUUID =
     check_selectors annos PodIncludeGPUUUIDAnnotation PodExcludeGPUUUIDAnnotation deviceUUID"

section \<open>Access mode and the node a pod's devices live on\<close>

datatype access_mode = AccessModeLocal | AccessModeRemote

text \<open>The mode, and whether the annotation is valid; an invalid one reads as local.\<close>

definition PodVGPUAccessMode :: "pod \<Rightarrow> access_mode \<times> bool" where
  "PodVGPUAccessMode p =
     (let raw = anno_or_empty p VGPUAccessModeAnnotation;
          mode = (if raw \<noteq> [] then to_lower (trim_space raw) else raw)
      in if mode = [] then (AccessModeLocal, True)
         else if mode = ''local'' then (AccessModeLocal, True)
         else if mode = ''remote'' then (AccessModeRemote, True)
         else (AccessModeLocal, False))"

definition PodPlanSchedulingNode :: "pod \<Rightarrow> string" where
  "PodPlanSchedulingNode p =
     (if p_NodeName p \<noteq> [] \<and> fst (PodVGPUAccessMode p) = AccessModeLocal then p_NodeName p
      else anno_or_empty p PodPredicateNodeAnnotation)"

text \<open>The pods the callback of \<^verbatim>\<open>PodsOnNodeCallback\<close> is called for, in order.\<close>

definition PodsOnNodeCallback :: "pod list \<Rightarrow> string \<Rightarrow> pod list" where
  "PodsOnNodeCallback pods node =
     filter (\<lambda>p. PodPlanSchedulingNode p = node \<and> p_Phase p \<noteq> PodSucceeded \<and> p_Phase p \<noteq> PodFailed) pods"

definition IsRemoteServerNode :: "node \<Rightarrow> bool" where
  "IsRemoteServerNode n =
     (map_of (n_Labels n) NodeRemoteServerLabel = Some ''true'' \<and>
      map_of (n_Annotations n) NodeRemoteEndpointsAnnotation \<noteq> None)"

definition IsRemoteConsumerNode :: "node \<Rightarrow> bool" where
  "IsRemoteConsumerNode n =
     (map_of (n_Labels n) NodeRemoteConsumerLabel = Some ''true'' \<and> IsVGPUEnabledNode n)"

section \<open>The pod being allocated\<close>

definition GetPredicateTimeOfPod :: "pod \<Rightarrow> int" where
  "GetPredicateTimeOfPod p =
     (case HasAnnotation p PodPredicateTimeAnnotation of
        None \<Rightarrow> max_int
      | Some v \<Rightarrow>
          if int (length v) > PodAnnotationMaxLength then max_int
          else (case parse_int v of None \<Rightarrow> max_int | Some t \<Rightarrow> if t \<le> 0 then max_int else t))"

definition GetCurrentPodByAllocatingPods :: "pod list \<Rightarrow> pod option" where
  "GetCurrentPodByAllocatingPods pods =
     (case pods of
        [] \<Rightarrow> None
      | [p] \<Rightarrow> Some p
      | _ \<Rightarrow> Some (hd (go_sort (\<lambda>a b. GetPredicateTimeOfPod a < GetPredicateTimeOfPod b) pods)))"

definition is_allocating :: "pod \<Rightarrow> bool" where
  "is_allocating p =
     (if \<not> IsVGPUResourcePod p \<or> IsShouldDeletePod p then False
      else if HasAnnotation p PodVGPUPreAllocAnnotation = None then False
      else (case HasAnnotation p PodPredicateNodeAnnotation of
              None \<Rightarrow> False
            | Some nodeName \<Rightarrow>
                if nodeName = [] then False
                else if fst (PodVGPUAccessMode p) = AccessModeLocal \<and> p_NodeName p \<noteq> nodeName then False
                else (case HasAnnotation p PodPredicateTimeAnnotation of
                        None \<Rightarrow> False
                      | Some v \<Rightarrow> (case parse_int v of None \<Rightarrow> False | Some t \<Rightarrow> \<not> t \<le> 0))))"

definition FilterAllocatingPods :: "pod list \<Rightarrow> pod list" where
  "FilterAllocatingPods pods = filter is_allocating pods"

section \<open>Gangs\<close>

fun first_nonempty :: "string option list \<Rightarrow> string option" where
  "first_nonempty [] = None"
| "first_nonempty (x # xs) =
     (case x of None \<Rightarrow> first_nonempty xs | Some v \<Rightarrow> if v \<noteq> [] then Some v else first_nonempty xs)"

definition PodHasGangName :: "pod \<Rightarrow> string option" where
  "PodHasGangName p =
     first_nonempty
       (p_PodGroupName p
        # map (HasLabel p) [CoschedulingPodGroupLabel, CoschedulingPodGroupNameLabel]
        @ map (HasAnnotation p)
            [KubeGroupNameAnnotation, VolcanoGroupNameAnnotation, KoordinatorGangNameAnnotation]
        @ map (\<lambda>r. if ref_Kind r = ''PodGroup'' then Some (ref_Name r) else None) (p_OwnerReferences p))"

definition normalizeGangKey :: "string \<Rightarrow> string \<Rightarrow> string" where
  "normalizeGangKey podNamespace raw =
     (let value = trim_space raw in
      case index_of (CHR ''/'') value of
        None \<Rightarrow> podNamespace @ ''/'' @ value
      | Some i \<Rightarrow>
          let namespace = trim_space (take i value); name = trim_space (drop (Suc i) value) in
          if namespace \<noteq> [] \<and> name \<noteq> [] then namespace @ ''/'' @ name
          else podNamespace @ ''/'' @ (if name \<noteq> [] then name else namespace))"

definition PodGangKey :: "pod \<Rightarrow> string option" where
  "PodGangKey p =
     (case PodHasGangName p of
        None \<Rightarrow> None
      | Some name \<Rightarrow>
          if trim_space name = [] then None
          else let key = normalizeGangKey (p_Namespace p) name in
               if suffix ''/'' key then None else Some key)"

section \<open>Facts\<close>

lemma HasAnnotation_Insert [simp]:
  "HasAnnotation (InsertAnnotation p k v) k' = (if k' = k then Some v else HasAnnotation p k')"
  by (simp add: HasAnnotation_def InsertAnnotation_def map_of_update)

lemma anno_or_empty_Insert [simp]:
  "anno_or_empty (InsertAnnotation p k v) k' = (if k' = k then v else anno_or_empty p k')"
  by (simp add: anno_or_empty_def)

lemma InsertAnnotation_fields [simp]:
  "p_Containers (InsertAnnotation p k v) = p_Containers p"
  "p_InitContainers (InsertAnnotation p k v) = p_InitContainers p"
  "p_NodeName (InsertAnnotation p k v) = p_NodeName p"
  "p_Namespace (InsertAnnotation p k v) = p_Namespace p"
  "p_UID (InsertAnnotation p k v) = p_UID p"
  "p_Labels (InsertAnnotation p k v) = p_Labels p"
  by (simp_all add: InsertAnnotation_def)

lemma match_entries_correct:
  "match_entries es dev need =
     ((\<exists>e \<in> set es. trim_space e \<noteq> [] \<and> sublist (trim_space e) dev),
      need \<or> (\<exists>e \<in> set es. trim_space e \<noteq> []))"
  by (induction es arbitrary: need) (auto simp: Let_def)

definition selector_entries :: "string \<Rightarrow> string set" where
  "selector_entries v = {trim_space e | e. e \<in> set (split_on (CHR '','') (to_upper v))} - {[]}"

lemma matchDeviceSelector_correct:
  "matchDeviceSelector v dev =
     ((\<exists>e \<in> selector_entries v. sublist e dev), selector_entries v \<noteq> {})"
  by (auto simp: matchDeviceSelector_def match_entries_correct selector_entries_def)

lemma check_selectors_iff:
  "check_selectors annos incl excl raw \<longleftrightarrow>
     (\<forall>v. map_of annos incl = Some v \<longrightarrow> selector_entries v \<noteq> {} \<longrightarrow>
          (\<exists>e \<in> selector_entries v. sublist e (to_upper (trim_space raw)))) \<and>
     (\<forall>v. map_of annos excl = Some v \<longrightarrow>
          (\<forall>e \<in> selector_entries v. \<not> sublist e (to_upper (trim_space raw))))"
  by (auto simp: check_selectors_def matchDeviceSelector_correct Let_def split: option.splits)

text \<open>
  C12. The device selectors. A device type passes \<^verbatim>\<open>CheckDeviceType\<close> exactly when it is
  named by the include list, if that list has any usable entry, and by no entry of the
  exclude list. The two filters are independent, an entry matches as a case-insensitive
  substring, and a list of blanks and commas filters nothing.
\<close>

theorem CheckDeviceType_iff:
  "CheckDeviceType annos deviceType \<longleftrightarrow>
     (case map_of annos PodIncludeGpuTypeAnnotation of
        None \<Rightarrow> True
      | Some v \<Rightarrow> selector_entries v = {} \<or>
                 (\<exists>e \<in> selector_entries v. sublist e (to_upper (trim_space deviceType)))) \<and>
     (case map_of annos PodExcludeGpuTypeAnnotation of
        None \<Rightarrow> True
      | Some v \<Rightarrow> \<not> (\<exists>e \<in> selector_entries v. sublist e (to_upper (trim_space deviceType))))"
  unfolding CheckDeviceType_def check_selectors_iff by (auto split: option.splits)

text \<open>An object name: not empty, without blanks and without a slash.\<close>

definition plain_name :: "string \<Rightarrow> bool" where
  "plain_name a \<longleftrightarrow> a \<noteq> [] \<and> list_all (\<lambda>c. \<not> is_space c \<and> c \<noteq> CHR ''/'') a"

lemma trim_space_id: "list_all (\<lambda>c. \<not> is_space c) v \<Longrightarrow> trim_space v = v"
  by (simp add: trim_space_def dropWhile_none list_all_iff)

lemma plain_nameD:
  assumes "plain_name a"
  shows "trim_space a = a" "a \<noteq> []" "CHR ''/'' \<notin> set a"
proof -
  show "trim_space a = a"
    using assms by (intro trim_space_id) (simp add: plain_name_def list_all_iff)
  show "a \<noteq> []" "CHR ''/'' \<notin> set a"
    using assms by (auto simp: plain_name_def list_all_iff)
qed

lemma is_space_slash [simp]: "\<not> is_space (CHR ''/'')"
  by (simp add: is_space_def)

lemma normalizeGangKey_bare:
  assumes "plain_name a"
  shows "normalizeGangKey ns a = ns @ ''/'' @ a"
  using plain_nameD [OF assms] by (simp add: normalizeGangKey_def)

lemma normalizeGangKey_qualified:
  assumes "plain_name ns" "plain_name a"
  shows "normalizeGangKey ns' (ns @ ''/'' @ a) = ns @ ''/'' @ a"
proof -
  have "index_of (CHR ''/'') (ns @ CHR ''/'' # a) = Some (length ns)"
    using plain_nameD [OF assms(1)] by (simp add: index_of_append)
  moreover have "trim_space (ns @ CHR ''/'' # a) = ns @ CHR ''/'' # a"
    using assms by (intro trim_space_id) (auto simp: plain_name_def list_all_iff)
  ultimately show ?thesis
    using plain_nameD [OF assms(1)] plain_nameD [OF assms(2)]
    by (simp add: normalizeGangKey_def Let_def)
qed

lemma PodGangKey_spelling:
  assumes "plain_name (p_Namespace p)" "plain_name a"
    and "PodHasGangName p = Some a \<or> PodHasGangName p = Some (p_Namespace p @ ''/'' @ a)"
  shows "PodGangKey p = Some (p_Namespace p @ ''/'' @ a)"
proof -
  have "\<not> suffix ''/'' (p_Namespace p @ ''/'' @ a)"
    using plain_nameD [OF assms(2)] by (cases a rule: rev_cases) (auto simp: suffix_def)
  moreover have "trim_space (p_Namespace p @ CHR ''/'' # a) = p_Namespace p @ CHR ''/'' # a"
    using assms(1,2) by (intro trim_space_id) (auto simp: plain_name_def list_all_iff)
  ultimately show ?thesis
    using assms(3) normalizeGangKey_bare [OF assms(2)] normalizeGangKey_qualified [OF assms(1,2)]
      plain_nameD [OF assms(2)]
    by (auto simp: PodGangKey_def)
qed


text \<open>An empty pod, to build concrete inputs from.\<close>

definition empty_pod :: pod where
  "empty_pod =
     \<lparr>p_Name = [], p_Namespace = [], p_UID = [], p_Annotations = [], p_Labels = [],
      p_OwnerReferences = [], p_Controller = None, p_Deleting = False, p_InitContainers = [],
      p_Containers = [], p_NodeName = [], p_OS = None, p_Tolerations = [], p_PodGroupName = None, p_Phase = PodPending,
      p_Reason = [], p_Scheduled = None, p_InitContainerStatuses = [], p_ContainerStatuses = []\<rparr>"


text \<open>
  C14. The pod being allocated. Among the candidate pods \<^verbatim>\<open>GetCurrentPodByAllocatingPods\<close>
  returns one with the earliest predicate time, and it fails only on an empty list.
\<close>

theorem GetCurrentPod_oldest:
  "case GetCurrentPodByAllocatingPods pods of
     None \<Rightarrow> pods = []
   | Some p \<Rightarrow> p \<in> set pods \<and>
       list_all (\<lambda>q. GetPredicateTimeOfPod p \<le> GetPredicateTimeOfPod q) pods"
proof (cases pods)
  case (Cons a rest)
  let ?lt = "\<lambda>a b. GetPredicateTimeOfPod a < GetPredicateTimeOfPod b"
  show ?thesis
  proof (cases rest)
    case (Cons b rest')
    let ?s = "go_sort ?lt pods"
    have cmp: "comparator ?lt" by (rule comparator_key)
    obtain h t where s: "?s = h # t"
      using \<open>pods = a # rest\<close> by (metis length_go_sort length_0_conv neq_Nil_conv list.distinct(1))
    have "sorted_wrt (\<lambda>x y. \<not> ?lt y x) ?s" by (rule comparator.go_sort_sorted [OF cmp])
    moreover have "set ?s = set pods" by simp
    ultimately show ?thesis
      using s Cons \<open>pods = a # rest\<close> unfolding GetCurrentPodByAllocatingPods_def
      by (fastforce simp: list_all_iff)
  qed (use Cons in \<open>simp add: GetCurrentPodByAllocatingPods_def\<close>)
qed (simp add: GetCurrentPodByAllocatingPods_def)

end
