(* ===== verification/Claim_Text.thy ===== *)
theory Claim_Text
  imports Kube
begin

text \<open>
  The device claims of \<^verbatim>\<open>pkg/device/types.go\<close> and their text form, in which the scheduler
  hands an allocation to the device plugin through the pod's annotations:
  \<^verbatim>\<open>name[id_uuid_cores_memory,...];name[...]\<close>. The codec is written once over
  an interface for a separated list of encoded items and used at both levels. The last
  section is the cursor by which the device plugin walks the containers of a pod:
  \<^verbatim>\<open>GetCurrentPreAllocateContainerDevice\<close> and \<^verbatim>\<open>UpdatePodRealContainerDeviceClaim\<close>.
\<close>

section \<open>Claims\<close>

record device_claim =
  dc_Id :: int
  dc_Uuid :: string
  dc_Cores :: int
  dc_Memory :: int

record container_claim =
  cdc_Name :: string
  cdc_DeviceClaims :: "device_claim list"

type_synonym pod_claim = "container_claim list"

text \<open>The errors of the decoders; the last is the panic of a slice expression out of range.\<close>

datatype claim_error = TextEmpty | TextFormat | DecodingFormat | NumberSyntax | SliceOutOfRange

definition go_slice :: "string \<Rightarrow> nat \<Rightarrow> nat \<Rightarrow> claim_error + string" where
  "go_slice s i j = (if i \<le> j \<and> j \<le> length s then Inr (take (j - i) (drop i s)) else Inl SliceOutOfRange)"

section \<open>Encoding and decoding\<close>

definition DeviceClaim_MarshalText :: "device_claim \<Rightarrow> string" where
  "DeviceClaim_MarshalText dc =
     itoa (dc_Id dc) @ ''_'' @ dc_Uuid dc @ ''_'' @ itoa (dc_Cores dc) @ ''_'' @ itoa (dc_Memory dc)"

definition DeviceClaim_UnmarshalText :: "string \<Rightarrow> claim_error + device_claim" where
  "DeviceClaim_UnmarshalText input =
     (let t = strip_spaces input in
      if t = [] then Inl TextEmpty
      else (case split_on (CHR ''_'') t of
              [a, b, c, d] \<Rightarrow>
                (case parse_int a of
                   None \<Rightarrow> Inl NumberSyntax
                 | Some ident \<Rightarrow>
                     (case parse_int c of
                        None \<Rightarrow> Inl NumberSyntax
                      | Some cores \<Rightarrow>
                          (case parse_int d of
                             None \<Rightarrow> Inl NumberSyntax
                           | Some memory \<Rightarrow>
                               Inr \<lparr>dc_Id = ident, dc_Uuid = b, dc_Cores = cores, dc_Memory = memory\<rparr>)))
            | _ \<Rightarrow> Inl TextFormat))"

text \<open>
  The loop of both list decoders: empty pieces are skipped, the first error is returned.
\<close>

fun unmarshal_pieces :: "(string \<Rightarrow> claim_error + 'a) \<Rightarrow> string list \<Rightarrow> claim_error + 'a list" where
  "unmarshal_pieces dec [] = Inr []"
| "unmarshal_pieces dec (s # ss) =
     (if s = [] then unmarshal_pieces dec ss
      else (case dec s of
              Inl e \<Rightarrow> Inl e
            | Inr x \<Rightarrow> (case unmarshal_pieces dec ss of Inl e \<Rightarrow> Inl e | Inr xs \<Rightarrow> Inr (x # xs))))"

definition ContainerDeviceClaim_MarshalText :: "container_claim \<Rightarrow> string" where
  "ContainerDeviceClaim_MarshalText cdc =
     cdc_Name cdc @ ''['' @ join '','' (map DeviceClaim_MarshalText (cdc_DeviceClaims cdc)) @ '']''"

definition ContainerDeviceClaim_UnmarshalText :: "string \<Rightarrow> claim_error + container_claim" where
  "ContainerDeviceClaim_UnmarshalText input =
     (let t = strip_spaces input in
      if t = [] then Inl TextEmpty
      else (case index_of (CHR ''['') t of
              None \<Rightarrow> Inl DecodingFormat
            | Some startIndex \<Rightarrow>
                if startIndex = length t - 1 then Inl DecodingFormat
                else (case index_of (CHR '']'') t of
                        None \<Rightarrow> Inl DecodingFormat
                      | Some endIndex \<Rightarrow>
                          if endIndex \<noteq> length t - 1 then Inl DecodingFormat
                          else (case go_slice t (startIndex + 1) endIndex of
                                  Inl e \<Rightarrow> Inl e
                                | Inr body \<Rightarrow>
                                    (case unmarshal_pieces DeviceClaim_UnmarshalText (split_on (CHR '','') body) of
                                       Inl e \<Rightarrow> Inl e
                                     | Inr dcs \<Rightarrow>
                                         (case go_slice t 0 startIndex of
                                            Inl e \<Rightarrow> Inl e
                                          | Inr name \<Rightarrow>
                                              Inr \<lparr>cdc_Name = name, cdc_DeviceClaims = dcs\<rparr>))))))"

definition PodDeviceClaim_MarshalText :: "pod_claim \<Rightarrow> string" where
  "PodDeviceClaim_MarshalText pdc = join '';'' (map ContainerDeviceClaim_MarshalText pdc)"

definition PodDeviceClaim_UnmarshalText :: "string \<Rightarrow> claim_error + pod_claim" where
  "PodDeviceClaim_UnmarshalText input =
     (let t = strip_spaces input in
      if t = [] then Inl TextEmpty
      else unmarshal_pieces ContainerDeviceClaim_UnmarshalText (split_on (CHR '';'') t))"

section \<open>The allocation cursor\<close>

text \<open>A claim text that does not decode is logged and dropped: the list restarts with this claim.\<close>

definition UpdatePodRealContainerDeviceClaim :: "pod \<Rightarrow> container_claim \<Rightarrow> pod" where
  "UpdatePodRealContainerDeviceClaim p cdc =
     (let val = anno_or_empty p PodVGPURealAllocAnnotation;
          pdc = (if length val > 0
                 then (case PodDeviceClaim_UnmarshalText val of Inl e \<Rightarrow> [] | Inr c \<Rightarrow> c)
                 else [])
      in InsertAnnotation p PodVGPURealAllocAnnotation (PodDeviceClaim_MarshalText (pdc @ [cdc])))"

datatype cursor_error =
    ParsePreAlloc claim_error | PreAllocEmpty | ContainerMissing string
  | ParseRealAlloc claim_error | NoAssignable

definition checkExistCont :: "pod \<Rightarrow> string \<Rightarrow> bool" where
  "checkExistCont p name =
     (list_ex (\<lambda>c. c_Name c = name) (p_InitContainers p) \<or>
      list_ex (\<lambda>c. c_Name c = name) (p_Containers p))"

definition GetCurrentPreAllocateContainerDevice :: "pod \<Rightarrow> cursor_error + container_claim" where
  "GetCurrentPreAllocateContainerDevice p =
     (case PodDeviceClaim_UnmarshalText (anno_or_empty p PodVGPUPreAllocAnnotation) of
        Inl e \<Rightarrow> Inl (ParsePreAlloc e)
      | Inr [] \<Rightarrow> Inl PreAllocEmpty
      | Inr (c # cs) \<Rightarrow>
          (let realAlloc = anno_or_empty p PodVGPURealAllocAnnotation in
           if length realAlloc = 0
           then (if checkExistCont p (cdc_Name c) then Inr c else Inl (ContainerMissing (cdc_Name c)))
           else (case PodDeviceClaim_UnmarshalText realAlloc of
                   Inl e \<Rightarrow> Inl (ParseRealAlloc e)
                 | Inr realDevs \<Rightarrow>
                     (case find (\<lambda>cd. \<not> list_ex (\<lambda>r. cdc_Name r = cdc_Name cd) realDevs) (c # cs) of
                        None \<Rightarrow> Inl NoAssignable
                      | Some cd \<Rightarrow>
                          if checkExistCont p (cdc_Name cd) then Inr cd
                          else Inl (ContainerMissing (cdc_Name cd))))))"

text \<open>
  The device plugin allocates the containers of a pod one call at a time: fetch the current
  claim, record it. \<^verbatim>\<open>serve n p\<close> is the claims handed out by n such calls.
\<close>

fun serve :: "nat \<Rightarrow> pod \<Rightarrow> cursor_error + (container_claim list \<times> pod)" where
  "serve 0 p = Inr ([], p)"
| "serve (Suc n) p =
     (case GetCurrentPreAllocateContainerDevice p of
        Inl e \<Rightarrow> Inl e
      | Inr c \<Rightarrow>
          (case serve n (UpdatePodRealContainerDeviceClaim p c) of
             Inl e \<Rightarrow> Inl e
           | Inr (cs, p') \<Rightarrow> Inr (c # cs, p')))"

section \<open>Separated lists of encoded items\<close>

text \<open>
  The contract the list decoders rely on: on well-formed items the item decoder inverts the
  item encoder, and an encoded item is neither empty nor contains the separator.
\<close>

locale sep_codec =
  fixes enc :: "'a \<Rightarrow> string"
    and dec :: "string \<Rightarrow> claim_error + 'a"
    and ok :: "'a \<Rightarrow> bool"
    and sep :: char
  assumes dec_enc: "ok x \<Longrightarrow> dec (enc x) = Inr x"
    and enc_not_Nil: "ok x \<Longrightarrow> enc x \<noteq> []"
    and enc_sep: "ok x \<Longrightarrow> sep \<notin> set (enc x)"
begin

lemma pieces_enc: "list_all ok xs \<Longrightarrow> unmarshal_pieces dec (map enc xs) = Inr xs"
  by (induction xs) (auto simp: dec_enc enc_not_Nil)

lemma pieces_round_trip:
  assumes "list_all ok xs"
  shows "unmarshal_pieces dec (split_on sep (join [sep] (map enc xs))) = Inr xs"
proof (cases "xs = []")
  case False
  then have "split_on sep (join [sep] (map enc xs)) = map enc xs"
    using assms by (intro split_on_join) (auto simp: list_all_iff enc_sep)
  then show ?thesis using pieces_enc [OF assms] by simp
qed simp

lemma join_not_Nil: "list_all ok xs \<Longrightarrow> xs \<noteq> [] \<Longrightarrow> join [sep] (map enc xs) \<noteq> []"
  by (cases xs rule: list.exhaust, simp, rename_tac y ys, case_tac ys) (auto simp: enc_not_Nil)

end

subsection \<open>Well-formed claims\<close>

definition free_of :: "string \<Rightarrow> string \<Rightarrow> bool" where
  "free_of bad s = list_all (\<lambda>c. c \<notin> set bad) s"

definition wf_device_claim :: "device_claim \<Rightarrow> bool" where
  "wf_device_claim dc =
     (in_i64 (dc_Id dc) \<and> in_i64 (dc_Cores dc) \<and> in_i64 (dc_Memory dc) \<and>
      free_of '' _,;]'' (dc_Uuid dc))"

definition wf_container_claim :: "container_claim \<Rightarrow> bool" where
  "wf_container_claim cdc =
     (free_of '' ;[]'' (cdc_Name cdc) \<and> list_all wf_device_claim (cdc_DeviceClaims cdc))"

lemma free_of_notin: "free_of bad s \<Longrightarrow> c \<in> set bad \<Longrightarrow> c \<notin> set s"
  by (auto simp: free_of_def list_all_iff)

lemma notin_DeviceClaim_text:
  assumes "wf_device_claim dc" "c \<in> set '' ,;]''"
  shows "c \<notin> set (DeviceClaim_MarshalText dc)"
proof -
  have "c \<notin> set (dc_Uuid dc)" using assms by (auto simp: wf_device_claim_def dest: free_of_notin)
  moreover have "c \<notin> set (itoa i)" for i using assms(2) by (intro notin_itoa) auto
  moreover have "c \<noteq> CHR ''_''" using assms(2) by auto
  ultimately show ?thesis by (simp add: DeviceClaim_MarshalText_def)
qed

lemma DeviceClaim_round_trip:
  assumes "wf_device_claim dc"
  shows "DeviceClaim_UnmarshalText (DeviceClaim_MarshalText dc) = Inr dc"
proof -
  have u: "CHR ''_'' \<notin> set (itoa i)" for i by (rule notin_itoa) auto
  have v: "CHR ''_'' \<notin> set (dc_Uuid dc)"
    using assms by (auto simp: wf_device_claim_def dest: free_of_notin)
  have "strip_spaces (DeviceClaim_MarshalText dc) = DeviceClaim_MarshalText dc"
    using assms by (intro strip_spaces_id notin_DeviceClaim_text) auto
  moreover have "split_on (CHR ''_'') (DeviceClaim_MarshalText dc)
      = [itoa (dc_Id dc), dc_Uuid dc, itoa (dc_Cores dc), itoa (dc_Memory dc)]"
    by (simp add: DeviceClaim_MarshalText_def split_on_append split_on_notin u v)
  moreover have "DeviceClaim_MarshalText dc \<noteq> []" by (simp add: DeviceClaim_MarshalText_def)
  ultimately show ?thesis using assms
    by (simp add: DeviceClaim_UnmarshalText_def wf_device_claim_def)
qed

interpretation devices: sep_codec DeviceClaim_MarshalText DeviceClaim_UnmarshalText wf_device_claim "CHR '',''"
proof
  fix dc
  assume ok: "wf_device_claim dc"
  show "DeviceClaim_UnmarshalText (DeviceClaim_MarshalText dc) = Inr dc"
    by (rule DeviceClaim_round_trip [OF ok])
  show "DeviceClaim_MarshalText dc \<noteq> []" by (simp add: DeviceClaim_MarshalText_def)
  show "CHR '','' \<notin> set (DeviceClaim_MarshalText dc)" by (rule notin_DeviceClaim_text [OF ok]) simp
qed

lemma notin_devices_text:
  assumes "list_all wf_device_claim dcs" "c \<in> set '' ;]''"
  shows "c \<notin> set (join '','' (map DeviceClaim_MarshalText dcs))"
proof -
  have "c \<notin> set (DeviceClaim_MarshalText dc)" if "dc \<in> set dcs" for dc
    using assms that by (intro notin_DeviceClaim_text) (auto simp: list_all_iff)
  then show ?thesis
    using set_join [of "'',''" "map DeviceClaim_MarshalText dcs"] assms(2) by auto
qed

lemma notin_ContainerClaim_text:
  assumes "wf_container_claim cdc" "c \<in> set '' ;''"
  shows "c \<notin> set (ContainerDeviceClaim_MarshalText cdc)"
  using assms notin_devices_text [of "cdc_DeviceClaims cdc" c]
  by (auto simp: wf_container_claim_def ContainerDeviceClaim_MarshalText_def dest: free_of_notin)

lemma ContainerClaim_round_trip:
  assumes "wf_container_claim cdc"
  shows "ContainerDeviceClaim_UnmarshalText (ContainerDeviceClaim_MarshalText cdc) = Inr cdc"
proof -
  let ?n = "cdc_Name cdc"
  let ?b = "join '','' (map DeviceClaim_MarshalText (cdc_DeviceClaims cdc))"
  let ?t = "?n @ CHR ''['' # ?b @ '']''"
  have t: "ContainerDeviceClaim_MarshalText cdc = ?t"
    by (simp add: ContainerDeviceClaim_MarshalText_def)
  have wf: "list_all wf_device_claim (cdc_DeviceClaims cdc)" and n: "free_of '' ;[]'' ?n"
    using assms by (auto simp: wf_container_claim_def)
  have s: "strip_spaces ?t = ?t"
    using notin_ContainerClaim_text [OF assms, of "CHR '' ''"] t by (intro strip_spaces_id) simp
  have i: "index_of (CHR ''['') ?t = Some (length ?n)"
    using free_of_notin [OF n] by (intro index_of_append) simp
  have "index_of (CHR '']'') ((?n @ CHR ''['' # ?b) @ CHR '']'' # []) = Some (length (?n @ CHR ''['' # ?b))"
    using free_of_notin [OF n] notin_devices_text [OF wf, of "CHR '']''"]
    by (intro index_of_append) auto
  then have j: "index_of (CHR '']'') ?t = Some (length ?n + Suc (length ?b))" by simp
  show ?thesis
    unfolding t ContainerDeviceClaim_UnmarshalText_def Let_def s i j
    using devices.pieces_round_trip [OF wf] by (simp add: go_slice_def)
qed

interpretation containers: sep_codec ContainerDeviceClaim_MarshalText ContainerDeviceClaim_UnmarshalText
  wf_container_claim "CHR '';''"
proof
  fix cdc
  assume ok: "wf_container_claim cdc"
  show "ContainerDeviceClaim_UnmarshalText (ContainerDeviceClaim_MarshalText cdc) = Inr cdc"
    by (rule ContainerClaim_round_trip [OF ok])
  show "ContainerDeviceClaim_MarshalText cdc \<noteq> []" by (simp add: ContainerDeviceClaim_MarshalText_def)
  show "CHR '';'' \<notin> set (ContainerDeviceClaim_MarshalText cdc)"
    by (rule notin_ContainerClaim_text [OF ok]) simp
qed

lemma PodClaim_round_trip:
  assumes "list_all wf_container_claim pdc" "pdc \<noteq> []"
  shows "PodDeviceClaim_UnmarshalText (PodDeviceClaim_MarshalText pdc) = Inr pdc"
proof -
  have "CHR '' '' \<notin> set (PodDeviceClaim_MarshalText pdc)"
    using assms(1) notin_ContainerClaim_text [of _ "CHR '' ''"]
      set_join [of "'';''" "map ContainerDeviceClaim_MarshalText pdc"]
    by (auto simp: PodDeviceClaim_MarshalText_def list_all_iff)
  then have "strip_spaces (PodDeviceClaim_MarshalText pdc) = PodDeviceClaim_MarshalText pdc"
    by (rule strip_spaces_id)
  then show ?thesis
    using containers.pieces_round_trip [OF assms(1)] containers.join_not_Nil [OF assms]
    by (simp add: PodDeviceClaim_UnmarshalText_def PodDeviceClaim_MarshalText_def)
qed

text \<open>
  C8. The text form of an allocation loses nothing: decoding the encoding of a non-empty pod
  claim returns it, for container names and device uuids free of the separators.
\<close>

theorem PodDeviceClaim_round_trip:
  assumes "list_all wf_container_claim pdc" "pdc \<noteq> []"
  shows "PodDeviceClaim_UnmarshalText (PodDeviceClaim_MarshalText pdc) = Inr pdc"
  by (rule PodClaim_round_trip [OF assms])

theorem PodDeviceClaim_round_trip_witness:
  "PodDeviceClaim_UnmarshalText
     (PodDeviceClaim_MarshalText
        [\<lparr>cdc_Name = ''c1'', cdc_DeviceClaims =
            [\<lparr>dc_Id = 0, dc_Uuid = ''GPU-1'', dc_Cores = 50, dc_Memory = 1024\<rparr>,
             \<lparr>dc_Id = 3, dc_Uuid = ''GPU-2'', dc_Cores = 0, dc_Memory = 512\<rparr>]\<rparr>,
         \<lparr>cdc_Name = ''c2'', cdc_DeviceClaims = []\<rparr>])
   = Inr [\<lparr>cdc_Name = ''c1'', cdc_DeviceClaims =
            [\<lparr>dc_Id = 0, dc_Uuid = ''GPU-1'', dc_Cores = 50, dc_Memory = 1024\<rparr>,
             \<lparr>dc_Id = 3, dc_Uuid = ''GPU-2'', dc_Cores = 0, dc_Memory = 512\<rparr>]\<rparr>,
         \<lparr>cdc_Name = ''c2'', cdc_DeviceClaims = []\<rparr>]"
  by (rule PodDeviceClaim_round_trip)
    (simp_all add: wf_container_claim_def wf_device_claim_def free_of_def in_i64_def)

subsection \<open>What the decoders accept\<close>

lemma free_of_iff: "free_of bad s \<longleftrightarrow> set bad \<inter> set s = {}"
  by (auto simp: free_of_def list_all_iff)

lemma strip_spaces_notin [simp]: "CHR '' '' \<notin> set (strip_spaces s)"
  by (simp add: strip_spaces_def)

lemma set_strip_spaces: "set (strip_spaces s) \<subseteq> set s"
  by (auto simp: strip_spaces_def)

lemma DeviceClaim_decoded_wf:
  assumes "DeviceClaim_UnmarshalText input = Inr dc" "set '',;]'' \<inter> set input = {}"
  shows "wf_device_claim dc"
proof -
  obtain a b c d where sp: "split_on (CHR ''_'') (strip_spaces input) = [a, b, c, d]"
    and i: "parse_int a = Some (dc_Id dc)" "parse_int c = Some (dc_Cores dc)"
      "parse_int d = Some (dc_Memory dc)" "dc_Uuid dc = b"
    using assms(1)
    by (auto simp: DeviceClaim_UnmarshalText_def Let_def split: if_splits list.splits option.splits)
  have "set b \<subseteq> set (strip_spaces input) - {CHR ''_''}"
    using sp by (intro set_split_on) simp
  then have "free_of '' _,;]'' b"
    using assms(2) set_strip_spaces [of input] strip_spaces_notin [of input] by (auto simp: free_of_iff)
  then show ?thesis using i by (auto simp: wf_device_claim_def dest: parse_int_range)
qed

lemma unmarshal_pieces_all:
  "unmarshal_pieces dec ss = Inr xs \<Longrightarrow> (\<And>s x. s \<in> set ss \<Longrightarrow> dec s = Inr x \<Longrightarrow> P x) \<Longrightarrow> list_all P xs"
  by (induction ss arbitrary: xs) (fastforce split: if_splits sum.splits)+

lemma unmarshal_pieces_error:
  "unmarshal_pieces dec ss = Inl e \<Longrightarrow> \<exists>s \<in> set ss. dec s = Inl e"
  by (induction ss) (auto split: if_splits sum.splits)

lemma go_slice_notin:
  "go_slice s i j = Inr w \<Longrightarrow> set w \<subseteq> set s"
  by (auto simp: go_slice_def dest: in_set_takeD in_set_dropD split: if_splits)

text \<open>The text an accepted container claim is read from, after the blanks are removed.\<close>

lemma ContainerClaim_decodedE:
  assumes "ContainerDeviceClaim_UnmarshalText input = Inr cdc"
  obtains body where
    "strip_spaces input = cdc_Name cdc @ ''['' @ body @ '']''"
    "CHR ''['' \<notin> set (cdc_Name cdc)" "CHR '']'' \<notin> set (cdc_Name cdc)" "CHR '']'' \<notin> set body"
    "unmarshal_pieces DeviceClaim_UnmarshalText (split_on (CHR '','') body) = Inr (cdc_DeviceClaims cdc)"
proof -
  let ?t = "strip_spaces input"
  obtain i where ne: "?t \<noteq> []" and i: "index_of (CHR ''['') ?t = Some i" "i \<noteq> length ?t - 1"
    and j: "index_of (CHR '']'') ?t = Some (length ?t - 1)"
    and b: "case go_slice ?t (i + 1) (length ?t - 1) of Inl e \<Rightarrow> False | Inr body \<Rightarrow>
        unmarshal_pieces DeviceClaim_UnmarshalText (split_on (CHR '','') body) = Inr (cdc_DeviceClaims cdc)"
    and n: "go_slice ?t 0 i = Inr (cdc_Name cdc)"
    using assms
    by (auto simp: ContainerDeviceClaim_UnmarshalText_def Let_def split: if_splits option.splits sum.splits)
  have ib: "i < length ?t" "?t ! i = CHR ''[''" "CHR ''['' \<notin> set (take i ?t)"
    using index_of_Some [OF i(1)] by auto
  have jb: "?t ! (length ?t - 1) = CHR '']''" "CHR '']'' \<notin> set (take (length ?t - 1) ?t)"
    using index_of_Some [OF j] by auto
  let ?body = "take (length ?t - 1 - (i + 1)) (drop (i + 1) ?t)"
  have "i + 1 \<le> length ?t - 1" using ib(1) i(2) by linarith
  then have body: "go_slice ?t (i + 1) (length ?t - 1) = Inr ?body" by (simp add: go_slice_def)
  have name: "cdc_Name cdc = take i ?t" using n ib(1) by (simp add: go_slice_def)
  have "take (length ?t - 1) ?t = take i ?t @ ''['' @ ?body"
    using id_take_nth_drop [of i "take (length ?t - 1) ?t"] ib \<open>i + 1 \<le> length ?t - 1\<close>
    by (simp add: min_def drop_take)
  moreover have "?t = take (length ?t - 1) ?t @ '']''"
    using ne jb(1) by (metis append_butlast_last_id butlast_conv_take last_conv_nth)
  ultimately have "?t = cdc_Name cdc @ ''['' @ ?body @ '']''" using name by simp
  moreover have "CHR '']'' \<notin> set (take i ?t)" "CHR '']'' \<notin> set ?body"
    using jb(2) \<open>take (length ?t - 1) ?t = take i ?t @ ''['' @ ?body\<close> by auto
  ultimately show thesis using that [of ?body] ib(3) b body name by simp
qed

lemma ContainerClaim_decoded_wf:
  assumes "ContainerDeviceClaim_UnmarshalText input = Inr cdc" "CHR '';'' \<notin> set input"
  shows "wf_container_claim cdc"
proof -
  obtain body where t: "strip_spaces input = cdc_Name cdc @ ''['' @ body @ '']''"
    and n: "CHR ''['' \<notin> set (cdc_Name cdc)" "CHR '']'' \<notin> set (cdc_Name cdc)" "CHR '']'' \<notin> set body"
    and u: "unmarshal_pieces DeviceClaim_UnmarshalText (split_on (CHR '','') body) = Inr (cdc_DeviceClaims cdc)"
    using ContainerClaim_decodedE [OF assms(1)] .
  have sub: "set (cdc_Name cdc) \<union> set body \<subseteq> set (strip_spaces input)" using t by auto
  then have semi: "CHR '';'' \<notin> set (cdc_Name cdc) \<union> set body" "CHR '' '' \<notin> set (cdc_Name cdc)"
    using assms(2) set_strip_spaces [of input] strip_spaces_notin [of input] by blast+
  have "wf_device_claim dc"
    if "s \<in> set (split_on (CHR '','') body)" "DeviceClaim_UnmarshalText s = Inr dc" for s dc
    using set_split_on [OF that(1)] semi n(3) by (intro DeviceClaim_decoded_wf [OF that(2)]) auto
  then have "list_all wf_device_claim (cdc_DeviceClaims cdc)"
    by (rule unmarshal_pieces_all [OF u])
  then show ?thesis using n semi by (auto simp: wf_container_claim_def free_of_iff)
qed

lemma DeviceClaim_no_panic: "DeviceClaim_UnmarshalText input \<noteq> Inl SliceOutOfRange"
  by (auto simp: DeviceClaim_UnmarshalText_def Let_def split: list.splits option.splits)

lemma ContainerClaim_no_panic: "ContainerDeviceClaim_UnmarshalText input \<noteq> Inl SliceOutOfRange"
proof -
  have "unmarshal_pieces DeviceClaim_UnmarshalText ss \<noteq> Inl SliceOutOfRange" for ss
    using unmarshal_pieces_error [of DeviceClaim_UnmarshalText ss SliceOutOfRange] DeviceClaim_no_panic
    by blast
  then show ?thesis
    by (auto simp: ContainerDeviceClaim_UnmarshalText_def Let_def go_slice_def
        dest!: index_of_Some split: option.splits sum.splits if_splits)
qed

text \<open>
  C11. The decoder is safe on every input: it never slices out of range, and a claim it
  accepts is well-formed (numbers within 64 bits, names and uuids free of separators), so that
  writing an accepted claim back and reading it again returns the same claim. The only accepted
  claim that is not readable again is the empty one.
\<close>

theorem PodDeviceClaim_Unmarshal_sound:
  "case PodDeviceClaim_UnmarshalText input of
     Inl e \<Rightarrow> e \<noteq> SliceOutOfRange
   | Inr pdc \<Rightarrow> list_all wf_container_claim pdc \<and>
       (pdc = [] \<or> PodDeviceClaim_UnmarshalText (PodDeviceClaim_MarshalText pdc) = Inr pdc)"
proof (cases "PodDeviceClaim_UnmarshalText input")
  case (Inl e)
  then have "e = TextEmpty \<or> (\<exists>s. ContainerDeviceClaim_UnmarshalText s = Inl e)"
    by (auto simp: PodDeviceClaim_UnmarshalText_def Let_def dest: unmarshal_pieces_error split: if_splits)
  then show ?thesis using ContainerClaim_no_panic Inl by auto
next
  case (Inr pdc)
  let ?ss = "split_on (CHR '';'') (strip_spaces input)"
  have u: "unmarshal_pieces ContainerDeviceClaim_UnmarshalText ?ss = Inr pdc"
    using Inr by (simp add: PodDeviceClaim_UnmarshalText_def Let_def split: if_splits)
  have "wf_container_claim c" if "s \<in> set ?ss" "ContainerDeviceClaim_UnmarshalText s = Inr c" for s c
    using set_split_on [OF that(1)] by (intro ContainerClaim_decoded_wf [OF that(2)]) auto
  then have "list_all wf_container_claim pdc" by (rule unmarshal_pieces_all [OF u])
  then show ?thesis using Inr PodClaim_round_trip by auto
qed

section \<open>Serving the containers of a pod\<close>

lemma MarshalText_not_Nil:
  "list_all wf_container_claim pdc \<Longrightarrow> pdc \<noteq> [] \<Longrightarrow> PodDeviceClaim_MarshalText pdc \<noteq> []"
  using containers.join_not_Nil by (simp add: PodDeviceClaim_MarshalText_def)

text \<open>
  The pod while its containers are served: the pre-allocation is \<^term>\<open>pdc\<close> and the first
  \<^term>\<open>k\<close> claims are recorded as served.
\<close>

definition serving :: "pod_claim \<Rightarrow> nat \<Rightarrow> pod \<Rightarrow> bool" where
  "serving pdc k p =
     (anno_or_empty p PodVGPUPreAllocAnnotation = PodDeviceClaim_MarshalText pdc \<and>
      anno_or_empty p PodVGPURealAllocAnnotation = PodDeviceClaim_MarshalText (take k pdc) \<and>
      list_all (\<lambda>c. checkExistCont p (cdc_Name c)) pdc)"

definition servable :: "pod_claim \<Rightarrow> bool" where
  "servable pdc = (pdc \<noteq> [] \<and> list_all wf_container_claim pdc \<and> distinct (map cdc_Name pdc))"

lemma find_skip: "\<forall>x \<in> set xs. \<not> P x \<Longrightarrow> find P (xs @ ys) = find P ys"
  by (induction xs) auto

lemma find_unserved:
  assumes "distinct (map cdc_Name pdc)"
  shows "find (\<lambda>cd. \<not> list_ex (\<lambda>r. cdc_Name r = cdc_Name cd) (take k pdc)) pdc
         = (if k < length pdc then Some (pdc ! k) else None)"
proof -
  have served: "list_ex (\<lambda>r. cdc_Name r = cdc_Name cd) (take k pdc)" if "cd \<in> set (take k pdc)" for cd
    using that by (auto simp: list_ex_iff)
  have fresh: "\<not> list_ex (\<lambda>r. cdc_Name r = cdc_Name (pdc ! k)) (take k pdc)" if "k < length pdc"
  proof
    assume "list_ex (\<lambda>r. cdc_Name r = cdc_Name (pdc ! k)) (take k pdc)"
    then obtain i where "i < k" "cdc_Name (pdc ! i) = cdc_Name (pdc ! k)"
      by (auto simp: list_ex_iff in_set_conv_nth)
    then show False using nth_eq_iff_index_eq [OF assms, of i k] that by simp
  qed
  show ?thesis
  proof (cases "k < length pdc")
    case True
    let ?P = "\<lambda>cd. \<not> list_ex (\<lambda>r. cdc_Name r = cdc_Name cd) (take k pdc)"
    have "find ?P (take k pdc @ pdc ! k # drop (Suc k) pdc) = Some (pdc ! k)"
      using served fresh [OF True] by (subst find_skip) simp_all
    then show ?thesis using id_take_nth_drop [OF True] True by simp
  next
    case False
    then show ?thesis using served by (auto simp: find_None_iff)
  qed
qed

lemma take_decodes:
  "servable pdc \<Longrightarrow> 0 < k \<Longrightarrow>
   PodDeviceClaim_UnmarshalText (PodDeviceClaim_MarshalText (take k pdc)) = Inr (take k pdc) \<and>
   PodDeviceClaim_MarshalText (take k pdc) \<noteq> []"
  using PodClaim_round_trip [of "take k pdc"] MarshalText_not_Nil [of "take k pdc"]
  by (auto simp: servable_def list_all_iff dest: in_set_takeD)

lemma GetCurrent_serving:
  assumes "servable pdc" "serving pdc k p"
  shows "GetCurrentPreAllocateContainerDevice p
         = (if k < length pdc then Inr (pdc ! k) else Inl NoAssignable)"
proof -
  obtain c cs where pdc: "pdc = c # cs" using assms(1) by (cases pdc) (auto simp: servable_def)
  have pre: "PodDeviceClaim_UnmarshalText (anno_or_empty p PodVGPUPreAllocAnnotation) = Inr (c # cs)"
    using assms PodClaim_round_trip [of pdc] by (simp add: servable_def serving_def pdc)
  have ex: "checkExistCont p (cdc_Name (pdc ! i))" if "i < length pdc" for i
    using assms(2) that by (simp add: serving_def list_all_length)
  have found: "find (\<lambda>cd. \<not> list_ex (\<lambda>r. cdc_Name r = cdc_Name cd) (take k pdc)) (c # cs)
      = (if k < length pdc then Some (pdc ! k) else None)"
    using find_unserved [of pdc k] assms(1) by (simp add: servable_def pdc)
  show ?thesis
  proof (cases "k = 0")
    case True
    then have "anno_or_empty p PodVGPURealAllocAnnotation = []"
      using assms(2) by (simp add: serving_def PodDeviceClaim_MarshalText_def)
    then show ?thesis
      using ex [of 0] True by (simp add: GetCurrentPreAllocateContainerDevice_def pre pdc)
  next
    case False
    have real: "anno_or_empty p PodVGPURealAllocAnnotation = PodDeviceClaim_MarshalText (take k pdc)"
      using assms(2) by (simp add: serving_def)
    show ?thesis
      unfolding GetCurrentPreAllocateContainerDevice_def pre real
      using take_decodes [OF assms(1), of k] False ex [of k] found
      by (simp del: find.simps add: Let_def)
  qed
qed

lemma UpdateReal_serving:
  assumes "servable pdc" "serving pdc k p" "k < length pdc"
  shows "serving pdc (Suc k) (UpdatePodRealContainerDeviceClaim p (pdc ! k))"
proof -
  have "UpdatePodRealContainerDeviceClaim p (pdc ! k)
        = InsertAnnotation p PodVGPURealAllocAnnotation (PodDeviceClaim_MarshalText (take k pdc @ [pdc ! k]))"
    using take_decodes [OF assms(1), of k] assms(2)
    by (cases "k = 0")
      (simp_all add: UpdatePodRealContainerDeviceClaim_def Let_def serving_def PodDeviceClaim_MarshalText_def)
  then show ?thesis using assms
    by (simp add: serving_def checkExistCont_def take_Suc_conv_app_nth)
qed

lemma serve_serving:
  assumes "servable pdc"
  shows "serving pdc k p \<Longrightarrow> k + n \<le> length pdc \<Longrightarrow>
    \<exists>p'. serve n p = Inr (take n (drop k pdc), p') \<and> serving pdc (k + n) p'"
proof (induction n arbitrary: k p)
  case 0
  then show ?case by simp
next
  case (Suc n)
  then have "k < length pdc" by simp
  moreover obtain p' where
    "serve n (UpdatePodRealContainerDeviceClaim p (pdc ! k)) = Inr (take n (drop (Suc k) pdc), p')"
    "serving pdc (Suc k + n) p'"
    using Suc.IH [OF UpdateReal_serving [OF assms Suc.prems(1)]] Suc.prems(2) \<open>k < length pdc\<close> by auto
  ultimately show ?case
    using GetCurrent_serving [OF assms Suc.prems(1)] by (simp add: Cons_nth_drop_Suc [symmetric])
qed

text \<open>
  C9. The allocation cursor. Starting from a pod that carries a pre-allocation with distinct
  container names, all of them containers of the pod, and no real allocation, one call per
  pre-allocated container hands out exactly the pre-allocated claims, each once and in order;
  a further call reports that nothing is left to assign.
\<close>

theorem serve_all:
  assumes "servable pdc"
    and "anno_or_empty p PodVGPUPreAllocAnnotation = PodDeviceClaim_MarshalText pdc"
    and "anno_or_empty p PodVGPURealAllocAnnotation = []"
    and "list_all (\<lambda>c. checkExistCont p (cdc_Name c)) pdc"
  shows "\<exists>p'. serve (length pdc) p = Inr (pdc, p') \<and>
              GetCurrentPreAllocateContainerDevice p' = Inl NoAssignable \<and>
              anno_or_empty p' PodVGPURealAllocAnnotation = PodDeviceClaim_MarshalText pdc"
proof -
  have "serving pdc 0 p" using assms by (simp add: serving_def PodDeviceClaim_MarshalText_def)
  then obtain p' where s: "serve (length pdc) p = Inr (pdc, p')" "serving pdc (length pdc) p'"
    using serve_serving [OF assms(1), of 0 p "length pdc"] by auto
  moreover have "GetCurrentPreAllocateContainerDevice p' = Inl NoAssignable"
    using GetCurrent_serving [OF assms(1) s(2)] by simp
  ultimately show ?thesis by (auto simp: serving_def)
qed

definition demo_claim :: pod_claim where
  "demo_claim =
     [\<lparr>cdc_Name = ''a'', cdc_DeviceClaims = [\<lparr>dc_Id = 0, dc_Uuid = ''u'', dc_Cores = 1, dc_Memory = 2\<rparr>]\<rparr>,
      \<lparr>cdc_Name = ''b'', cdc_DeviceClaims = []\<rparr>]"

definition demo_pod :: pod where
  "demo_pod = empty_pod
     \<lparr>p_Containers := [\<lparr>c_Name = ''a'', c_Limits = [], c_Restartable = False\<rparr>,
                      \<lparr>c_Name = ''b'', c_Limits = [], c_Restartable = False\<rparr>],
      p_Annotations := [(PodVGPUPreAllocAnnotation, PodDeviceClaim_MarshalText demo_claim)]\<rparr>"

theorem serve_all_witness:
  "\<exists>p'. serve (length demo_claim) demo_pod = Inr (demo_claim, p') \<and>
        GetCurrentPreAllocateContainerDevice p' = Inl NoAssignable \<and>
        anno_or_empty p' PodVGPURealAllocAnnotation = PodDeviceClaim_MarshalText demo_claim"
proof (rule serve_all)
  show "servable demo_claim"
    by (simp add: servable_def demo_claim_def wf_container_claim_def wf_device_claim_def free_of_def
        in_i64_def)
qed (simp_all add: demo_pod_def demo_claim_def empty_pod_def anno_or_empty_def HasAnnotation_def
    checkExistCont_def)

end
