(* ===== verification/Float64.thy ===== *)
theory Float64
  imports Prelude
begin

text \<open>
  Go's \<^verbatim>\<open>float64\<close> as it is used by the scores of the scheduler: a value is the rational it
  stands for, and every operation rounds its exact result to 53 bits, to nearest with ties to
  even. The scores are quotients, sums and small multiples of 64-bit integers, so overflow,
  subnormal numbers, infinities and NaN do not occur: a division is always by a value that
  was tested against zero (\<^verbatim>\<open>util.SafeDiv\<close>).
\<close>

type_synonym f64 = rat

section \<open>Rounding\<close>

fun bitlen :: "nat \<Rightarrow> nat" where
  "bitlen n = (if n = 0 then 0 else Suc (bitlen (n div 2)))"

declare bitlen.simps [simp del]

text \<open>The floor of the binary logarithm of a positive rational.\<close>

definition ilog2 :: "rat \<Rightarrow> int" where
  "ilog2 x = (if x \<ge> 1 then int (bitlen (nat \<lfloor>x\<rfloor>)) - 1 else - int (bitlen (nat (\<lceil>1 / x\<rceil> - 1))))"

definition round_even :: "rat \<Rightarrow> int" where
  "round_even m =
     (let f = \<lfloor>m\<rfloor>; d = m - of_int f in
      if d < 1 / 2 then f else if d > 1 / 2 then f + 1 else if even f then f else f + 1)"

definition rnd :: "rat \<Rightarrow> f64" where
  "rnd x =
     (if x = 0 then 0
      else let e = ilog2 \<bar>x\<bar> - 52 in
        sgn x * (of_int (round_even (\<bar>x\<bar> / 2 powi e)) * 2 powi e))"

section \<open>Operations\<close>

definition f_of_int :: "int \<Rightarrow> f64" where
  "f_of_int n = rnd (of_int n)"

definition f_add :: "f64 \<Rightarrow> f64 \<Rightarrow> f64" where
  "f_add a b = rnd (a + b)"

definition f_sub :: "f64 \<Rightarrow> f64 \<Rightarrow> f64" where
  "f_sub a b = rnd (a - b)"

definition f_mul :: "f64 \<Rightarrow> f64 \<Rightarrow> f64" where
  "f_mul a b = rnd (a * b)"

definition f_div :: "f64 \<Rightarrow> f64 \<Rightarrow> f64" where
  "f_div a b = rnd (a / b)"

definition SafeDiv :: "f64 \<Rightarrow> f64 \<Rightarrow> f64" where
  "SafeDiv a b = (if b = 0 then 0 else f_div a b)"

section \<open>The laws of rounding the scores use\<close>

locale rounding =
  fixes r :: "rat \<Rightarrow> rat"
  assumes r_mono: "0 \<le> x \<Longrightarrow> x \<le> y \<Longrightarrow> r x \<le> r y"
    and r_int: "\<bar>n\<bar> \<le> 2 ^ 53 \<Longrightarrow> r (of_int n) = of_int n"
begin

lemma r_zero: "r 0 = 0"
  using r_int [of 0] by simp

lemma r_nonneg: "0 \<le> x \<Longrightarrow> 0 \<le> r x"
  using r_mono [of 0 x] r_zero by simp

lemma r_le_int: "0 \<le> x \<Longrightarrow> x \<le> of_int n \<Longrightarrow> 0 \<le> n \<Longrightarrow> n \<le> 2 ^ 53 \<Longrightarrow> r x \<le> of_int n"
  using r_mono [of x "of_int n"] r_int [of n] by simp

lemma r_ratio:
  assumes "0 \<le> a" "a \<le> b"
  shows "0 \<le> r (r a / r b)" "r (r a / r b) \<le> 1"
proof -
  have ab: "0 \<le> r a" "r a \<le> r b" "0 \<le> r b" using assms r_mono r_nonneg by auto
  then have q: "0 \<le> r a / r b" "r a / r b \<le> 1" by (auto simp: divide_le_eq)
  show "0 \<le> r (r a / r b)" by (rule r_nonneg [OF q(1)])
  show "r (r a / r b) \<le> 1" using r_le_int [OF q(1), of 1] q(2) by simp
qed

end

lemma bitlen_bounds: "0 < n \<Longrightarrow> 2 ^ (bitlen n - 1) \<le> n \<and> n < 2 ^ bitlen n"
proof (induction n rule: bitlen.induct)
  case (1 n)
  have b: "bitlen n = Suc (bitlen (n div 2))" using 1(2) by (subst bitlen.simps) simp
  show ?case
  proof (cases "n = 1")
    case True
    then show ?thesis using b by (simp add: bitlen.simps)
  next
    case False
    then have "0 < n div 2" using 1(2) by auto
    moreover from this have "0 < bitlen (n div 2)" by (subst bitlen.simps) simp
    ultimately have "2 ^ (bitlen (n div 2) - 1) * 2 \<le> n" "n < 2 ^ bitlen (n div 2) * 2"
      using 1 by auto
    then show ?thesis
      using b \<open>0 < bitlen (n div 2)\<close> by (simp add: power_eq_if mult.commute)
  qed
qed

lemma bitlen_0 [simp]: "bitlen 0 = 0"
  by (simp add: bitlen.simps)

lemma bitlen_pos: "0 < n \<Longrightarrow> 0 < bitlen n"
  by (subst bitlen.simps) simp

lemma powi_nat: "(2 :: rat) powi (int k) = 2 ^ k"
  by simp

lemma powi_shift: "b = a + int k \<Longrightarrow> (2 :: rat) powi b = 2 ^ k * 2 powi a"
  by (simp add: power_int_add mult.commute)

lemma powi_minus: "(2 :: rat) powi (- int k) = 1 / 2 ^ k"
  by (simp add: power_int_minus divide_inverse)

lemma ilog2_bounds:
  assumes "0 < x"
  shows "2 powi ilog2 x \<le> x" "x < 2 powi (ilog2 x + 1)"
proof -
  have "2 powi ilog2 x \<le> x \<and> x < 2 powi (ilog2 x + 1)"
  proof (cases "x \<ge> 1")
    case True
    let ?n = "nat \<lfloor>x\<rfloor>"
    have n: "0 < ?n" using True by (simp add: le_floor_iff)
    have i: "ilog2 x = int (bitlen ?n - 1)" "ilog2 x + 1 = int (bitlen ?n)"
      using True bitlen_pos [OF n] by (auto simp: ilog2_def)
    have "of_nat (2 ^ (bitlen ?n - 1)) \<le> (of_nat ?n :: rat)" "(of_nat ?n :: rat) + 1 \<le> of_nat (2 ^ bitlen ?n)"
      using bitlen_bounds [OF n] by (simp_all only: of_nat_le_iff) (metis Suc_leI of_nat_Suc of_nat_le_iff add.commute)
    moreover have "of_nat ?n \<le> x" "x < of_nat ?n + 1" 
      using True floor_correct [of x] by simp_all
    ultimately have "(2 :: rat) ^ (bitlen ?n - 1) \<le> x" "x < 2 ^ bitlen ?n"
      unfolding of_nat_power of_nat_numeral by linarith+
    moreover have "2 powi (ilog2 x + 1) = (2 :: rat) ^ bitlen ?n" unfolding i(2) powi_nat ..
    moreover have "2 powi ilog2 x = (2 :: rat) ^ (bitlen ?n - 1)" unfolding i(1) powi_nat ..
    ultimately show ?thesis by simp
  next
    case False
    let ?c = "\<lceil>1 / x\<rceil>"
    let ?n = "nat (?c - 1)"
    let ?k = "bitlen ?n"
    have x: "0 < x" "x < 1" using assms False by auto
    then have "1 < 1 / x" by (simp add: less_divide_eq)
    then have c: "2 \<le> ?c" by linarith
    then have n: "0 < ?n" by simp
    have i: "ilog2 x = - int ?k" using False by (simp add: ilog2_def)
    have lo: "1 / x \<le> 2 ^ ?k"
    proof -
      have "?c \<le> int (2 ^ ?k)" using bitlen_bounds [OF n] c by linarith
      then have "1 / x \<le> of_int (int (2 ^ ?k))" by (simp only: ceiling_le_iff)
      then show ?thesis by simp
    qed
    have hi: "2 ^ (?k - 1) < 1 / x"
    proof -
      have "int (2 ^ (?k - 1)) < ?c" using bitlen_bounds [OF n] c by linarith
      then have "of_int (int (2 ^ (?k - 1))) < 1 / x" by (simp only: less_ceiling_iff)
      then show ?thesis by simp
    qed
    have "2 powi ilog2 x = (1 :: rat) / 2 ^ ?k" unfolding i by (rule powi_minus)
    moreover have "2 powi (ilog2 x + 1) = (1 :: rat) / 2 ^ (?k - 1)"
    proof -
      have "ilog2 x + 1 = - int (?k - 1)" using i bitlen_pos [OF n] by simp
      then show ?thesis by (simp only: powi_minus)
    qed
    moreover have "1 / 2 ^ ?k \<le> x" "x < 1 / 2 ^ (?k - 1)" using lo hi x by (simp_all add: field_simps)
    ultimately show ?thesis by simp
  qed
  then show "2 powi ilog2 x \<le> x" "x < 2 powi (ilog2 x + 1)" by auto
qed

lemma ilog2_mono:
  assumes "0 < x" "x \<le> y"
  shows "ilog2 x \<le> ilog2 y"
proof (rule ccontr)
  assume "\<not> ilog2 x \<le> ilog2 y"
  then have "(2 :: rat) powi (ilog2 y + 1) \<le> 2 powi ilog2 x" by (intro power_int_increasing) auto
  then show False using ilog2_bounds [of x] ilog2_bounds [of y] assms by simp
qed

lemma round_even_int [simp]: "round_even (of_int n) = n"
  by (simp add: round_even_def)

lemma round_even_bounds: "\<lfloor>m\<rfloor> \<le> round_even m" "round_even m \<le> \<lfloor>m\<rfloor> + 1"
  by (auto simp: round_even_def Let_def)

lemma round_even_mono:
  assumes "a \<le> b"
  shows "round_even a \<le> round_even b"
proof (cases "\<lfloor>a\<rfloor> = \<lfloor>b\<rfloor>")
  case True
  then show ?thesis using assms unfolding round_even_def Let_def True by (auto split: if_splits)
next
  case False
  then have "\<lfloor>a\<rfloor> + 1 \<le> \<lfloor>b\<rfloor>" using floor_mono [OF assms] by simp
  then show ?thesis using round_even_bounds(2) [of a] round_even_bounds(1) [of b] by linarith
qed

lemma rnd_pos: "0 < x \<Longrightarrow> rnd x = of_int (round_even (x / 2 powi (ilog2 x - 52))) * 2 powi (ilog2 x - 52)"
  by (simp add: rnd_def Let_def)

text \<open>The significand of a positive number lies between 2 to the 52 and 2 to the 53.\<close>

lemma significand:
  assumes "0 < x"
  shows "2 ^ 52 \<le> x / 2 powi (ilog2 x - 52)" "x / 2 powi (ilog2 x - 52) \<le> 2 ^ 53"
proof -
  have p: "2 powi ilog2 x = 2 ^ 52 * (2 :: rat) powi (ilog2 x - 52)"
    by (rule powi_shift) simp
  moreover have "2 powi (ilog2 x + 1) = 2 ^ 53 * (2 :: rat) powi (ilog2 x - 52)"
    by (rule powi_shift) simp
  moreover have "0 < (2 :: rat) powi (ilog2 x - 52)" by simp
  ultimately show "2 ^ 52 \<le> x / 2 powi (ilog2 x - 52)" "x / 2 powi (ilog2 x - 52) \<le> 2 ^ 53"
    using ilog2_bounds [OF assms] by (simp_all add: le_divide_eq divide_le_eq)
qed

lemma round_significand:
  assumes "0 < x"
  shows "2 ^ 52 \<le> (of_int (round_even (x / 2 powi (ilog2 x - 52))) :: rat)"
    and "of_int (round_even (x / 2 powi (ilog2 x - 52))) \<le> (2 ^ 53 :: rat)"
proof -
  have "2 ^ 52 \<le> round_even (x / 2 powi (ilog2 x - 52))"
    using round_even_mono [OF significand(1) [OF assms]] round_even_int [of "2 ^ 52"] by simp
  then have "of_int (2 ^ 52) \<le> (of_int (round_even (x / 2 powi (ilog2 x - 52))) :: rat)"
    by (simp only: of_int_le_iff)
  then show "2 ^ 52 \<le> (of_int (round_even (x / 2 powi (ilog2 x - 52))) :: rat)" by simp
  have "round_even (x / 2 powi (ilog2 x - 52)) \<le> 2 ^ 53"
    using round_even_mono [OF significand(2) [OF assms]] round_even_int [of "2 ^ 53"] by simp
  then have "(of_int (round_even (x / 2 powi (ilog2 x - 52))) :: rat) \<le> of_int (2 ^ 53)"
    by (simp only: of_int_le_iff)
  then show "of_int (round_even (x / 2 powi (ilog2 x - 52))) \<le> (2 ^ 53 :: rat)" by simp
qed

lemma rnd_exact: "0 < x \<Longrightarrow> x / 2 powi (ilog2 x - 52) = of_int k \<Longrightarrow> rnd x = x"
proof -
  assume a: "0 < x" "x / 2 powi (ilog2 x - 52) = of_int k"
  then have "x = of_int k * 2 powi (ilog2 x - 52)" by (simp add: field_simps)
  then show "rnd x = x" using a by (simp add: rnd_pos)
qed

lemma rnd_mono_nonneg:
  assumes "0 \<le> x" "x \<le> y"
  shows "rnd x \<le> rnd y"
proof -
  have nn: "0 \<le> rnd z" if "0 < z" for z
    using round_significand(1) [OF that] by (simp add: rnd_pos [OF that])
  consider "x = 0" | "0 < x" "ilog2 x = ilog2 y" | "0 < x" "ilog2 x + 1 \<le> ilog2 y"
    using assms ilog2_mono [of x y] by fastforce
  then show ?thesis
  proof cases
    case 1
    then show ?thesis using assms nn by (cases "y = 0") (auto simp: rnd_def)
  next
    case 2
    then have "round_even (x / 2 powi (ilog2 y - 52)) \<le> round_even (y / 2 powi (ilog2 y - 52))"
      using assms by (intro round_even_mono divide_right_mono) auto
    then show ?thesis using 2 assms by (simp add: rnd_pos)
  next
    case 3
    have y: "0 < y" using 3 assms by simp
    have "rnd x \<le> 2 ^ 53 * 2 powi (ilog2 x - 52)"
      using round_significand(2) [OF 3(1)] unfolding rnd_pos [OF 3(1)]
      by (intro mult_right_mono) simp_all
    also have "\<dots> = 2 powi (ilog2 x + 1)"
      by (rule powi_shift [symmetric]) simp
    also have "\<dots> \<le> 2 powi ilog2 y" using 3(2) by (intro power_int_increasing) auto
    also have "\<dots> = 2 ^ 52 * 2 powi (ilog2 y - 52)"
      by (rule powi_shift) simp
    also have "\<dots> \<le> rnd y"
      using round_significand(1) [OF y] unfolding rnd_pos [OF y]
      by (intro mult_right_mono) simp_all
    finally show ?thesis .
  qed
qed

lemma rnd_nat_exact:
  assumes "0 < n" "n \<le> 2 ^ 53"
  shows "rnd (of_int n) = of_int n"
proof (cases "ilog2 (of_int n) \<le> 52")
  case True
  define k where "k = nat (52 - ilog2 (of_int n))"
  have "ilog2 (of_int n) - 52 = - int k" using True by (simp add: k_def)
  then have "(of_int n :: rat) / 2 powi (ilog2 (of_int n) - 52) = of_int (n * 2 ^ k)"
    by (simp only: powi_minus) simp
  then show ?thesis by (rule rnd_exact [rotated]) (use assms(1) in simp)
next
  case False
  have le: "(2 :: rat) ^ k \<le> of_int n" if "int k \<le> ilog2 (of_int n)" for k
  proof -
    have "(2 :: rat) powi int k \<le> 2 powi ilog2 (of_int n)" using that by (intro power_int_increasing) auto
    then have "(2 :: rat) ^ k \<le> 2 powi ilog2 (of_int n)" by simp
    then show ?thesis by (rule order_trans [OF _ ilog2_bounds(1)]) (use assms(1) in simp)
  qed
  have n: "n = 2 ^ 53"
  proof (rule antisym)
    have "(of_int (2 ^ 53) :: rat) \<le> of_int n" using le [of 53] False by simp
    then show "2 ^ 53 \<le> n" by (simp only: of_int_le_iff)
  qed (rule assms(2))
  have "\<not> 54 \<le> ilog2 (of_int n)" using le [of 54] n by auto
  then have "ilog2 (of_int n) - 52 = 1" using False by simp
  then have "(of_int n :: rat) / 2 powi (ilog2 (of_int n) - 52) = of_int (2 ^ 52)" using n by simp
  then show ?thesis by (rule rnd_exact [rotated]) (use assms(1) in simp)
qed

lemma rnd_neg: "rnd (- x) = - rnd x"
  by (simp add: rnd_def Let_def sgn_minus)

interpretation f64: rounding rnd
proof
  show "rnd x \<le> rnd y" if "0 \<le> x" "x \<le> y" for x y using that by (rule rnd_mono_nonneg)
  show "rnd (of_int n) = of_int n" if "\<bar>n\<bar> \<le> 2 ^ 53" for n
  proof (cases "n = 0")
    case False
    then show ?thesis
      using that rnd_nat_exact [of "\<bar>n\<bar>"] rnd_neg [of "of_int \<bar>n\<bar>"] by (cases "0 < n") auto
  qed (simp add: rnd_def)
qed

lemma SafeDiv_ratio:
  assumes "0 \<le> a" "a \<le> b"
  shows "0 \<le> SafeDiv (f_of_int a) (f_of_int b)" "SafeDiv (f_of_int a) (f_of_int b) \<le> 1"
  using f64.r_ratio [of "of_int a" "of_int b"] assms
  by (auto simp: SafeDiv_def f_div_def f_of_int_def)

end
