(* ===== verification/Device.thy ===== *)
theory Device
  imports Float64 Claim_Text
begin

text \<open>
  One GPU as the scheduler accounts for it (\<^verbatim>\<open>Device\<close> of \<^verbatim>\<open>pkg/device/types.go\<close>): its
  capacity in virtual devices, cores and memory, what is used of each, the remaining
  capacity, and the utilisation score. Counters are Go \<^verbatim>\<open>int\<close> and \<^verbatim>\<open>int64\<close> values, with
  wrap-around; \<^verbatim>\<open>dev_ok\<close> is the range in which no operation wraps.
\<close>

section \<open>Data\<close>

record node_config =
  nc_DeviceSplit :: int
  nc_CoresScaling :: f64
  nc_MemoryFactor :: int
  nc_MemoryScaling :: f64

record device_info =
  di_Id :: int
  di_Type :: string
  di_Uuid :: string
  di_Core :: int
  di_Memory :: int
  di_Number :: int
  di_Numa :: int
  di_Mig :: bool
  di_BusId :: string
  di_Capability :: f64
  di_Healthy :: bool

record device =
  d_id :: int
  d_uuid :: string
  d_deviceType :: string
  d_usedNumber :: int
  d_totalNumber :: int
  d_usedCores :: int
  d_totalCores :: int
  d_usedMemory :: int
  d_totalMemory :: int
  d_capability :: f64
  d_numa :: int
  d_busId :: string
  d_mig :: bool
  d_healthy :: bool

section \<open>Operations\<close>

definition NewDevice :: "device_info \<Rightarrow> device" where
  "NewDevice dev =
     \<lparr>d_id = di_Id dev, d_uuid = di_Uuid dev, d_deviceType = di_Type dev,
      d_usedNumber = 0, d_totalNumber = di_Number dev,
      d_usedCores = 0, d_totalCores = di_Core dev,
      d_usedMemory = 0, d_totalMemory = di_Memory dev,
      d_capability = di_Capability dev, d_numa = di_Numa dev, d_busId = di_BusId dev,
      d_mig = di_Mig dev, d_healthy = di_Healthy dev\<rparr>"

definition GetTotalMemory :: "device \<Rightarrow> int" where
  "GetTotalMemory d = (if d_totalMemory d < 0 then 0 else d_totalMemory d)"

definition GetTotalCores :: "device \<Rightarrow> int" where
  "GetTotalCores d = (if d_totalCores d < 0 then 0 else d_totalCores d)"

definition GetTotalNumber :: "device \<Rightarrow> int" where
  "GetTotalNumber d = (if d_totalNumber d < 0 then 0 else d_totalNumber d)"

definition addUsedResourcesN :: "int \<Rightarrow> int \<Rightarrow> int \<Rightarrow> device \<Rightarrow> device" where
  "addUsedResourcesN number cores memory d =
     d\<lparr>d_usedNumber := i64 (d_usedNumber d + number),
       d_usedCores := i64 (d_usedCores d + cores),
       d_usedMemory := i64 (d_usedMemory d + memory)\<rparr>"

definition addUsedResources :: "int \<Rightarrow> int \<Rightarrow> device \<Rightarrow> device" where
  "addUsedResources cores memory d = addUsedResourcesN 1 cores memory d"

definition AllocatableCores :: "device \<Rightarrow> int" where
  "AllocatableCores d =
     (let allocatable = i64 (d_totalCores d - d_usedCores d) in if allocatable \<ge> 0 then allocatable else 0)"

definition AllocatableMemory :: "device \<Rightarrow> int" where
  "AllocatableMemory d =
     (let allocatable = i64 (d_totalMemory d - d_usedMemory d) in if allocatable \<ge> 0 then allocatable else 0)"

definition AllocatableNumber :: "device \<Rightarrow> int" where
  "AllocatableNumber d =
     (let allocatable = i64 (d_totalNumber d - d_usedNumber d) in if allocatable \<ge> 0 then allocatable else 0)"

definition ResetUsed :: "device \<Rightarrow> device" where
  "ResetUsed d = d\<lparr>d_usedNumber := 0, d_usedCores := 0, d_usedMemory := 0\<rparr>"

definition Device_Score :: "device \<Rightarrow> f64" where
  "Device_Score d =
     (let numRatio = SafeDiv (f_of_int (AllocatableNumber d)) (f_of_int (GetTotalNumber d));
          memRatio = SafeDiv (f_of_int (AllocatableMemory d)) (f_of_int (GetTotalMemory d));
          coreRatio = SafeDiv (f_of_int (AllocatableCores d)) (f_of_int (GetTotalCores d))
      in f_mul (f_div (f_add (f_add numRatio memRatio) coreRatio) 3) (f_of_int HundredCore))"

text \<open>The claims a pod occupies: the real allocation once it is as long as the planned one.\<close>

definition decode_or_empty :: "string \<Rightarrow> pod_claim" where
  "decode_or_empty val =
     (if length val > 0 then (case PodDeviceClaim_UnmarshalText val of Inl e \<Rightarrow> [] | Inr c \<Rightarrow> c) else [])"

definition GetPodDeviceClaim :: "pod \<Rightarrow> pod_claim" where
  "GetPodDeviceClaim p =
     (let realClaim = decode_or_empty (anno_or_empty p PodVGPURealAllocAnnotation);
          preClaim = decode_or_empty (anno_or_empty p PodVGPUPreAllocAnnotation)
      in if length realClaim \<ge> length preClaim then realClaim else preClaim)"

section \<open>The range of the counters\<close>

definition counter :: "int \<Rightarrow> bool" where
  "counter i = (0 \<le> i \<and> i \<le> max_int)"

definition dev_ok :: "device \<Rightarrow> bool" where
  "dev_ok d =
     (counter (d_usedNumber d) \<and> counter (d_totalNumber d) \<and> counter (d_usedCores d) \<and>
      counter (d_totalCores d) \<and> counter (d_usedMemory d) \<and> counter (d_totalMemory d))"

text \<open>Nothing of the device is over-committed.\<close>

definition not_over :: "device \<Rightarrow> bool" where
  "not_over d = (d_usedNumber d \<le> d_totalNumber d \<and> d_usedCores d \<le> d_totalCores d \<and>
               d_usedMemory d \<le> d_totalMemory d)"

named_theorems device_simps

lemma counter_diff [i64_simps]: "counter a \<Longrightarrow> counter b \<Longrightarrow> i64 (a - b) = a - b"
  by (rule i64_id) (auto simp: counter_def in_i64_def max_int_def)

lemma counter_sum:
  assumes "counter a" "counter t" "0 \<le> b" "b \<le> max 0 (t - a)"
  shows "i64 (a + b) = a + b" "counter (a + b)" "a + b \<le> max a t"
  using assms by (auto simp: counter_def in_i64_def max_int_def max_def intro!: i64_id split: if_splits)

lemma allocatable_eq [device_simps]:
  assumes "dev_ok d"
  shows "AllocatableNumber d = max 0 (d_totalNumber d - d_usedNumber d)"
    and "AllocatableCores d = max 0 (d_totalCores d - d_usedCores d)"
    and "AllocatableMemory d = max 0 (d_totalMemory d - d_usedMemory d)"
  using assms
  by (auto simp: AllocatableNumber_def AllocatableCores_def AllocatableMemory_def dev_ok_def counter_diff)

lemma total_eq [device_simps]:
  assumes "dev_ok d"
  shows "GetTotalNumber d = d_totalNumber d" "GetTotalCores d = d_totalCores d"
    "GetTotalMemory d = d_totalMemory d"
  using assms by (auto simp: GetTotalNumber_def GetTotalCores_def GetTotalMemory_def dev_ok_def counter_def)

text \<open>
  A claim that fits the remaining capacity does not wrap, and raises no counter above the
  capacity that was not above it before.
\<close>

lemma addUsed_fits:
  assumes "dev_ok d" "0 \<le> n" "0 \<le> c" "0 \<le> m"
    and "n \<le> AllocatableNumber d" "c \<le> AllocatableCores d" "m \<le> AllocatableMemory d"
  shows "addUsedResourcesN n c m d =
      d\<lparr>d_usedNumber := d_usedNumber d + n, d_usedCores := d_usedCores d + c,
        d_usedMemory := d_usedMemory d + m\<rparr>" (is ?eq)
    and "dev_ok (addUsedResourcesN n c m d)"
    and "not_over d \<Longrightarrow> not_over (addUsedResourcesN n c m d)"
proof -
  have ok: "counter (d_usedNumber d)" "counter (d_totalNumber d)" "counter (d_usedCores d)"
    "counter (d_totalCores d)" "counter (d_usedMemory d)" "counter (d_totalMemory d)"
    using assms(1) by (auto simp: dev_ok_def)
  note n = counter_sum [OF ok(1,2) assms(2) assms(5) [unfolded allocatable_eq [OF assms(1)]]]
  note c = counter_sum [OF ok(3,4) assms(3) assms(6) [unfolded allocatable_eq [OF assms(1)]]]
  note m = counter_sum [OF ok(5,6) assms(4) assms(7) [unfolded allocatable_eq [OF assms(1)]]]
  show eq: ?eq by (simp add: addUsedResourcesN_def n(1) c(1) m(1))
  show "dev_ok (addUsedResourcesN n c m d)"
    using ok n(2) c(2) m(2) by (simp add: eq dev_ok_def)
  show "not_over (addUsedResourcesN n c m d)" if "not_over d"
    using that n(3) c(3) m(3) by (simp add: eq not_over_def max_def)
qed

lemma addUsed_static [simp]:
  "d_id (addUsedResourcesN n c m d) = d_id d"
  "d_uuid (addUsedResourcesN n c m d) = d_uuid d"
  "d_numa (addUsedResourcesN n c m d) = d_numa d"
  "d_healthy (addUsedResourcesN n c m d) = d_healthy d"
  "d_mig (addUsedResourcesN n c m d) = d_mig d"
  "d_totalNumber (addUsedResourcesN n c m d) = d_totalNumber d"
  "d_totalCores (addUsedResourcesN n c m d) = d_totalCores d"
  "d_totalMemory (addUsedResourcesN n c m d) = d_totalMemory d"
  by (simp_all add: addUsedResourcesN_def)

lemma ResetUsed_ok: "dev_ok d \<Longrightarrow> dev_ok (ResetUsed d) \<and> not_over (ResetUsed d)"
  by (auto simp: ResetUsed_def dev_ok_def not_over_def counter_def)

text \<open>
  The utilisation score of a device is a percentage: with counters in range it lies
  between 0 and 100, rounding included, and also when the device is over-committed or one
  of its capacities is zero.
\<close>

theorem Device_Score_bounds:
  assumes "dev_ok d"
  shows "0 \<le> Device_Score d \<and> Device_Score d \<le> 100"
proof -
  let ?n = "SafeDiv (f_of_int (AllocatableNumber d)) (f_of_int (GetTotalNumber d))"
  let ?m = "SafeDiv (f_of_int (AllocatableMemory d)) (f_of_int (GetTotalMemory d))"
  let ?c = "SafeDiv (f_of_int (AllocatableCores d)) (f_of_int (GetTotalCores d))"
  have r: "0 \<le> ?n" "?n \<le> 1" "0 \<le> ?m" "?m \<le> 1" "0 \<le> ?c" "?c \<le> 1"
    using assms by (auto intro!: SafeDiv_ratio simp: device_simps dev_ok_def counter_def)
  have s: "0 \<le> f_add ?n ?m" "f_add ?n ?m \<le> 2"
    using f64.r_nonneg [of "?n + ?m"] f64.r_le_int [of "?n + ?m" 2] r by (auto simp: f_add_def)
  have t: "0 \<le> f_add (f_add ?n ?m) ?c" "f_add (f_add ?n ?m) ?c \<le> 3"
    using f64.r_nonneg [of "f_add ?n ?m + ?c"] f64.r_le_int [of "f_add ?n ?m + ?c" 3] r s
    by (auto simp: f_add_def)
  let ?t = "f_add (f_add ?n ?m) ?c"
  have u: "0 \<le> f_div ?t 3" "f_div ?t 3 \<le> 1"
    using f64.r_nonneg [of "?t / 3"] f64.r_le_int [of "?t / 3" 1] t by (auto simp: f_div_def)
  have "f_of_int HundredCore = 100" using f64.r_int [of 100] by (simp add: f_of_int_def HundredCore_def)
  then have "Device_Score d = rnd (f_div ?t 3 * 100)" by (simp add: Device_Score_def Let_def f_mul_def)
  then show ?thesis
    using f64.r_nonneg [of "f_div ?t 3 * 100"] f64.r_le_int [of "f_div ?t 3 * 100" 100] u by auto
qed

definition demo_device :: device where
  "demo_device = NewDevice
     \<lparr>di_Id = 0, di_Type = ''A100'', di_Uuid = ''GPU-0'', di_Core = 100, di_Memory = 40960,
      di_Number = 10, di_Numa = 0, di_Mig = False, di_BusId = ''0'', di_Capability = 8,
      di_Healthy = True\<rparr>"

theorem Device_Score_bounds_witness:
  "0 \<le> Device_Score (addUsedResources 25 1024 demo_device) \<and>
   Device_Score (addUsedResources 25 1024 demo_device) \<le> 100"
  by (rule Device_Score_bounds)
    (simp add: demo_device_def NewDevice_def addUsedResources_def addUsedResourcesN_def dev_ok_def
      counter_def max_int_def i64_def)

end
