(* ===== verification/Links.thy ===== *)
theory Links
  imports Kube
begin

text \<open>
  The GPU links of a node (\<^verbatim>\<open>pkg/device/gpuallocator\<close>): the device list with the links
  recorded on each device, the score of a pair of devices, and the tiers of link quality with
  the weakest link that counts at each (\<^verbatim>\<open>LinkTier\<close> of \<^verbatim>\<open>pkg/device/types.go\<close>). A link
  type is its number in the source's enumeration. The pointer to the peer that a link also
  carries is not read by any of the code modelled here and is left out.
\<close>

section \<open>Link types\<close>

type_synonym p2p_link_type = nat

definition P2PLinkUnknown :: p2p_link_type where "P2PLinkUnknown = 0"

definition P2PLinkCrossCPU :: p2p_link_type where "P2PLinkCrossCPU = 1"

definition P2PLinkSameCPU :: p2p_link_type where "P2PLinkSameCPU = 2"

definition P2PLinkMultiSwitch :: p2p_link_type where "P2PLinkMultiSwitch = 4"

definition SingleNVLINKLink :: p2p_link_type where "SingleNVLINKLink = 7"

lemmas link_type_defs =
  P2PLinkUnknown_def P2PLinkCrossCPU_def P2PLinkSameCPU_def P2PLinkMultiSwitch_def SingleNVLINKLink_def

section \<open>The device list\<close>

record link_device =
  ld_Index :: int
  ld_UUID :: string
  ld_BusID :: string
  ld_Links :: "(int, p2p_link_type list) gomap"

text \<open>A slice of pointers; an index that no device was stored at is nil.\<close>

type_synonym device_list = "link_device option list"

definition NewLinkDevice :: "int \<Rightarrow> string \<Rightarrow> string \<Rightarrow> link_device" where
  "NewLinkDevice index uuid busId = \<lparr>ld_Index = index, ld_UUID = uuid, ld_BusID = busId, ld_Links = []\<rparr>"

definition links_to :: "link_device \<Rightarrow> int \<Rightarrow> p2p_link_type list" where
  "links_to d j = (case map_of (ld_Links d) j of None \<Rightarrow> [] | Some ls \<Rightarrow> ls)"

definition Device_AddLink :: "link_device \<Rightarrow> link_device \<Rightarrow> p2p_link_type \<Rightarrow> link_device" where
  "Device_AddLink from dest t =
     from\<lparr>ld_Links := AList.update (ld_Index dest) (links_to from (ld_Index dest) @ [t]) (ld_Links from)\<rparr>"

text \<open>An index out of range, or of a nil entry, is a panic: None.\<close>

definition at_index :: "device_list \<Rightarrow> int \<Rightarrow> link_device option" where
  "at_index ds i = (if 0 \<le> i \<and> i < int (length ds) then ds ! nat i else None)"

definition DeviceList_AddLink :: "int \<Rightarrow> int \<Rightarrow> p2p_link_type \<Rightarrow> device_list \<Rightarrow> device_list option" where
  "DeviceList_AddLink from dest t ds =
     (case (at_index ds from, at_index ds dest) of
        (Some a, Some b) \<Rightarrow> Some (ds[nat from := Some (Device_AddLink a b t)])
      | _ \<Rightarrow> None)"

section \<open>The score of a pair\<close>

definition link_scores :: "int list" where
  "link_scores =
     [0, 10, 20, 30, 40, 50, 60, 100, 200, 300, 400, 500, 600, 700, 800, 900, 1000, 1100, 1200,
      1300, 1400, 1500, 1600, 1700, 1800]"

definition link_score :: "p2p_link_type \<Rightarrow> int" where
  "link_score t = (if t < length link_scores then link_scores ! t else 0)"

text \<open>
  The devices of one list are told apart by their index, which stands for the pointer
  comparison of the source.
\<close>

definition PairScore :: "link_device \<Rightarrow> link_device \<Rightarrow> int" where
  "PairScore gpu0 gpu1 =
     (if ld_Index gpu0 = ld_Index gpu1 then 0
      else if length (links_to gpu0 (ld_Index gpu1)) \<noteq> length (links_to gpu1 (ld_Index gpu0)) then 0
      else sum_list (map link_score (links_to gpu0 (ld_Index gpu1))))"

section \<open>Tiers\<close>

datatype link_tier = TierNVLink | TierSwitch | TierNUMA | TierAny

definition all_tiers :: "link_tier list" where
  "all_tiers = [TierNVLink, TierSwitch, TierNUMA, TierAny]"

fun tier_index :: "link_tier \<Rightarrow> nat" where
  "tier_index TierNVLink = 0"
| "tier_index TierSwitch = 1"
| "tier_index TierNUMA = 2"
| "tier_index TierAny = 3"

fun LinkTierThreshold :: "link_tier \<Rightarrow> p2p_link_type" where
  "LinkTierThreshold TierNVLink = SingleNVLINKLink"
| "LinkTierThreshold TierSwitch = P2PLinkMultiSwitch"
| "LinkTierThreshold TierNUMA = P2PLinkSameCPU"
| "LinkTierThreshold TierAny = P2PLinkCrossCPU"

fun LinkTier_String :: "link_tier \<Rightarrow> string" where
  "LinkTier_String TierNVLink = ''nvlink''"
| "LinkTier_String TierSwitch = ''switch''"
| "LinkTier_String TierNUMA = ''numa''"
| "LinkTier_String TierAny = ''any''"

instantiation link_tier :: linorder
begin
definition less_eq_link_tier :: "link_tier \<Rightarrow> link_tier \<Rightarrow> bool" where
  "less_eq_link_tier s t = (tier_index s \<le> tier_index t)"
definition less_link_tier :: "link_tier \<Rightarrow> link_tier \<Rightarrow> bool" where
  "less_link_tier s t = (tier_index s < tier_index t)"
instance
proof
  fix x y :: link_tier
  show "x \<le> y \<Longrightarrow> y \<le> x \<Longrightarrow> x = y"
    by (cases x; cases y) (simp_all add: less_eq_link_tier_def)
qed (auto simp: less_eq_link_tier_def less_link_tier_def)
end

lemma threshold_mono: "s \<le> t \<Longrightarrow> LinkTierThreshold t \<le> LinkTierThreshold s"
  by (cases s; cases t) (simp_all add: less_eq_link_tier_def link_type_defs)

lemma tier_index_lt: "tier_index t < 4"
  by (cases t) simp_all

lemma all_tiers_nth: "all_tiers ! tier_index t = t"
  by (cases t) (simp_all add: all_tiers_def)

lemma link_score_nonneg: "0 \<le> link_score t"
proof -
  have "list_all (\<lambda>x. 0 \<le> x) link_scores" by (simp add: link_scores_def)
  then show ?thesis by (auto simp: link_score_def list_all_length)
qed

lemma PairScore_nonneg: "0 \<le> PairScore a b"
  by (auto simp: PairScore_def link_score_nonneg intro!: sum_list_nonneg)

text \<open>
  The pair score is symmetric whenever the two devices report the same links to each
  other, in any order, and also when the reports have different lengths.
\<close>

lemma PairScore_sym:
  assumes "mset (links_to a (ld_Index b)) = mset (links_to b (ld_Index a)) \<or>
           length (links_to a (ld_Index b)) \<noteq> length (links_to b (ld_Index a))"
  shows "PairScore a b = PairScore b a"
proof -
  have "sum_list (map link_score (links_to a (ld_Index b))) = sum_list (map link_score (links_to b (ld_Index a)))"
    if "mset (links_to a (ld_Index b)) = mset (links_to b (ld_Index a))"
    using that by (metis mset_map sum_mset_sum_list)
  then show ?thesis using assms by (auto simp: PairScore_def)
qed

end
