(* ===== verification/Union_Find.thy ===== *)
theory Union_Find
  imports Prelude
begin

text \<open>
  The union-find both connectivity computations of the device layer use
  (\<^verbatim>\<open>computeTieredComponents\<close> in \<^verbatim>\<open>pkg/device/types.go\<close>, \<^verbatim>\<open>groupByComponent\<close> in
  \<^verbatim>\<open>pkg/device/allocator/tiered.go\<close>): a parent array and a \<^verbatim>\<open>find\<close> with path halving. The
  loop of \<^verbatim>\<open>find\<close> has the array length as fuel, which is shown to be enough. The locale
  is the contract of a union-find; its client lemma identifies equal representatives with
  connectivity by the edges processed.
\<close>

section \<open>The parent array\<close>

fun find_loop :: "nat \<Rightarrow> nat list \<Rightarrow> nat \<Rightarrow> (nat list \<times> nat) option" where
  "find_loop fuel p x =
     (if p ! x = x then Some (p, x)
      else (case fuel of
              0 \<Rightarrow> None
            | Suc f \<Rightarrow> let p' = p[x := p ! (p ! x)] in find_loop f p' (p' ! x)))"

declare find_loop.simps [simp del]

definition uf_find :: "nat list \<Rightarrow> nat \<Rightarrow> nat list \<times> nat" where
  "uf_find p x = (case find_loop (length p) p x of Some r \<Rightarrow> r | None \<Rightarrow> (p, x))"

text \<open>The representative of an element, leaving the array as it is.\<close>

definition rep_of :: "nat list \<Rightarrow> nat \<Rightarrow> nat" where
  "rep_of p x = snd (uf_find p x)"

text \<open>\<^term>\<open>reach p x k r\<close>: following parents from x reaches the root r after k steps.\<close>

inductive reach :: "nat list \<Rightarrow> nat \<Rightarrow> nat \<Rightarrow> nat \<Rightarrow> bool" for p :: "nat list" where
  reach_root: "p ! x = x \<Longrightarrow> reach p x 0 x"
| reach_step: "p ! x \<noteq> x \<Longrightarrow> reach p (p ! x) k r \<Longrightarrow> reach p x (Suc k) r"

inductive_cases reach_0E: "reach p x 0 r"
inductive_cases reach_SucE: "reach p x (Suc k) r"
inductive_cases reachE: "reach p x k r"

definition uf_ok :: "nat \<Rightarrow> nat list \<Rightarrow> bool" where
  "uf_ok n p \<longleftrightarrow> length p = n \<and> (\<forall>x < n. p ! x < n \<and> (\<exists>k r. reach p x k r))"

lemma reach_det: "reach p x k r \<Longrightarrow> reach p x k' r' \<Longrightarrow> k = k' \<and> r = r'"
  by (induction arbitrary: k' r' rule: reach.induct) (blast elim: reachE)+

lemma reach_is_root: "reach p x k r \<Longrightarrow> p ! r = r"
  by (induction rule: reach.induct) auto

lemma reach_at_root: "p ! x = x \<Longrightarrow> reach p x k r \<longleftrightarrow> k = 0 \<and> r = x"
  by (auto intro: reach_root elim: reachE)

lemma reach_parent: "reach p x k r \<Longrightarrow> p ! x \<noteq> x \<Longrightarrow> \<exists>k'. k = Suc k' \<and> reach p (p ! x) k' r"
  by (auto elim: reachE)

lemma reach_grandparent:
  assumes "reach p x k r" "p ! x \<noteq> x"
  shows "\<exists>k' < k. reach p (p ! (p ! x)) k' r"
proof -
  obtain k1 where k1: "k = Suc k1" "reach p (p ! x) k1 r" using reach_parent [OF assms] by blast
  show ?thesis
  proof (cases "p ! (p ! x) = p ! x")
    case True
    then show ?thesis using k1 by auto
  next
    case False
    then obtain k2 where "k1 = Suc k2" "reach p (p ! (p ! x)) k2 r"
      using reach_parent [OF k1(2)] by blast
    then show ?thesis using k1(1) by (intro exI [of _ k2]) simp
  qed
qed

lemma reach_bound:
  assumes "uf_ok n p"
  shows "reach p x k r \<Longrightarrow> x < n \<Longrightarrow> r < n"
  by (induction rule: reach.induct) (use assms in \<open>auto simp: uf_ok_def\<close>)

text \<open>Every distance below the distance of x is the distance of some element.\<close>

lemma reach_all_distances:
  assumes "uf_ok n p"
  shows "reach p x k r \<Longrightarrow> x < n \<Longrightarrow> j \<le> k \<Longrightarrow> \<exists>y < n. reach p y j r"
proof (induction arbitrary: j rule: reach.induct)
  case (reach_root x)
  then show ?case by (auto intro: reach.reach_root)
next
  case (reach_step x k r)
  then show ?case
    using assms by (cases "j = Suc k") (auto simp: uf_ok_def intro: reach.reach_step)
qed

lemma reach_short:
  assumes "uf_ok n p" "reach p x k r" "x < n"
  shows "k < n"
proof -
  obtain f where f: "\<And>j. j \<le> k \<Longrightarrow> f j < n \<and> reach p (f j) j r"
    using reach_all_distances [OF assms] by metis
  have "inj_on f {..k}"
  proof (rule inj_onI)
    fix i j assume "i \<in> {..k}" "j \<in> {..k}" "f i = f j"
    then have "reach p (f i) i r" "reach p (f i) j r" using f [of i] f [of j] by auto
    then show "i = j" using reach_det by blast
  qed
  moreover have "f ` {..k} \<subseteq> {..<n}" using f by auto
  ultimately have "card {..k} \<le> card {..<n}" by (intro card_inj_on_le) auto
  then show ?thesis by simp
qed

section \<open>Path halving\<close>

lemma reach_halve:
  assumes "p ! x \<noteq> x" "x < length p"
  shows "reach p y k r \<Longrightarrow> \<exists>k' \<le> k. reach (p[x := p ! (p ! x)]) y k' r"
proof (induction k arbitrary: y rule: less_induct)
  case (less k)
  let ?p' = "p[x := p ! (p ! x)]"
  show ?case
  proof (cases "p ! y = y")
    case True
    then have "y \<noteq> x" "k = 0" "r = y" using assms less.prems by (auto simp: reach_at_root)
    then show ?thesis using True by (auto intro: reach_root)
  next
    case False
    then obtain k1 where k: "k = Suc k1" and r1: "reach p (p ! y) k1 r"
      using reach_parent [OF less.prems] by blast
    show ?thesis
    proof (cases "y = x")
      case False
      obtain k' where "k' \<le> k1" "reach ?p' (p ! y) k' r" using less.IH [OF _ r1] k by auto
      then show ?thesis
        using False \<open>p ! y \<noteq> y\<close> k by (intro exI [of _ "Suc k'"]) (auto intro!: reach_step)
    next
      case True
      obtain k2 k' where k2: "k2 < k" "k' \<le> k2" "reach ?p' (p ! (p ! x)) k' r"
        using reach_grandparent [OF less.prems] False True less.IH by blast
      show ?thesis
      proof (cases "p ! (p ! x) = x")
        case True
        then have "reach ?p' x k' r" using k2 by simp
        then show ?thesis using k2 \<open>y = x\<close> by (intro exI [of _ k']) auto
      next
        case False
        then have "reach ?p' x (Suc k') r" using k2 assms by (intro reach_step) auto
        then show ?thesis using k2 \<open>y = x\<close> by (intro exI [of _ "Suc k'"]) auto
      qed
    qed
  qed
qed

text \<open>Two arrays with the same representatives.\<close>

definition same_reps :: "nat list \<Rightarrow> nat list \<Rightarrow> bool" where
  "same_reps p q \<longleftrightarrow> (\<forall>y r. (\<exists>k. reach p y k r) \<longrightarrow> (\<exists>k. reach q y k r))"

lemma uf_ok_halve:
  assumes "uf_ok n p" "p ! x \<noteq> x" "x < n"
  shows "uf_ok n (p[x := p ! (p ! x)])" "same_reps p (p[x := p ! (p ! x)])"
proof -
  have len: "length p = n" using assms(1) by (simp add: uf_ok_def)
  show "same_reps p (p[x := p ! (p ! x)])"
    using reach_halve [OF assms(2)] assms(3) len unfolding same_reps_def by blast
  have "p[x := p ! (p ! x)] ! y < n" if "y < n" for y
    using assms that len by (cases "y = x") (auto simp: uf_ok_def)
  then show "uf_ok n (p[x := p ! (p ! x)])"
    using assms len reach_halve [OF assms(2)] unfolding uf_ok_def by (metis length_list_update)
qed

lemma same_reps_refl: "same_reps p p"
  by (auto simp: same_reps_def)

lemma same_reps_trans: "same_reps p q \<Longrightarrow> same_reps q s \<Longrightarrow> same_reps p s"
  by (auto simp: same_reps_def)

text \<open>Enough fuel: as many iterations as the element is away from its root.\<close>

lemma find_loop_correct:
  assumes "uf_ok n p" "x < n" "reach p x k r" "k \<le> fuel"
  shows "\<exists>p'. find_loop fuel p x = Some (p', r) \<and> uf_ok n p' \<and> same_reps p p'"
  using assms
proof (induction fuel arbitrary: p x k)
  case 0
  then have "p ! x = x" "r = x" by (auto elim: reach_0E)
  then show ?case using 0 by (auto simp: find_loop.simps same_reps_refl)
next
  case (Suc fuel)
  show ?case
  proof (cases "p ! x = x")
    case True
    then show ?thesis using Suc.prems by (auto simp: find_loop.simps same_reps_refl reach_at_root)
  next
    case False
    let ?p' = "p[x := p ! (p ! x)]"
    have len: "length p = n" using Suc.prems by (simp add: uf_ok_def)
    note ok = uf_ok_halve [OF Suc.prems(1) False Suc.prems(2)]
    obtain k2 where "k2 < k" "reach p (p ! (p ! x)) k2 r"
      using reach_grandparent [OF Suc.prems(3) False] by blast
    then obtain k' where k': "k' \<le> fuel" "reach ?p' (p ! (p ! x)) k' r"
      using reach_halve [OF False, of "p ! (p ! x)" k2 r] Suc.prems(2,4) len
      by (metis Suc_le_mono Suc_leI le_trans)
    have eq: "?p' ! x = p ! (p ! x)" using Suc.prems(2) len by simp
    have "p ! (p ! x) < n" using Suc.prems(1,2) by (auto simp: uf_ok_def)
    then obtain q where "find_loop fuel ?p' (p ! (p ! x)) = Some (q, r)" "uf_ok n q" "same_reps ?p' q"
      using Suc.IH [OF ok(1) _ k'(2,1)] by blast
    then show ?thesis
      using False ok(2) eq by (subst find_loop.simps) (auto simp: Let_def intro: same_reps_trans)
  qed
qed

lemma uf_okD: "uf_ok n p \<Longrightarrow> length p = n" "uf_ok n p \<Longrightarrow> x < n \<Longrightarrow> p ! x < n"
  by (auto simp: uf_ok_def)

text \<open>The fuel of \<^term>\<open>uf_find\<close> is enough: it returns the root, and keeps every representative.\<close>

lemma uf_find_reach:
  assumes "uf_ok n p" "x < n" "reach p x k r"
  shows "\<exists>p'. find_loop (length p) p x = Some (p', r) \<and> uf_find p x = (p', r) \<and> uf_ok n p' \<and> same_reps p p'"
proof -
  have "k \<le> length p" using reach_short [OF assms(1,3,2)] uf_okD(1) [OF assms(1)] by simp
  from find_loop_correct [OF assms this] show ?thesis by (auto simp: uf_find_def)
qed

lemma rep_of_eq: "uf_ok n p \<Longrightarrow> x < n \<Longrightarrow> reach p x k r \<Longrightarrow> rep_of p x = r"
  using uf_find_reach by (fastforce simp: rep_of_def)

lemma rep_of_reach:
  assumes "uf_ok n p" "x < n"
  obtains k where "reach p x k (rep_of p x)"
  using assms rep_of_eq unfolding uf_ok_def by metis

lemma rep_of_lt: "uf_ok n p \<Longrightarrow> x < n \<Longrightarrow> rep_of p x < n"
  by (meson rep_of_reach reach_bound)

lemma rep_of_root: "uf_ok n p \<Longrightarrow> x < n \<Longrightarrow> p ! rep_of p x = rep_of p x"
  by (meson rep_of_reach reach_is_root)

lemma rep_of_idem: "uf_ok n p \<Longrightarrow> x < n \<Longrightarrow> p ! x = x \<Longrightarrow> rep_of p x = x"
  using rep_of_eq reach_root by blast

lemma same_reps_rep_of:
  assumes "uf_ok n p" "uf_ok n q" "same_reps p q" "x < n"
  shows "rep_of q x = rep_of p x"
proof -
  obtain k where "reach p x k (rep_of p x)" using rep_of_reach [OF assms(1,4)] .
  then obtain k' where "reach q x k' (rep_of p x)" using assms(3) unfolding same_reps_def by blast
  then show ?thesis by (rule rep_of_eq [OF assms(2,4)])
qed

lemma uf_find_correct:
  assumes "uf_ok n p" "x < n"
  obtains p' where "uf_find p x = (p', rep_of p x)" "uf_ok n p'" "\<And>y. y < n \<Longrightarrow> rep_of p' y = rep_of p y"
    "\<And>y. p ! y = y \<Longrightarrow> p' ! y = y"
proof -
  obtain k where "reach p x k (rep_of p x)" using rep_of_reach [OF assms] .
  then obtain p' where p': "uf_find p x = (p', rep_of p x)" "uf_ok n p'" "same_reps p p'"
    using uf_find_reach [OF assms] by blast
  moreover have "p' ! y = y" if "p ! y = y" for y
    using p'(3) that reach_is_root reach_root unfolding same_reps_def by blast
  ultimately show thesis using that same_reps_rep_of [OF assms(1)] by blast
qed

section \<open>Linking two roots\<close>

lemma reach_link:
  assumes "p ! a = a" "p ! b = b" "a \<noteq> b" "b < length p"
  shows "reach p y k r \<Longrightarrow> reach (p[b := a]) y (if r = b then Suc k else k) (if r = b then a else r)"
proof (induction rule: reach.induct)
  case (reach_root x)
  have "reach (p[b := a]) a 0 a" using assms by (intro reach.reach_root) simp
  then have "reach (p[b := a]) b (Suc 0) a" using assms by (intro reach.reach_step) auto
  then show ?case using reach_root by (auto intro: reach.reach_root)
next
  case (reach_step x k r)
  then have "x \<noteq> b" using assms(2) by auto
  then show ?case using reach_step by (auto intro: reach.reach_step)
qed

lemma uf_link:
  assumes "uf_ok n p" "a < n" "b < n" "p ! a = a" "p ! b = b" "a \<noteq> b"
  shows "uf_ok n (p[b := a])"
    and "\<And>y. y < n \<Longrightarrow> rep_of (p[b := a]) y = (if rep_of p y = b then a else rep_of p y)"
proof -
  have len: "length p = n" using uf_okD(1) [OF assms(1)] .
  note link = reach_link [OF assms(4,5,6)]
  have "p[b := a] ! x < n" if "x < n" for x
    using that assms(2) uf_okD [OF assms(1)] by (cases "x = b") auto
  moreover have "\<exists>k r. reach (p[b := a]) x k r" if "x < n" for x
    using rep_of_reach [OF assms(1) that] link assms(3) len by metis
  ultimately show ok: "uf_ok n (p[b := a])" using len by (simp add: uf_ok_def)
  fix y assume y: "y < n"
  obtain k where "reach p y k (rep_of p y)" using rep_of_reach [OF assms(1) y] .
  then show "rep_of (p[b := a]) y = (if rep_of p y = b then a else rep_of p y)"
    using link assms(3) len by (intro rep_of_eq [OF ok y]) blast
qed

lemma uf_ok_init: "uf_ok n [0..<n]"
proof -
  have "reach [0..<n] x 0 x" if "x < n" for x using that by (intro reach_root) simp
  then show ?thesis unfolding uf_ok_def by fastforce
qed

lemma rep_of_init: "x < n \<Longrightarrow> rep_of [0..<n] x = x"
  by (rule rep_of_idem [OF uf_ok_init]) auto

section \<open>Connectivity\<close>

text \<open>\<^term>\<open>conn E\<close>: connected by the undirected edges of E.\<close>

definition conn :: "(nat \<times> nat) set \<Rightarrow> (nat \<times> nat) set" where
  "conn E = (E \<union> E\<inverse>)\<^sup>*"

lemma conn_refl [simp]: "(x, x) \<in> conn E"
  by (simp add: conn_def)

lemma conn_sym: "(x, y) \<in> conn E \<Longrightarrow> (y, x) \<in> conn E"
  unfolding conn_def by (metis symD sym_rtrancl sym_Un_converse)

lemma conn_trans: "(x, y) \<in> conn E \<Longrightarrow> (y, z) \<in> conn E \<Longrightarrow> (x, z) \<in> conn E"
  unfolding conn_def by (rule rtrancl_trans)

lemma conn_mono: "E \<subseteq> F \<Longrightarrow> conn E \<subseteq> conn F"
  unfolding conn_def by (rule rtrancl_mono) blast

lemma conn_edge: "(x, y) \<in> E \<Longrightarrow> (x, y) \<in> conn E"
  unfolding conn_def by blast

lemma conn_insert:
  "(x, y) \<in> conn (insert (a, b) E) \<longleftrightarrow>
     (x, y) \<in> conn E \<or> (x, a) \<in> conn E \<and> (b, y) \<in> conn E \<or> (x, b) \<in> conn E \<and> (a, y) \<in> conn E"
  (is "?l \<longleftrightarrow> ?r")
proof
  assume ?r
  moreover have "conn E \<subseteq> conn (insert (a, b) E)" by (rule conn_mono) blast
  moreover have "(a, b) \<in> conn (insert (a, b) E)" by (rule conn_edge) simp
  ultimately show ?l by (meson conn_sym conn_trans subsetD)
next
  assume ?l
  then have "(x, y) \<in> (insert (a, b) E \<union> (insert (a, b) E)\<inverse>)\<^sup>*" by (simp add: conn_def)
  then show ?r
  proof (induction rule: rtrancl_induct)
    case (step y z)
    have "(y, z) = (a, b) \<or> (y, z) = (b, a) \<or> (y, z) \<in> conn E"
      using step.hyps(2) conn_edge conn_sym by fastforce
    then show ?case
    proof (elim disjE)
      assume "(y, z) = (a, b)"
      then show ?thesis using step.IH conn_sym conn_trans by (metis conn_refl prod.inject)
    next
      assume "(y, z) = (b, a)"
      then show ?thesis using step.IH conn_sym conn_trans by (metis conn_refl prod.inject)
    next
      assume "(y, z) \<in> conn E"
      then show ?thesis using step.IH conn_trans by blast
    qed
  qed simp
qed

section \<open>The contract of a union-find\<close>

locale union_find =
  fixes inv :: "nat \<Rightarrow> 's \<Rightarrow> bool"
    and rep :: "'s \<Rightarrow> nat \<Rightarrow> nat"
    and init :: "nat \<Rightarrow> 's"
    and merge :: "nat \<Rightarrow> nat \<Rightarrow> 's \<Rightarrow> 's"
  assumes inv_init: "0 < n \<Longrightarrow> inv n (init n)"
    and rep_init: "x < n \<Longrightarrow> rep (init n) x = x"
    and inv_merge: "inv n s \<Longrightarrow> a < n \<Longrightarrow> b < n \<Longrightarrow> inv n (merge a b s)"
    and rep_merge: "inv n s \<Longrightarrow> a < n \<Longrightarrow> b < n \<Longrightarrow> x < n \<Longrightarrow> y < n \<Longrightarrow>
      rep (merge a b s) x = rep (merge a b s) y \<longleftrightarrow>
        rep s x = rep s y \<or> (rep s x = rep s a \<and> rep s b = rep s y) \<or> (rep s x = rep s b \<and> rep s a = rep s y)"
begin

text \<open>The state s separates exactly the elements that E does not connect.\<close>

definition represents :: "nat \<Rightarrow> 's \<Rightarrow> (nat \<times> nat) set \<Rightarrow> bool" where
  "represents n s E \<longleftrightarrow> inv n s \<and> (\<forall>x < n. \<forall>y < n. rep s x = rep s y \<longleftrightarrow> (x, y) \<in> conn E)"

lemma represents_init: "0 < n \<Longrightarrow> represents n (init n) {}"
  by (auto simp: represents_def inv_init rep_init conn_def)

lemma represents_merge:
  assumes "represents n s E" "a < n" "b < n"
  shows "represents n (merge a b s) (insert (a, b) E)"
  using assms unfolding represents_def
  by (simp add: inv_merge rep_merge [of n s a b] conn_insert)

lemma represents_merges:
  "represents n s E \<Longrightarrow> \<forall>(a, b) \<in> set es. a < n \<and> b < n \<Longrightarrow>
   represents n (fold (\<lambda>(a, b). merge a b) es s) (set es \<union> E)"
proof (induction es arbitrary: s E)
  case (Cons e es)
  obtain a b where e: "e = (a, b)" by (cases e)
  have "represents n (merge a b s) (insert (a, b) E)"
    using Cons.prems e by (intro represents_merge) auto
  from Cons.IH [OF this] Cons.prems show ?case by (simp add: e)
qed simp

lemma represents_rep: "represents n s E \<Longrightarrow> x < n \<Longrightarrow> y < n \<Longrightarrow> rep s x = rep s y \<longleftrightarrow> (x, y) \<in> conn E"
  by (simp add: represents_def)

text \<open>A change of state that keeps the representatives, such as a lookup that shortens paths.\<close>

lemma represents_cong:
  "represents n s E \<Longrightarrow> inv n s' \<Longrightarrow> (\<And>x. x < n \<Longrightarrow> rep s' x = rep s x) \<Longrightarrow> represents n s' E"
  by (simp add: represents_def)

end

section \<open>Looking up every element\<close>

text \<open>The loop \<^verbatim>\<open>for i { roots[i] = find(i) }\<close>, which keeps shortening paths as it goes.\<close>

fun find_all :: "nat list \<Rightarrow> nat list \<Rightarrow> nat list \<times> nat list" where
  "find_all p [] = (p, [])"
| "find_all p (x # xs) =
     (let (p1, r) = uf_find p x; (p2, rs) = find_all p1 xs in (p2, r # rs))"

lemma find_all_correct:
  "uf_ok n p \<Longrightarrow> \<forall>x \<in> set xs. x < n \<Longrightarrow>
   \<exists>p'. find_all p xs = (p', map (rep_of p) xs) \<and> uf_ok n p' \<and> (\<forall>y < n. rep_of p' y = rep_of p y) \<and>
        (\<forall>y. p ! y = y \<longrightarrow> p' ! y = y)"
proof (induction xs arbitrary: p)
  case (Cons x xs)
  obtain p1 where p1: "uf_find p x = (p1, rep_of p x)" "uf_ok n p1"
    "\<And>y. y < n \<Longrightarrow> rep_of p1 y = rep_of p y" "\<And>y. p ! y = y \<Longrightarrow> p1 ! y = y"
    using uf_find_correct [OF Cons.prems(1), of x] Cons.prems(2) by auto
  moreover obtain p2 where "find_all p1 xs = (p2, map (rep_of p1) xs)" "uf_ok n p2"
    "\<forall>y < n. rep_of p2 y = rep_of p1 y" "\<forall>y. p1 ! y = y \<longrightarrow> p2 ! y = y"
    using Cons.IH [OF p1(2)] Cons.prems(2) by auto
  ultimately show ?case using Cons.prems(2) by simp
qed simp

section \<open>Union without ranks\<close>

text \<open>The union of \<^verbatim>\<open>groupByComponent\<close>: the root of the second joins the root of the first.\<close>

definition plain_union :: "nat \<Rightarrow> nat \<Rightarrow> nat list \<Rightarrow> nat list" where
  "plain_union i j p =
     (let (p1, ri) = uf_find p i; (p2, rj) = uf_find p1 j in
      if ri \<noteq> rj then p2[rj := ri] else p2)"

lemma plain_union_correct:
  assumes "uf_ok n p" "i < n" "j < n"
  shows "uf_ok n (plain_union i j p)"
    and "y < n \<Longrightarrow> rep_of (plain_union i j p) y = (if rep_of p y = rep_of p j then rep_of p i else rep_of p y)"
proof -
  obtain p1 where p1: "uf_find p i = (p1, rep_of p i)" "uf_ok n p1" "\<And>y. y < n \<Longrightarrow> rep_of p1 y = rep_of p y"
    using uf_find_correct [OF assms(1,2)] by metis
  obtain p2 where p2: "uf_find p1 j = (p2, rep_of p1 j)" "uf_ok n p2" "\<And>y. y < n \<Longrightarrow> rep_of p2 y = rep_of p1 y"
    using uf_find_correct [OF p1(2) assms(3)] by metis
  have r: "rep_of p i < n" "rep_of p j < n" "p2 ! rep_of p i = rep_of p i" "p2 ! rep_of p j = rep_of p j"
    using rep_of_lt [OF assms(1)] rep_of_root [OF p2(2)] p1(3) p2(3) assms by metis+
  have eq: "plain_union i j p = (if rep_of p i \<noteq> rep_of p j then p2[rep_of p j := rep_of p i] else p2)"
    using p1(1) p2(1) p1(3) [OF assms(3)] by (simp add: plain_union_def)
  show "uf_ok n (plain_union i j p)"
    using uf_link(1) [OF p2(2) r] p2(2) by (simp add: eq)
  show "y < n \<Longrightarrow> rep_of (plain_union i j p) y = (if rep_of p y = rep_of p j then rep_of p i else rep_of p y)"
    using uf_link(2) [OF p2(2) r] p1(3) p2(3) by (auto simp: eq)
qed

interpretation plain: union_find uf_ok rep_of "\<lambda>n. [0..<n]" plain_union
proof
  show "uf_ok n [0..<n]" for n by (rule uf_ok_init)
  show "rep_of [0..<n] x = x" if "x < n" for x n using that by (rule rep_of_init)
  show "uf_ok n (plain_union a b s)" if "uf_ok n s" "a < n" "b < n" for n s a b
    using plain_union_correct(1) that .
  show "rep_of (plain_union a b s) x = rep_of (plain_union a b s) y \<longleftrightarrow>
      rep_of s x = rep_of s y \<or> (rep_of s x = rep_of s a \<and> rep_of s b = rep_of s y) \<or>
      (rep_of s x = rep_of s b \<and> rep_of s a = rep_of s y)"
    if "uf_ok n s" "a < n" "b < n" "x < n" "y < n" for n s a b x y
    using that by (auto simp: plain_union_correct(2))
qed

end
