(* ===== verification/Tiers.thy ===== *)
theory Tiers
  imports Links Union_Find
begin

text \<open>
  The connectivity of a node's GPUs at every link tier
  (\<^verbatim>\<open>computeTieredComponents\<close> of \<^verbatim>\<open>pkg/device/types.go\<close>): the edges with their strongest link,
  one union-find by size that is widened tier by tier with a snapshot after each, the size of
  the largest component, and the test whether the components of a tier are uniform.
\<close>

section \<open>Edges\<close>

text \<open>An edge (i, j, t): i below j, t the number of the strongest link recorded on device i.\<close>

type_synonym tiered_edge = "nat \<times> nat \<times> nat"

definition best_link :: "p2p_link_type list \<Rightarrow> nat" where
  "best_link ls = foldl (\<lambda>best t. if t > best then t else best) 0 ls"

fun edge_of :: "nat \<Rightarrow> nat \<Rightarrow> int \<times> p2p_link_type list \<Rightarrow> tiered_edge list" where
  "edge_of n i (j, ls) =
     (if j \<le> int i \<or> j \<ge> int n then []
      else (let best = best_link ls in
            if best > P2PLinkUnknown then [(i, nat j, best)] else []))"

definition edges_of :: "nat \<Rightarrow> nat \<Rightarrow> link_device option \<Rightarrow> tiered_edge list" where
  "edges_of n i od =
     (case od of None \<Rightarrow> [] | Some d \<Rightarrow> concat (map (edge_of n i) (ld_Links d)))"

definition tiered_edges :: "device_list \<Rightarrow> tiered_edge list" where
  "tiered_edges ds = concat (map (\<lambda>i. edges_of (length ds) i (ds ! i)) [0..<length ds])"

section \<open>Union by size\<close>

record tier_uf =
  tu_parent :: "nat list"
  tu_size :: "nat list"
  tu_maxSize :: nat

definition tier_init :: "nat \<Rightarrow> tier_uf" where
  "tier_init n = \<lparr>tu_parent = [0..<n], tu_size = replicate n 1, tu_maxSize = 1\<rparr>"

definition tier_union :: "nat \<Rightarrow> nat \<Rightarrow> tier_uf \<Rightarrow> tier_uf" where
  "tier_union a b s =
     (let (p1, ra0) = uf_find (tu_parent s) a;
          (p2, rb0) = uf_find p1 b in
      if ra0 = rb0 then s\<lparr>tu_parent := p2\<rparr>
      else let (ra, rb) = (if tu_size s ! ra0 < tu_size s ! rb0 then (rb0, ra0) else (ra0, rb0));
               sz = (tu_size s)[ra := tu_size s ! ra + tu_size s ! rb]
           in \<lparr>tu_parent = p2[rb := ra], tu_size = sz,
               tu_maxSize = (if sz ! ra > tu_maxSize s then sz ! ra else tu_maxSize s)\<rparr>)"

section \<open>Uniformity\<close>

text \<open>
  The edge loop of \<^verbatim>\<open>componentsAreUniform\<close>: the link type seen so far in each component and
  the number of its edges; None is the early return on two different types.
\<close>

fun uniform_edges ::
  "nat list \<Rightarrow> tiered_edge list \<Rightarrow> (nat \<rightharpoonup> nat) \<Rightarrow> (nat \<Rightarrow> nat) \<Rightarrow> (nat \<Rightarrow> nat) option" where
  "uniform_edges roots [] linkType seen = Some seen"
| "uniform_edges roots ((i, j, t) # es) linkType seen =
     (if roots ! i \<noteq> roots ! j then uniform_edges roots es linkType seen
      else let root = roots ! i; seen' = seen(root := seen root + 1) in
        (case linkType root of
           Some t' \<Rightarrow> if t' \<noteq> t then None else uniform_edges roots es linkType seen'
         | None \<Rightarrow> uniform_edges roots es (linkType(root \<mapsto> t)) seen'))"

definition componentsAreUniform :: "nat list \<Rightarrow> tiered_edge list \<Rightarrow> nat \<Rightarrow> bool" where
  "componentsAreUniform roots edges n =
     (let members = (\<lambda>r. count_list (take n roots) r) in
      case uniform_edges roots edges Map.empty (\<lambda>_. 0) of
        None \<Rightarrow> False
      | Some seenEdges \<Rightarrow>
          list_all (\<lambda>root. \<not> (members root > 1 \<and> seenEdges root \<noteq> members root * (members root - 1) div 2))
            (remdups (take n roots)))"

section \<open>The walk over the tiers\<close>

record tiered_components =
  tc_n :: nat
  tc_roots :: "nat list"
  tc_uniform :: "bool list"
  tc_maxSize :: "nat list"

definition add_tier :: "link_tier \<Rightarrow> tiered_edge list \<Rightarrow> tier_uf \<Rightarrow> tier_uf" where
  "add_tier tier edges s =
     fold (\<lambda>(i, j, t) s. if t \<ge> LinkTierThreshold tier then tier_union i j s else s) edges s"

text \<open>One row per tier: the roots, the largest size, and whether the tier is uniform.\<close>

fun tier_walk :: "nat \<Rightarrow> tiered_edge list \<Rightarrow> link_tier list \<Rightarrow> tier_uf \<Rightarrow> (nat list \<times> nat \<times> bool) list" where
  "tier_walk n edges [] s = []"
| "tier_walk n edges (tier # tiers) s =
     (let s1 = add_tier tier edges s;
          (p, roots) = find_all (tu_parent s1) [0..<n]
      in (roots, tu_maxSize s1, componentsAreUniform roots edges n)
         # tier_walk n edges tiers (s1\<lparr>tu_parent := p\<rparr>))"

definition computeTieredComponents :: "device_list \<Rightarrow> tiered_components" where
  "computeTieredComponents ds =
     (let n = length ds in
      if n = 0 then \<lparr>tc_n = 0, tc_roots = [], tc_uniform = replicate 4 False, tc_maxSize = replicate 4 0\<rparr>
      else let rows = tier_walk n (tiered_edges ds) all_tiers (tier_init n) in
        \<lparr>tc_n = n, tc_roots = concat (map fst rows), tc_uniform = map (snd \<circ> snd) rows,
         tc_maxSize = map (fst \<circ> snd) rows\<rparr>)"

text \<open>A tier view of None is the nil pointer of a node without link topology.\<close>

definition rootOf :: "tiered_components option \<Rightarrow> link_tier \<Rightarrow> int \<Rightarrow> int" where
  "rootOf otc tier index =
     (case otc of
        None \<Rightarrow> -1
      | Some tc \<Rightarrow> if index < 0 \<or> index \<ge> int (tc_n tc) then -1
                  else int (tc_roots tc ! (tier_index tier * tc_n tc + nat index)))"

definition largest :: "tiered_components option \<Rightarrow> link_tier \<Rightarrow> nat" where
  "largest otc tier = (case otc of None \<Rightarrow> 0 | Some tc \<Rightarrow> tc_maxSize tc ! tier_index tier)"

definition isUniform :: "tiered_components option \<Rightarrow> link_tier \<Rightarrow> bool" where
  "isUniform otc tier = (case otc of None \<Rightarrow> False | Some tc \<Rightarrow> tc_uniform tc ! tier_index tier)"

definition byUUID :: "tiered_components option \<Rightarrow> link_tier \<Rightarrow> device_list \<Rightarrow> (string, int) gomap" where
  "byUUID otc tier ds =
     (case otc of
        None \<Rightarrow> []
      | Some tc \<Rightarrow>
          foldl (\<lambda>out i. case ds ! i of
                   None \<Rightarrow> out
                 | Some d \<Rightarrow> let root = rootOf otc tier (int i) in
                     if root \<ge> 0 then AList.update (ld_UUID d) root out else out)
            [] [0..<length ds])"

section \<open>The union-find by size keeps sizes and their maximum\<close>

definition cls :: "nat \<Rightarrow> nat list \<Rightarrow> nat \<Rightarrow> nat set" where
  "cls n p r = {y. y < n \<and> rep_of p y = r}"

definition tier_ok :: "nat \<Rightarrow> tier_uf \<Rightarrow> bool" where
  "tier_ok n s \<longleftrightarrow>
     uf_ok n (tu_parent s) \<and> length (tu_size s) = n \<and>
     (\<forall>x < n. tu_size s ! rep_of (tu_parent s) x = card (cls n (tu_parent s) (rep_of (tu_parent s) x))) \<and>
     (\<forall>x < n. card (cls n (tu_parent s) (rep_of (tu_parent s) x)) \<le> tu_maxSize s) \<and>
     (\<exists>x < n. card (cls n (tu_parent s) (rep_of (tu_parent s) x)) = tu_maxSize s)"

lemma finite_cls [simp]: "finite (cls n p r)"
  by (simp add: cls_def)

lemma cls_cong: "(\<And>y. y < n \<Longrightarrow> rep_of q y = rep_of p y) \<Longrightarrow> cls n q r = cls n p r"
  by (auto simp: cls_def)

lemma tier_ok_init: "0 < n \<Longrightarrow> tier_ok n (tier_init n)"
proof -
  assume "0 < n"
  moreover have "cls n [0..<n] x = {x}" if "x < n" for x
    using that by (auto simp: cls_def rep_of_init)
  ultimately show ?thesis by (auto simp: tier_ok_def tier_init_def uf_ok_init rep_of_init)
qed

text \<open>Replacing the parents by ones with the same representatives.\<close>

lemma tier_ok_reparent:
  assumes "tier_ok n s" "uf_ok n p" "\<And>y. y < n \<Longrightarrow> rep_of p y = rep_of (tu_parent s) y"
  shows "tier_ok n (s\<lparr>tu_parent := p\<rparr>)"
  using assms cls_cong [of n p "tu_parent s"] by (auto simp: tier_ok_def)

lemma cls_link:
  assumes "\<And>y. y < n \<Longrightarrow> rep_of q y = (if rep_of p y = rb then ra else rep_of p y)" "ra \<noteq> rb"
  shows "cls n q ra = cls n p ra \<union> cls n p rb" "r \<noteq> ra \<Longrightarrow> r \<noteq> rb \<Longrightarrow> cls n q r = cls n p r"
  using assms by (auto simp: cls_def split: if_splits)

lemma card_cls_link:
  assumes "\<And>y. y < n \<Longrightarrow> rep_of q y = (if rep_of p y = rb then ra else rep_of p y)" "ra \<noteq> rb"
  shows "card (cls n q ra) = card (cls n p ra) + card (cls n p rb)"
proof -
  have "cls n q ra = cls n p ra \<union> cls n p rb" by (rule cls_link(1)) (use assms in auto)
  moreover have "cls n p ra \<inter> cls n p rb = {}" using assms(2) by (auto simp: cls_def)
  ultimately show ?thesis by (simp add: card_Un_disjoint)
qed

text \<open>Linking root rb below root ra, and adding up the sizes.\<close>

lemma tier_ok_link:
  assumes "tier_ok n s" "ra < n" "rb < n" "ra \<noteq> rb"
    and roots: "tu_parent s ! ra = ra" "tu_parent s ! rb = rb"
    and m: "m = tu_size s ! ra + tu_size s ! rb"
  shows "tier_ok n \<lparr>tu_parent = (tu_parent s)[rb := ra], tu_size = (tu_size s)[ra := m],
                    tu_maxSize = (if m > tu_maxSize s then m else tu_maxSize s)\<rparr>"
proof -
  let ?p = "tu_parent s" and ?q = "(tu_parent s)[rb := ra]"
  have ok: "uf_ok n ?p" "length (tu_size s) = n"
    and sz: "\<And>x. x < n \<Longrightarrow> tu_size s ! rep_of ?p x = card (cls n ?p (rep_of ?p x))"
    and le: "\<And>x. x < n \<Longrightarrow> card (cls n ?p (rep_of ?p x)) \<le> tu_maxSize s"
    using assms(1) by (auto simp: tier_ok_def)
  obtain w where w: "w < n" "card (cls n ?p (rep_of ?p w)) = tu_maxSize s"
    using assms(1) by (auto simp: tier_ok_def)
  have q: "uf_ok n ?q" "\<And>y. y < n \<Longrightarrow> rep_of ?q y = (if rep_of ?p y = rb then ra else rep_of ?p y)"
    using uf_link [OF ok(1) assms(2,3) roots assms(4)] by auto
  have rr: "rep_of ?p ra = ra" "rep_of ?p rb = rb"
    using rep_of_idem [OF ok(1)] assms(2,3) roots by auto
  have cm: "card (cls n ?q ra) = m"
    using card_cls_link [OF q(2) assms(4)] sz [OF assms(2)] sz [OF assms(3)] rr m by simp
  have pos: "0 < card (cls n ?p ra)" "0 < card (cls n ?p rb)"
    using assms(2,3) rr by (auto simp: card_gt_0_iff cls_def)
  have other: "cls n ?q r = cls n ?p r" if "r \<noteq> ra" "r \<noteq> rb" for r
    by (rule cls_link(2) [OF q(2) assms(4) that])
  have card_q: "card (cls n ?q (rep_of ?q x)) = (if rep_of ?q x = ra then m else card (cls n ?p (rep_of ?p x)))"
    if "x < n" for x using that q(2) [OF that] other [of "rep_of ?p x"] cm by auto
  have "(tu_size s)[ra := m] ! rep_of ?q x = card (cls n ?q (rep_of ?q x))" if "x < n" for x
    using that q(2) [OF that] card_q [OF that] sz [OF that] ok(2) assms(2) by (auto simp: nth_list_update)
  moreover have "card (cls n ?q (rep_of ?q x)) \<le> (if m > tu_maxSize s then m else tu_maxSize s)" if "x < n" for x
    using card_q [OF that] le [OF that] by auto
  moreover have "\<exists>x < n. card (cls n ?q (rep_of ?q x)) = (if m > tu_maxSize s then m else tu_maxSize s)"
  proof (cases "m > tu_maxSize s")
    case True
    moreover have "rep_of ?q ra = ra" using q(2) [OF assms(2)] rr assms(4) by simp
    ultimately show ?thesis using card_q [OF assms(2)] assms(2) by auto
  next
    case False
    have "rep_of ?q w \<noteq> ra"
    proof
      assume "rep_of ?q w = ra"
      then have "rep_of ?p w = ra \<or> rep_of ?p w = rb" using q(2) [OF w(1)] by (auto split: if_splits)
      then have "tu_maxSize s < m"
        using w(2) pos m sz [OF assms(2)] sz [OF assms(3)] rr by auto
      then show False using False by simp
    qed
    then show ?thesis using card_q [OF w(1)] w False by auto
  qed
  ultimately show ?thesis using q(1) ok(2) by (simp add: tier_ok_def)
qed

lemma tier_union_correct:
  assumes "tier_ok n s" "a < n" "b < n"
  defines "p \<equiv> tu_parent s"
  shows "tier_ok n (tier_union a b s)"
    and "\<And>x y. x < n \<Longrightarrow> y < n \<Longrightarrow>
      rep_of (tu_parent (tier_union a b s)) x = rep_of (tu_parent (tier_union a b s)) y \<longleftrightarrow>
        rep_of p x = rep_of p y \<or> (rep_of p x = rep_of p a \<and> rep_of p b = rep_of p y) \<or>
        (rep_of p x = rep_of p b \<and> rep_of p a = rep_of p y)"
proof -
  have ok: "uf_ok n p" using assms(1) by (simp add: tier_ok_def p_def)
  obtain p1 where p1: "uf_find p a = (p1, rep_of p a)" "uf_ok n p1" "\<And>y. y < n \<Longrightarrow> rep_of p1 y = rep_of p y"
    using uf_find_correct [OF ok assms(2)] by metis
  obtain p2 where p2: "uf_find p1 b = (p2, rep_of p b)" "uf_ok n p2" "\<And>y. y < n \<Longrightarrow> rep_of p2 y = rep_of p y"
    using uf_find_correct [OF p1(2) assms(3)] p1(3) assms(3) by metis
  define s2 where "s2 = s\<lparr>tu_parent := p2\<rparr>"
  have ok2: "tier_ok n s2" unfolding s2_def
    by (rule tier_ok_reparent [OF assms(1) p2(2)]) (simp add: p2(3) p_def)
  define ra rb where "ra = (if tu_size s ! rep_of p a < tu_size s ! rep_of p b then rep_of p b else rep_of p a)"
    and "rb = (if tu_size s ! rep_of p a < tu_size s ! rep_of p b then rep_of p a else rep_of p b)"
  have r: "ra < n" "rb < n" "p2 ! ra = ra" "p2 ! rb = rb"
    using rep_of_lt [OF ok] rep_of_root [OF p2(2)] p2(3) assms(2,3) by (auto simp: ra_def rb_def)
  have eq: "tier_union a b s =
      (if rep_of p a = rep_of p b then s2
       else \<lparr>tu_parent = p2[rb := ra], tu_size = (tu_size s)[ra := tu_size s ! ra + tu_size s ! rb],
             tu_maxSize = (if tu_size s ! ra + tu_size s ! rb > tu_maxSize s
                           then tu_size s ! ra + tu_size s ! rb else tu_maxSize s)\<rparr>)"
    using p1(1) p2(1) r(1) assms(1)
    by (auto simp: tier_union_def s2_def ra_def rb_def p_def tier_ok_def Let_def)
  show "tier_ok n (tier_union a b s)"
  proof (cases "rep_of p a = rep_of p b")
    case True
    then show ?thesis using ok2 eq by simp
  next
    case False
    then have "ra \<noteq> rb" by (auto simp: ra_def rb_def)
    have s2: "tu_parent s2 = p2" "tu_size s2 = tu_size s" "tu_maxSize s2 = tu_maxSize s"
      by (simp_all add: s2_def)
    from tier_ok_link [OF ok2 r(1,2) \<open>ra \<noteq> rb\<close> _ _ refl, unfolded s2, OF r(3,4)] show ?thesis
      by (simp only: eq False if_False)
  qed
  fix x y assume xy: "x < n" "y < n"
  show "rep_of (tu_parent (tier_union a b s)) x = rep_of (tu_parent (tier_union a b s)) y \<longleftrightarrow>
        rep_of p x = rep_of p y \<or> (rep_of p x = rep_of p a \<and> rep_of p b = rep_of p y) \<or>
        (rep_of p x = rep_of p b \<and> rep_of p a = rep_of p y)"
  proof (cases "rep_of p a = rep_of p b")
    case True
    then show ?thesis using eq p2(3) xy by (auto simp: s2_def)
  next
    case False
    then have "ra \<noteq> rb" by (auto simp: ra_def rb_def)
    note link = uf_link(2) [OF p2(2) r this]
    have "{ra, rb} = {rep_of p a, rep_of p b}" by (auto simp: ra_def rb_def)
    then show ?thesis
      using False link [OF xy(1)] link [OF xy(2)] p2(3) [OF xy(1)] p2(3) [OF xy(2)] \<open>ra \<noteq> rb\<close>
      by (auto simp: eq doubleton_eq_iff)
  qed
qed

interpretation sized: union_find tier_ok "\<lambda>s. rep_of (tu_parent s)" tier_init tier_union
proof
  show "tier_ok n (tier_init n)" if "0 < n" for n using that by (rule tier_ok_init)
  show "rep_of (tu_parent (tier_init n)) x = x" if "x < n" for n x
    using that by (simp add: tier_init_def rep_of_init)
qed (rule tier_union_correct; assumption)+

section \<open>What the edges are\<close>

text \<open>The maps of the devices, as the source has them, hold each key once.\<close>

definition wf_links :: "device_list \<Rightarrow> bool" where
  "wf_links ds = list_all (\<lambda>od. case od of None \<Rightarrow> True | Some d \<Rightarrow> distinct (keys (ld_Links d))) ds"

text \<open>The strongest link device i records to device j; 0 when it records none.\<close>

definition strongest :: "device_list \<Rightarrow> nat \<Rightarrow> nat \<Rightarrow> nat" where
  "strongest ds i j = (case ds ! i of None \<Rightarrow> 0 | Some d \<Rightarrow> best_link (links_to d (int j)))"

text \<open>The pairs linked directly at a tier.\<close>

definition tier_pairs :: "device_list \<Rightarrow> link_tier \<Rightarrow> (nat \<times> nat) set" where
  "tier_pairs ds tier = {(i, j). i < j \<and> j < length ds \<and> strongest ds i j \<ge> LinkTierThreshold tier}"

lemma threshold_pos: "0 < LinkTierThreshold tier"
  by (cases tier) (simp_all add: link_type_defs)

lemma best_link_Nil [simp]: "best_link [] = 0"
  by (simp add: best_link_def)

lemma edge_of_iff:
  "(i', j, t) \<in> set (edge_of n i (a, ls)) \<longleftrightarrow>
     i' = i \<and> a = int j \<and> i < j \<and> j < n \<and> t = best_link ls \<and> 0 < t"
  by (auto simp: Let_def link_type_defs)

declare edge_of.simps [simp del]

lemma edges_of_iff:
  "(i', j, t) \<in> set (edges_of n i od) \<longleftrightarrow>
     i' = i \<and> i < j \<and> j < n \<and> (\<exists>d ls. od = Some d \<and> (int j, ls) \<in> set (ld_Links d) \<and> t = best_link ls \<and> 0 < t)"
proof (cases od)
  case (Some d)
  have "(i', j, t) \<in> set (edges_of n i od) \<longleftrightarrow>
      (\<exists>x \<in> set (ld_Links d). (i', j, t) \<in> set (edge_of n i x))"
    using Some by (simp add: edges_of_def)
  also have "\<dots> \<longleftrightarrow> (\<exists>a ls. (a, ls) \<in> set (ld_Links d) \<and> (i', j, t) \<in> set (edge_of n i (a, ls)))" by auto
  finally show ?thesis unfolding edge_of_iff using Some by auto
qed (simp add: edges_of_def)

lemma wf_links_at: "wf_links ds \<Longrightarrow> i < length ds \<Longrightarrow> ds ! i = Some d \<Longrightarrow> distinct (map fst (ld_Links d))"
  by (fastforce simp: wf_links_def list_all_length keys_def)

lemma edge_iff:
  assumes "wf_links ds"
  shows "(i, j, t) \<in> set (tiered_edges ds) \<longleftrightarrow> i < j \<and> j < length ds \<and> t = strongest ds i j \<and> 0 < t"
proof -
  have m: "(k, ls) \<in> set (ld_Links d) \<longleftrightarrow> map_of (ld_Links d) k = Some ls"
    if "ds ! i = Some d" "i < length ds" for d k ls
    using wf_links_at [OF assms that(2,1)] by (metis map_of_eq_Some_iff)
  have "(i, j, t) \<in> set (tiered_edges ds) \<longleftrightarrow> i < j \<and> j < length ds \<and> (\<exists>d ls. ds ! i = Some d \<and>
      map_of (ld_Links d) (int j) = Some ls \<and> t = best_link ls \<and> 0 < t)"
    using m by (auto simp: tiered_edges_def edges_of_iff)
  then show ?thesis by (auto simp: strongest_def links_to_def split: option.splits)
qed

lemma distinct_link_pairs:
  "distinct (map fst ls) \<Longrightarrow> distinct (map (\<lambda>(i, j, t). (i, j)) (concat (map (edge_of n i) ls)))"
proof (induction ls)
  case (Cons x ls)
  obtain a ts where x: "x = (a, ts)" by (cases x)
  have "distinct (map (\<lambda>(i, j, t). (i, j)) (edge_of n i x))" by (simp add: x edge_of.simps Let_def)
  moreover have "(i', j, t') \<notin> set (concat (map (edge_of n i) ls))" if "(i', j, t) \<in> set (edge_of n i x)" for i' j t t'
  proof
    assume "(i', j, t') \<in> set (concat (map (edge_of n i) ls))"
    then obtain b us where "(b, us) \<in> set ls" "(i', j, t') \<in> set (edge_of n i (b, us))" by auto
    then have "int j \<in> fst ` set ls" by (force simp: edge_of_iff)
    moreover have "a = int j" using that by (simp add: x edge_of_iff)
    ultimately show False using Cons.prems by (simp add: x)
  qed
  ultimately show ?case using Cons by (auto)
qed simp

lemma distinct_edge_pairs:
  assumes "wf_links ds"
  shows "distinct (map (\<lambda>(i, j, t). (i, j)) (tiered_edges ds))"
proof -
  have one: "distinct (map (\<lambda>(i, j, t). (i, j)) (edges_of n i (ds ! i)))" if "i < length ds" for i n
  proof (cases "ds ! i")
    case (Some d)
    then have "distinct (map fst (ld_Links d))" using wf_links_at [OF assms that] by simp
    then show ?thesis using distinct_link_pairs Some by (simp add: edges_of_def)
  qed (simp add: edges_of_def)
  have src: "fst e = i" if "e \<in> set (edges_of n i od)" for e n i od
    using that by (metis edges_of_iff prod.collapse)
  have "distinct (map (\<lambda>(i, j, t). (i, j)) (concat (map (\<lambda>i. edges_of n i (ds ! i)) [0..<k])))"
    if "k \<le> length ds" for k n
    using that
  proof (induction k)
    case (Suc k)
    then show ?case using one [of k n] by (auto dest!: src)
  qed simp
  then show ?thesis by (simp add: tiered_edges_def)
qed

section \<open>Every tier's snapshot\<close>

definition edges_at :: "link_tier \<Rightarrow> tiered_edge list \<Rightarrow> (nat \<times> nat) set" where
  "edges_at tier edges = {(i, j). \<exists>t. (i, j, t) \<in> set edges \<and> t \<ge> LinkTierThreshold tier}"

lemma edges_at_mono: "s \<le> t \<Longrightarrow> edges_at s edges \<subseteq> edges_at t edges"
  using threshold_mono by (fastforce simp: edges_at_def)

lemma edges_at_pairs: "wf_links ds \<Longrightarrow> edges_at tier (tiered_edges ds) = tier_pairs ds tier"
  using threshold_pos [of tier] by (auto simp: edges_at_def tier_pairs_def edge_iff)

lemma add_tier_represents:
  assumes "sized.represents n s E" "\<forall>(i, j, t) \<in> set edges. i < n \<and> j < n"
  shows "sized.represents n (add_tier tier edges s) (edges_at tier edges \<union> E)"
proof -
  let ?es = "map (\<lambda>(i, j, t). (i, j)) (filter (\<lambda>(i, j, t). t \<ge> LinkTierThreshold tier) edges)"
  have "add_tier tier edges s = fold (\<lambda>(a, b). tier_union a b) ?es s" for s
    unfolding add_tier_def by (induction edges arbitrary: s) auto
  moreover have "set ?es = edges_at tier edges" by (force simp: edges_at_def)
  moreover have "\<forall>(a, b) \<in> set ?es. a < n \<and> b < n" using assms(2) by auto
  ultimately show ?thesis using sized.represents_merges [OF assms(1), of ?es] by metis
qed

lemma tier_walk_row:
  assumes "\<forall>(i, j, t) \<in> set edges. i < n \<and> j < n"
  shows "sized.represents n s E \<Longrightarrow> sorted tiers \<Longrightarrow> \<forall>t \<in> set tiers. E \<subseteq> edges_at t edges \<Longrightarrow>
    k < length tiers \<Longrightarrow>
    \<exists>sk. sized.represents n sk (edges_at (tiers ! k) edges) \<and>
         tier_walk n edges tiers s ! k =
           (map (rep_of (tu_parent sk)) [0..<n], tu_maxSize sk,
            componentsAreUniform (map (rep_of (tu_parent sk)) [0..<n]) edges n)"
proof (induction tiers arbitrary: s E k)
  case (Cons tier tiers)
  let ?s1 = "add_tier tier edges s"
  have rep1: "sized.represents n ?s1 (edges_at tier edges)"
    using add_tier_represents [OF Cons.prems(1) assms, of tier] Cons.prems(3)
    by (simp add: sup.absorb1)
  then have ok1: "tier_ok n ?s1" by (simp add: sized.represents_def)
  then obtain p where p: "find_all (tu_parent ?s1) [0..<n] = (p, map (rep_of (tu_parent ?s1)) [0..<n])"
    "uf_ok n p" "\<forall>y < n. rep_of p y = rep_of (tu_parent ?s1) y"
    using find_all_correct [of n "tu_parent ?s1" "[0..<n]"] by (auto simp: tier_ok_def)
  have ok2: "tier_ok n (?s1\<lparr>tu_parent := p\<rparr>)"
    using tier_ok_reparent [OF ok1 p(2)] p(3) by simp
  have rep2: "sized.represents n (?s1\<lparr>tu_parent := p\<rparr>) (edges_at tier edges)"
    by (rule sized.represents_cong [OF rep1 ok2]) (simp add: p(3))
  show ?case
  proof (cases k)
    case 0
    then show ?thesis using rep1 p(1) by (intro exI [of _ ?s1]) (simp add: Let_def)
  next
    case (Suc k')
    have "\<forall>t \<in> set tiers. edges_at tier edges \<subseteq> edges_at t edges"
      using Cons.prems(2) edges_at_mono by auto
    from Cons.IH [OF rep2 _ this, of k'] Suc Cons.prems p(1) show ?thesis by (simp add: Let_def)
  qed
qed simp

lemma length_tier_walk [simp]: "length (tier_walk n edges tiers s) = length tiers"
  by (induction tiers arbitrary: s) (auto simp: Let_def split: prod.splits)

lemma nth_concat_rows:
  "\<forall>r \<in> set rows. length r = n \<Longrightarrow> k < length rows \<Longrightarrow> i < n \<Longrightarrow> concat rows ! (k * n + i) = rows ! k ! i"
proof (induction rows arbitrary: k)
  case (Cons r rows)
  then show ?case by (cases k) (simp_all add: nth_append)
qed simp

lemma all_tiers_sorted: "sorted all_tiers"
  by (simp add: all_tiers_def less_eq_link_tier_def)

text \<open>The snapshot of a tier: a union-find state for the pairs linked at that tier.\<close>

lemma compute_snapshot:
  assumes "wf_links ds" "ds \<noteq> []"
  obtains sk where
    "sized.represents (length ds) sk (tier_pairs ds tier)"
    "\<And>i. i < length ds \<Longrightarrow> rootOf (Some (computeTieredComponents ds)) tier (int i) = int (rep_of (tu_parent sk) i)"
    "largest (Some (computeTieredComponents ds)) tier = tu_maxSize sk"
    "isUniform (Some (computeTieredComponents ds)) tier =
       componentsAreUniform (map (rep_of (tu_parent sk)) [0..<length ds]) (tiered_edges ds) (length ds)"
proof -
  let ?n = "length ds"
  let ?es = "tiered_edges ds"
  let ?rows = "tier_walk ?n ?es all_tiers (tier_init ?n)"
  have n: "0 < ?n" using assms(2) by simp
  have es: "\<forall>(i, j, t) \<in> set ?es. i < ?n \<and> j < ?n" using edge_iff [OF assms(1)] by auto
  have row': "\<exists>sk. sized.represents ?n sk (edges_at (all_tiers ! k) ?es) \<and>
         ?rows ! k = (map (rep_of (tu_parent sk)) [0..<?n], tu_maxSize sk,
            componentsAreUniform (map (rep_of (tu_parent sk)) [0..<?n]) ?es ?n)" if "k < length all_tiers" for k
    by (rule tier_walk_row [OF es sized.represents_init [OF n] all_tiers_sorted _ that]) simp
  have len: "length all_tiers = 4" by (simp add: all_tiers_def)
  have rl: "\<forall>r \<in> set (map fst ?rows). length r = ?n"
  proof
    fix r assume "r \<in> set (map fst ?rows)"
    then obtain k where k: "k < length all_tiers" "r = fst (?rows ! k)"
      unfolding in_set_conv_nth by auto
    obtain sk :: tier_uf where "?rows ! k = (map (rep_of (tu_parent sk)) [0..<?n], tu_maxSize sk,
            componentsAreUniform (map (rep_of (tu_parent sk)) [0..<?n]) ?es ?n)"
      using row' [OF k(1)] by blast
    then show "length r = ?n" using k(2) by simp
  qed
  obtain sk where sk: "sized.represents ?n sk (edges_at tier ?es)"
    "?rows ! tier_index tier = (map (rep_of (tu_parent sk)) [0..<?n], tu_maxSize sk,
            componentsAreUniform (map (rep_of (tu_parent sk)) [0..<?n]) ?es ?n)"
    using row' [of "tier_index tier"] tier_index_lt [of tier] len all_tiers_nth [of tier] by auto
  show thesis
  proof (rule that)
    show "sized.represents ?n sk (tier_pairs ds tier)" using sk(1) edges_at_pairs [OF assms(1)] by simp
    show "rootOf (Some (computeTieredComponents ds)) tier (int i) = int (rep_of (tu_parent sk) i)" if "i < ?n" for i
      using that n sk(2) nth_concat_rows [OF rl, of "tier_index tier" i] tier_index_lt [of tier] len
      by (simp add: rootOf_def computeTieredComponents_def Let_def)
    show "largest (Some (computeTieredComponents ds)) tier = tu_maxSize sk"
      using n sk(2) tier_index_lt [of tier] len by (simp add: largest_def computeTieredComponents_def Let_def)
    show "isUniform (Some (computeTieredComponents ds)) tier =
       componentsAreUniform (map (rep_of (tu_parent sk)) [0..<length ds]) (tiered_edges ds) (length ds)"
      using n sk(2) tier_index_lt [of tier] len by (simp add: isUniform_def computeTieredComponents_def Let_def)
  qed
qed

text \<open>
  C15. The components of a tier are its connected components: two devices have the same
  root in the snapshot exactly when the direct links at least as strong as the tier's
  threshold connect them. (The union-find is shared by the tiers and is never reset; no edge of
  a looser tier leaks into a tighter snapshot.)
\<close>

theorem rootOf_connected:
  assumes "wf_links ds" "i < length ds" "j < length ds"
  shows "rootOf (Some (computeTieredComponents ds)) tier (int i) =
         rootOf (Some (computeTieredComponents ds)) tier (int j)
         \<longleftrightarrow> (i, j) \<in> conn (tier_pairs ds tier)"
proof -
  have "ds \<noteq> []" using assms(2) by auto
  then obtain sk where "sized.represents (length ds) sk (tier_pairs ds tier)"
    "\<And>i. i < length ds \<Longrightarrow> rootOf (Some (computeTieredComponents ds)) tier (int i) = int (rep_of (tu_parent sk) i)"
    using compute_snapshot [OF assms(1)] by metis
  then show ?thesis using sized.represents_rep assms(2,3) by auto
qed

definition demo_links :: device_list where
  "demo_links =
     [Some \<lparr>ld_Index = 0, ld_UUID = ''a'', ld_BusID = [], ld_Links = [(1, [5, 7]), (2, [5])]\<rparr>,
      Some \<lparr>ld_Index = 1, ld_UUID = ''b'', ld_BusID = [], ld_Links = [(0, [5, 7]), (2, [5])]\<rparr>,
      Some \<lparr>ld_Index = 2, ld_UUID = ''c'', ld_BusID = [], ld_Links = [(0, [5]), (1, [5])]\<rparr>]"

theorem rootOf_connected_witness:
  "rootOf (Some (computeTieredComponents demo_links)) TierNVLink 0 =
   rootOf (Some (computeTieredComponents demo_links)) TierNVLink 1
   \<longleftrightarrow> (0, 1) \<in> conn (tier_pairs demo_links TierNVLink)"
  using rootOf_connected [of demo_links 0 1 TierNVLink]
  by (simp add: demo_links_def wf_links_def keys_def)

definition component_size :: "device_list \<Rightarrow> link_tier \<Rightarrow> nat \<Rightarrow> nat" where
  "component_size ds tier i = card {j. j < length ds \<and> (i, j) \<in> conn (tier_pairs ds tier)}"

lemma tier_pairs_mono: "s \<le> t \<Longrightarrow> tier_pairs ds s \<subseteq> tier_pairs ds t"
  using threshold_mono by (fastforce simp: tier_pairs_def)

lemma component_size_mono: "s \<le> t \<Longrightarrow> component_size ds s i \<le> component_size ds t i"
  unfolding component_size_def
  by (rule card_mono) (use conn_mono [OF tier_pairs_mono] in auto)

lemma largest_component_size:
  assumes "wf_links ds" "ds \<noteq> []"
  shows "\<forall>i < length ds. component_size ds tier i \<le> largest (Some (computeTieredComponents ds)) tier"
    and "\<exists>i < length ds. component_size ds tier i = largest (Some (computeTieredComponents ds)) tier"
proof -
  obtain sk where sk: "sized.represents (length ds) sk (tier_pairs ds tier)"
    "largest (Some (computeTieredComponents ds)) tier = tu_maxSize sk"
    using compute_snapshot [OF assms] by metis
  then have "cls (length ds) (tu_parent sk) (rep_of (tu_parent sk) i)
      = {j. j < length ds \<and> (i, j) \<in> conn (tier_pairs ds tier)}" if "i < length ds" for i
    using that sized.represents_rep [OF sk(1)] by (auto simp: cls_def intro: conn_sym)
  moreover have "tier_ok (length ds) sk" using sk(1) by (simp add: sized.represents_def)
  ultimately show "\<forall>i < length ds. component_size ds tier i \<le> largest (Some (computeTieredComponents ds)) tier"
    "\<exists>i < length ds. component_size ds tier i = largest (Some (computeTieredComponents ds)) tier"
    using sk(2) by (auto simp: tier_ok_def component_size_def)
qed

text \<open>
  C16. The tiers are nested: devices in one component at a tier are in one component at every
  looser tier, and the largest component of a tier is no larger than that of a looser one.
\<close>

theorem tiers_nested:
  assumes "wf_links ds" "s \<le> t" "i < length ds" "j < length ds"
    and "rootOf (Some (computeTieredComponents ds)) s (int i) = rootOf (Some (computeTieredComponents ds)) s (int j)"
  shows "rootOf (Some (computeTieredComponents ds)) t (int i) = rootOf (Some (computeTieredComponents ds)) t (int j)
     \<and> largest (Some (computeTieredComponents ds)) s \<le> largest (Some (computeTieredComponents ds)) t"
proof
  have ne: "ds \<noteq> []" using assms(3) by auto
  have conn: "rootOf (Some (computeTieredComponents ds)) u (int i) = rootOf (Some (computeTieredComponents ds)) u (int j)
      \<longleftrightarrow> (i, j) \<in> conn (tier_pairs ds u)" for u
  proof -
    obtain sk where "sized.represents (length ds) sk (tier_pairs ds u)"
      "\<And>i. i < length ds \<Longrightarrow> rootOf (Some (computeTieredComponents ds)) u (int i) = int (rep_of (tu_parent sk) i)"
      using compute_snapshot [OF assms(1) ne] by metis
    then show ?thesis using sized.represents_rep assms(3,4) by auto
  qed
  show "rootOf (Some (computeTieredComponents ds)) t (int i) = rootOf (Some (computeTieredComponents ds)) t (int j)"
    using assms(5) conn_mono [OF tier_pairs_mono [OF assms(2)]] unfolding conn by blast
  obtain k where "k < length ds" "component_size ds s k = largest (Some (computeTieredComponents ds)) s"
    using largest_component_size(2) [OF assms(1) ne] by blast
  then show "largest (Some (computeTieredComponents ds)) s \<le> largest (Some (computeTieredComponents ds)) t"
    using component_size_mono [OF assms(2), of ds k] largest_component_size(1) [OF assms(1) ne, of t] by fastforce
qed

lemma uf_find_at_root: "p ! x = x \<Longrightarrow> uf_find p x = (p, x)"
  by (simp add: uf_find_def find_loop.simps)

theorem tiers_nested_witness:
  "rootOf (Some (computeTieredComponents demo_links)) TierAny 0 = rootOf (Some (computeTieredComponents demo_links)) TierAny 0
   \<and> largest (Some (computeTieredComponents demo_links)) TierNVLink \<le> largest (Some (computeTieredComponents demo_links)) TierAny"
  using tiers_nested [of demo_links TierNVLink TierAny 0 0]
  by (simp add: demo_links_def wf_links_def keys_def less_eq_link_tier_def)

text \<open>
  C17. The largest component: \<^verbatim>\<open>largest\<close> is the maximum over the devices of the number of
  devices connected to it at the tier.
\<close>

theorem largest_is_max:
  assumes "wf_links ds" "ds \<noteq> []"
  shows "largest (Some (computeTieredComponents ds)) tier = Max (component_size ds tier ` {..<length ds})"
  using largest_component_size [OF assms, of tier] by (intro Max_eqI [symmetric]) (auto simp: image_iff Bex_def)

theorem largest_is_max_witness:
  "largest (Some (computeTieredComponents demo_links)) TierSwitch
   = Max (component_size demo_links TierSwitch ` {..<length demo_links})"
  by (rule largest_is_max) (simp_all add: demo_links_def wf_links_def keys_def)

section \<open>Uniform components\<close>

text \<open>The pairs of a component, and the edges within it.\<close>

definition inner_pairs :: "nat list \<Rightarrow> nat \<Rightarrow> nat \<Rightarrow> (nat \<times> nat) set" where
  "inner_pairs roots n r = {(i, j). i < j \<and> j < n \<and> roots ! i = r \<and> roots ! j = r}"

lemma card_increasing_pairs:
  "finite (A :: nat set) \<Longrightarrow> card {(i, j). i \<in> A \<and> j \<in> A \<and> i < j} = card A * (card A - 1) div 2"
proof (induction rule: finite_linorder_max_induct)
  case (insert b A)
  have "b \<notin> A" using insert(2) by auto
  have "{(i, j). i \<in> insert b A \<and> j \<in> insert b A \<and> i < j}
      = {(i, j). i \<in> A \<and> j \<in> A \<and> i < j} \<union> (\<lambda>i. (i, b)) ` A" (is "_ = ?P \<union> ?Q")
    using insert(2) by auto
  moreover have "finite ?P" by (rule finite_subset [of _ "A \<times> A"]) (use insert(1) in auto)
  moreover have "?P \<inter> ?Q = {}" using \<open>b \<notin> A\<close> by auto
  moreover have "card ?Q = card A" by (rule card_image) (auto simp: inj_on_def)
  ultimately have "card {(i, j). i \<in> insert b A \<and> j \<in> insert b A \<and> i < j} = card A * (card A - 1) div 2 + card A"
    using insert by (simp add: card_Un_disjoint)
  also have "\<dots> = Suc (card A) * card A div 2" by (cases "card A") auto
  finally show ?case using insert(1) \<open>b \<notin> A\<close> by simp
qed simp

definition consistent :: "nat list \<Rightarrow> tiered_edge list \<Rightarrow> (nat \<rightharpoonup> nat) \<Rightarrow> bool" where
  "consistent roots es lt \<longleftrightarrow>
     (\<exists>ty. (\<forall>r t. lt r = Some t \<longrightarrow> ty r = t) \<and>
           (\<forall>(i, j, t) \<in> set es. roots ! i = roots ! j \<longrightarrow> t = ty (roots ! i)))"

definition inner_count :: "nat list \<Rightarrow> tiered_edge list \<Rightarrow> nat \<Rightarrow> nat" where
  "inner_count roots es r = length (filter (\<lambda>(i, j, t). roots ! i = r \<and> roots ! j = r) es)"

lemma uniform_edges_eq:
  "uniform_edges roots es lt seen =
     (if consistent roots es lt then Some (\<lambda>r. seen r + inner_count roots es r) else None)"
proof (induction es arbitrary: lt seen)
  case Nil
  have "consistent roots [] lt" by (auto simp: consistent_def intro: exI [of _ "\<lambda>r. the (lt r)"])
  then show ?case by (simp add: inner_count_def)
next
  case (Cons e es)
  obtain i j t where e: "e = (i, j, t)" by (cases e)
  show ?case
  proof (cases "roots ! i = roots ! j")
    case False
    then have "consistent roots (e # es) lt \<longleftrightarrow> consistent roots es lt"
      by (simp add: consistent_def e)
    moreover have "inner_count roots (e # es) r = inner_count roots es r" for r
      using False by (auto simp: inner_count_def e)
    ultimately show ?thesis using False Cons.IH by (simp add: e)
  next
    case True
    let ?r = "roots ! j"
    have cnt: "(seen(?r := seen ?r + 1)) r + inner_count roots es r = seen r + inner_count roots (e # es) r" for r
      using True by (simp add: inner_count_def e)
    show ?thesis
    proof (cases "lt ?r")
      case None
      have "(\<forall>r t'. (lt(?r \<mapsto> t)) r = Some t' \<longrightarrow> ty r = t') \<longleftrightarrow>
          (\<forall>r t'. lt r = Some t' \<longrightarrow> ty r = t') \<and> t = ty ?r" (is "?A ty \<longleftrightarrow> ?B ty") for ty
      proof
        assume A: "?A ty"
        have "lt r = Some t' \<longrightarrow> ty r = t'" for r t'
          using A [rule_format, of r t'] None by (cases "r = ?r") auto
        moreover have "t = ty ?r" using A [rule_format, of ?r t] by simp
        ultimately show "?B ty" by blast
      qed auto
      then have "consistent roots (e # es) lt \<longleftrightarrow> consistent roots es (lt(?r \<mapsto> t))"
        unfolding consistent_def e by (simp add: True conj_assoc)
      moreover have "uniform_edges roots (e # es) lt seen =
          uniform_edges roots es (lt(?r \<mapsto> t)) (seen(?r := seen ?r + 1))"
        using True None by (simp add: e Let_def)
      ultimately show ?thesis unfolding Cons.IH cnt by (simp only:)
    next
      case (Some t')
      have "consistent roots (e # es) lt \<longleftrightarrow> t' = t \<and> consistent roots es lt"
        using True Some by (auto simp: consistent_def e)
      moreover have "uniform_edges roots (e # es) lt seen =
          (if t' \<noteq> t then None else uniform_edges roots es lt (seen(?r := seen ?r + 1)))"
        using True Some by (simp add: e Let_def)
      ultimately show ?thesis unfolding Cons.IH cnt by simp
    qed
  qed
qed

definition inner_edges :: "nat list \<Rightarrow> tiered_edge list \<Rightarrow> nat \<Rightarrow> (nat \<times> nat) set" where
  "inner_edges roots es r = {(i, j). \<exists>t. (i, j, t) \<in> set es \<and> roots ! i = r \<and> roots ! j = r}"

lemma inner_count_card:
  assumes "distinct (map (\<lambda>(i, j, t). (i, j)) es)"
  shows "inner_count roots es r = card (inner_edges roots es r)"
proof -
  let ?f = "filter (\<lambda>(i, j, t). roots ! i = r \<and> roots ! j = r) es"
  have "inner_edges roots es r = set (map (\<lambda>(i, j, t). (i, j)) ?f)"
    by (force simp: inner_edges_def)
  moreover have "distinct (map (\<lambda>(i, j, t). (i, j)) ?f)" using assms by (rule distinct_map_filter)
  ultimately show ?thesis using distinct_card [of "map (\<lambda>(i, j, t). (i, j)) ?f"] by (simp add: inner_count_def)
qed

lemma count_list_card: "count_list xs r = card {i. i < length xs \<and> xs ! i = r}"
proof (induction xs rule: rev_induct)
  case (snoc x xs)
  have "{i. i < length (xs @ [x]) \<and> (xs @ [x]) ! i = r}
      = {i. i < length xs \<and> xs ! i = r} \<union> (if x = r then {length xs} else {})"
    by (auto simp: nth_append less_Suc_eq split: if_splits)
  then show ?case using snoc by (auto simp: card_Un_disjoint)
qed simp

lemma card_inner_pairs:
  assumes "length roots = n"
  shows "card (inner_pairs roots n r) = count_list roots r * (count_list roots r - 1) div 2"
proof -
  have "inner_pairs roots n r = {(i, j). i \<in> {i. i < n \<and> roots ! i = r} \<and> j \<in> {i. i < n \<and> roots ! i = r} \<and> i < j}"
    by (auto simp: inner_pairs_def)
  then show ?thesis using card_increasing_pairs [of "{i. i < n \<and> roots ! i = r}"] assms
    by (simp add: count_list_card)
qed

lemma finite_inner_pairs [simp]: "finite (inner_pairs roots n r)"
  by (rule finite_subset [of _ "{..<n} \<times> {..<n}"]) (auto simp: inner_pairs_def)

lemma componentsAreUniform_iff:
  assumes "length roots = n" "distinct (map (\<lambda>(i, j, t). (i, j)) es)" "\<forall>(i, j, t) \<in> set es. i < j \<and> j < n"
  shows "componentsAreUniform roots es n \<longleftrightarrow>
    (\<exists>ty. \<forall>i j. i < j \<longrightarrow> j < n \<longrightarrow> roots ! i = roots ! j \<longrightarrow> (i, j, ty (roots ! i)) \<in> set es)"
proof -
  have sub: "inner_edges roots es r \<subseteq> inner_pairs roots n r" for r
    using assms(3) by (auto simp: inner_edges_def inner_pairs_def)
  have full: "\<not> (count_list roots r > 1 \<and> inner_count roots es r \<noteq> count_list roots r * (count_list roots r - 1) div 2)
      \<longleftrightarrow> inner_edges roots es r = inner_pairs roots n r" for r
  proof (cases "count_list roots r > 1")
    case True
    have "card (inner_edges roots es r) = card (inner_pairs roots n r)
        \<longleftrightarrow> inner_edges roots es r = inner_pairs roots n r"
      using card_subset_eq [OF finite_inner_pairs sub] by metis
    then show ?thesis
      unfolding inner_count_card [OF assms(2)] card_inner_pairs [OF assms(1), symmetric]
      using True by simp
  next
    case False
    then have "count_list roots r = 0 \<or> count_list roots r = 1" by auto
    then have "card (inner_pairs roots n r) = 0" using card_inner_pairs [OF assms(1), of r] by auto
    then show ?thesis using False sub [of r] by simp
  qed
  have "componentsAreUniform roots es n \<longleftrightarrow>
      consistent roots es Map.empty \<and> (\<forall>r \<in> set roots. inner_edges roots es r = inner_pairs roots n r)"
    using full assms(1) by (auto simp: componentsAreUniform_def Let_def uniform_edges_eq list_all_iff)
  also have "\<dots> \<longleftrightarrow> (\<exists>ty. \<forall>i j. i < j \<longrightarrow> j < n \<longrightarrow> roots ! i = roots ! j \<longrightarrow> (i, j, ty (roots ! i)) \<in> set es)"
    (is "?l \<longleftrightarrow> ?r")
  proof
    assume l: ?l
    then obtain ty where ty: "\<forall>(i, j, t) \<in> set es. roots ! i = roots ! j \<longrightarrow> t = ty (roots ! i)"
      by (auto simp: consistent_def)
    have "(i, j, ty (roots ! i)) \<in> set es" if "i < j" "j < n" "roots ! i = roots ! j" for i j
    proof -
      have "(i, j) \<in> inner_pairs roots n (roots ! i)" using that by (simp add: inner_pairs_def)
      moreover have "roots ! i \<in> set roots" using that assms(1) by simp
      ultimately obtain t where "(i, j, t) \<in> set es" using l by (fastforce simp: inner_edges_def)
      then show ?thesis using ty that(3) by fastforce
    qed
    then show ?r by blast
  next
    assume ?r
    then obtain ty where ty: "\<And>i j. i < j \<Longrightarrow> j < n \<Longrightarrow> roots ! i = roots ! j \<Longrightarrow> (i, j, ty (roots ! i)) \<in> set es"
      by blast
    have "t = ty (roots ! i)" if "(i, j, t) \<in> set es" "roots ! i = roots ! j" for i j t
    proof -
      have "(i, j, ty (roots ! i)) \<in> set es" using ty that assms(3) by fastforce
      then have "(i, j, t) = (i, j, ty (roots ! i))"
        using that(1) assms(2) inj_onD [of "\<lambda>(i, j, t). (i, j)" "set es" "(i, j, t)" "(i, j, ty (roots ! i))"]
        by (simp add: distinct_map)
      then show ?thesis by simp
    qed
    then have "consistent roots es Map.empty" unfolding consistent_def by fastforce
    moreover have "inner_pairs roots n r \<subseteq> inner_edges roots es r" for r
      using ty by (fastforce simp: inner_pairs_def inner_edges_def)
    ultimately show ?l using sub by blast
  qed
  finally show ?thesis .
qed

lemma tier_pairs_strongest:
  assumes "(i, j) \<in> conn (tier_pairs ds tier)" "i \<noteq> j"
  obtains k where "(i, k) \<in> tier_pairs ds tier \<or> (k, i) \<in> tier_pairs ds tier" "(i, k) \<in> conn (tier_pairs ds tier)"
proof -
  obtain k where "(i, k) \<in> tier_pairs ds tier \<union> (tier_pairs ds tier)\<inverse>"
    using assms unfolding conn_def by (metis converse_rtranclE)
  moreover from this have "(i, k) \<in> conn (tier_pairs ds tier)" unfolding conn_def by blast
  ultimately show thesis using that by blast
qed

text \<open>
  C18. Uniform tiers. A tier is reported uniform exactly when, inside each of its components,
  all pairs of devices are linked directly and by the same strongest link; the link is then
  at least as strong as the tier's threshold. A pair connected only through others makes the
  tier non-uniform.
\<close>

theorem isUniform_iff:
  assumes "wf_links ds" "ds \<noteq> []"
  shows "isUniform (Some (computeTieredComponents ds)) tier \<longleftrightarrow>
    (\<forall>i j k l. i < j \<and> j < length ds \<and> k < l \<and> l < length ds \<and>
       (i, j) \<in> conn (tier_pairs ds tier) \<and> (k, l) \<in> conn (tier_pairs ds tier) \<and> (i, k) \<in> conn (tier_pairs ds tier)
       \<longrightarrow> strongest ds i j = strongest ds k l \<and> strongest ds i j \<ge> LinkTierThreshold tier)"
    (is "_ \<longleftrightarrow> ?R")
proof -
  let ?n = "length ds" and ?C = "conn (tier_pairs ds tier)"
  obtain sk where sk: "sized.represents ?n sk (tier_pairs ds tier)"
    "isUniform (Some (computeTieredComponents ds)) tier =
       componentsAreUniform (map (rep_of (tu_parent sk)) [0..<?n]) (tiered_edges ds) ?n"
    using compute_snapshot [OF assms] by metis
  define rt where "rt = rep_of (tu_parent sk)"
  have same: "rt i = rt j \<longleftrightarrow> (i, j) \<in> ?C" if "i < ?n" "j < ?n" for i j
    using sized.represents_rep [OF sk(1) that] by (simp add: rt_def)
  have U: "isUniform (Some (computeTieredComponents ds)) tier \<longleftrightarrow>
      (\<exists>ty. \<forall>i j. i < j \<longrightarrow> j < ?n \<longrightarrow> (i, j) \<in> ?C \<longrightarrow> strongest ds i j = ty (rt i) \<and> 0 < strongest ds i j)"
  proof -
    let ?rs = "map rt [0..<?n]"
    have "componentsAreUniform ?rs (tiered_edges ds) ?n \<longleftrightarrow>
        (\<exists>ty. \<forall>i j. i < j \<longrightarrow> j < ?n \<longrightarrow> ?rs ! i = ?rs ! j \<longrightarrow> (i, j, ty (?rs ! i)) \<in> set (tiered_edges ds))"
      by (rule componentsAreUniform_iff)
        (auto simp: distinct_edge_pairs [OF assms(1)] edge_iff [OF assms(1)])
    moreover have "(i < j \<longrightarrow> j < ?n \<longrightarrow> ?rs ! i = ?rs ! j \<longrightarrow> (i, j, ty (?rs ! i)) \<in> set (tiered_edges ds)) \<longleftrightarrow>
        (i < j \<longrightarrow> j < ?n \<longrightarrow> (i, j) \<in> ?C \<longrightarrow> strongest ds i j = ty (rt i) \<and> 0 < strongest ds i j)" for ty i j
      by (auto simp: edge_iff [OF assms(1)] same)
    ultimately show ?thesis unfolding sk(2) rt_def [symmetric] by (simp only:)
  qed
  show ?thesis
  proof
    assume "isUniform (Some (computeTieredComponents ds)) tier"
    then obtain ty where ty: "\<And>i j. i < j \<Longrightarrow> j < ?n \<Longrightarrow> (i, j) \<in> ?C \<Longrightarrow> strongest ds i j = ty (rt i)"
      unfolding U by blast
    show ?R
    proof (intro allI impI, elim conjE)
      fix i j k l
      assume a: "i < j" "j < ?n" "k < l" "l < ?n" "(i, j) \<in> ?C" "(k, l) \<in> ?C" "(i, k) \<in> ?C"
      obtain m where m: "(i, m) \<in> tier_pairs ds tier \<or> (m, i) \<in> tier_pairs ds tier" "(i, m) \<in> ?C"
        using tier_pairs_strongest [OF a(5)] a(1) by auto
      have "LinkTierThreshold tier \<le> ty (rt i)"
        using m
      proof (elim disjE)
        assume "(i, m) \<in> tier_pairs ds tier"
        then show ?thesis using ty [of i m] m(2) by (auto simp: tier_pairs_def)
      next
        assume "(m, i) \<in> tier_pairs ds tier"
        then show ?thesis using ty [of m i] conn_sym [OF m(2)] same [of m i] by (auto simp: tier_pairs_def)
      qed
      then show "strongest ds i j = strongest ds k l \<and> strongest ds i j \<ge> LinkTierThreshold tier"
        using ty [OF a(1,2,5)] ty [OF a(3,4,6)] same [of i k] a by simp
    qed
  next
    assume R: ?R
    define ty where "ty r = (let (i, j) = (SOME (i, j). i < j \<and> j < ?n \<and> (i, j) \<in> ?C \<and> rt i = r) in strongest ds i j)" for r
    have "strongest ds i j = ty (rt i) \<and> 0 < strongest ds i j" if ij: "i < j" "j < ?n" "(i, j) \<in> ?C" for i j
    proof -
      obtain k l where kl: "(SOME (a, b). a < b \<and> b < ?n \<and> (a, b) \<in> ?C \<and> rt a = rt i) = (k, l)"
        "k < l" "l < ?n" "(k, l) \<in> ?C" "rt k = rt i"
        using ij someI [of "\<lambda>(a, b). a < b \<and> b < ?n \<and> (a, b) \<in> ?C \<and> rt a = rt i" "(i, j)"]
        by (cases "SOME (a, b). a < b \<and> b < ?n \<and> (a, b) \<in> ?C \<and> rt a = rt i") auto
      have "(i, k) \<in> ?C" using kl same [of i k] ij by simp
      then have "strongest ds i j = strongest ds k l \<and> LinkTierThreshold tier \<le> strongest ds i j"
        using R ij kl by blast
      then show ?thesis using kl(1) threshold_pos [of tier] by (simp add: ty_def)
    qed
    then show "isUniform (Some (computeTieredComponents ds)) tier" unfolding U by blast
  qed
qed

theorem isUniform_iff_witness:
  "isUniform (Some (computeTieredComponents demo_links)) TierSwitch \<longleftrightarrow>
    (\<forall>i j k l. i < j \<and> j < length demo_links \<and> k < l \<and> l < length demo_links \<and>
       (i, j) \<in> conn (tier_pairs demo_links TierSwitch) \<and> (k, l) \<in> conn (tier_pairs demo_links TierSwitch) \<and>
       (i, k) \<in> conn (tier_pairs demo_links TierSwitch)
       \<longrightarrow> strongest demo_links i j = strongest demo_links k l \<and>
           strongest demo_links i j \<ge> LinkTierThreshold TierSwitch)"
  by (rule isUniform_iff) (simp_all add: demo_links_def wf_links_def keys_def)

end
