(* ===== verification/Lifecycle.thy ===== *)
theory Lifecycle
  imports Prelude "HOL-Library.Sublist"
begin

text \<open>
  The lifecycle rule the accounting shares. Sequential init containers run alone before the main
  phase, sidecars run all the time, the other containers run together in the main phase. The
  peak of a resource is what the sidecars take plus the larger of the main phase and of the
  heaviest sequential container. The locale states when a classification into these groups is
  one, and shows that the formula is the exact maximum over the sets that can run at one moment.
\<close>

definition can_overlap :: "('a \<Rightarrow> bool) \<Rightarrow> ('a \<Rightarrow> bool) \<Rightarrow> 'a list \<Rightarrow> bool" where
  "can_overlap seq side run \<longleftrightarrow>
     filter seq run = [] \<or> (length (filter seq run) = 1 \<and> filter (\<lambda>x. \<not> seq x \<and> \<not> side x) run = [])"

definition lifecycle_peak :: "('a \<Rightarrow> bool) \<Rightarrow> ('a \<Rightarrow> bool) \<Rightarrow> ('a \<Rightarrow> int) \<Rightarrow> 'a list \<Rightarrow> int" where
  "lifecycle_peak seq side w xs =
     sum_list (map w (filter side xs)) +
     max (sum_list (map w (filter (\<lambda>x. \<not> seq x \<and> \<not> side x) xs))) (foldl max 0 (map w (filter seq xs)))"

lemma foldl_max_cases: "foldl max b xs = b \<or> foldl max b xs \<in> set xs" for b :: int
  by (induction xs rule: rev_induct) (auto simp: max_def)

lemma foldl_max_upper: "x \<in> set xs \<Longrightarrow> x \<le> foldl max b xs" for b :: int
  by (induction xs rule: rev_induct) auto

lemma foldl_max_start: "b \<le> foldl max b xs" for b :: int
  by (induction xs rule: rev_induct) auto

lemma sum_map_nonneg: "\<forall>x \<in> set xs. 0 \<le> w x \<Longrightarrow> 0 \<le> sum_list (map w xs)" for w :: "'a \<Rightarrow> int"
  by (induction xs) auto

lemma sum_subseq_le:
  "subseq ys xs \<Longrightarrow> \<forall>x \<in> set xs. 0 \<le> w x \<Longrightarrow> sum_list (map w ys) \<le> sum_list (map w xs)" for w :: "'a \<Rightarrow> int"
proof (induction rule: list_emb.induct)
  case (list_emb_Nil xs)
  then show ?case by (simp add: sum_map_nonneg)
qed auto

lemma foldl_max_le_sum:
  "\<forall>x \<in> set xs. 0 \<le> w x \<Longrightarrow> foldl max 0 (map w xs) \<le> sum_list (map w xs)" for w :: "'a \<Rightarrow> int"
proof (induction xs rule: rev_induct)
  case (snoc x xs)
  then show ?case using sum_map_nonneg [of xs w] by auto
qed simp

text \<open>The peak is monotone in the weights, and the peak of a sum is at most the sum of the peaks.\<close>

lemma foldl_max_mono:
  "\<forall>x \<in> set xs. w x \<le> v x \<Longrightarrow> foldl max 0 (map w xs) \<le> foldl max 0 (map v xs)" for w v :: "'a \<Rightarrow> int"
  by (induction xs rule: rev_induct) auto

lemma foldl_max_add:
  "foldl max 0 (map (\<lambda>x. w x + v x) xs) \<le> foldl max 0 (map w xs) + foldl max 0 (map v xs)" for w v :: "'a \<Rightarrow> int"
proof (induction xs rule: rev_induct)
  case (snoc x xs)
  then show ?case using foldl_max_start [of 0 "map w xs"] foldl_max_start [of 0 "map v xs"] by auto
qed simp

lemma peak_mono:
  assumes "\<forall>x \<in> set xs. w x \<le> v x"
  shows "lifecycle_peak seq side w xs \<le> lifecycle_peak seq side v xs"
proof -
  have "sum_list (map w (filter P xs)) \<le> sum_list (map v (filter P xs))" for P using assms by (intro sum_list_mono) auto
  moreover have "foldl max 0 (map w (filter seq xs)) \<le> foldl max 0 (map v (filter seq xs))"
    using assms by (intro foldl_max_mono) auto
  ultimately show ?thesis unfolding lifecycle_peak_def by (intro add_mono max.mono)
qed

lemma peak_add:
  "lifecycle_peak seq side (\<lambda>x. w x + v x) xs \<le> lifecycle_peak seq side w xs + lifecycle_peak seq side v xs"
  using foldl_max_add [of w v "filter seq xs"] by (simp add: lifecycle_peak_def sum_list_addf max_def)

lemma peak_sum_list:
  "lifecycle_peak seq side (\<lambda>x. \<Sum>d \<leftarrow> ds. w d x) xs \<le> (\<Sum>d \<leftarrow> ds. lifecycle_peak seq side (w d) xs)"
proof (induction ds)
  case Nil
  have "foldl max 0 (map (\<lambda>x. 0) ys) = (0 :: int)" for ys :: "'a list" by (induction ys) auto
  then show ?case by (simp add: lifecycle_peak_def map_replicate_const sum_list_replicate)
next
  case (Cons d ds)
  then show ?case using peak_add [of seq side "w d" "\<lambda>x. \<Sum>d \<leftarrow> ds. w d x" xs] by simp
qed

locale lifecycle =
  fixes seq side :: "'a \<Rightarrow> bool"
  assumes apart: "seq x \<Longrightarrow> \<not> side x"
begin

lemma sum_groups:
  "sum_list (map w xs) = sum_list (map w (filter side xs)) +
     sum_list (map w (filter (\<lambda>x. \<not> seq x \<and> \<not> side x) xs)) + sum_list (map w (filter seq xs))" for w :: "'a \<Rightarrow> int"
  by (induction xs) (auto simp: apart)

lemma peak_range:
  assumes "\<forall>x \<in> set xs. 0 \<le> w x"
  shows "0 \<le> lifecycle_peak seq side w xs" "lifecycle_peak seq side w xs \<le> sum_list (map w xs)"
proof -
  have nn: "0 \<le> sum_list (map w (filter P xs))" for P using assms by (intro sum_list_nonneg) auto
  have m: "0 \<le> foldl max 0 (map w (filter seq xs))" by (rule foldl_max_start)
  show "0 \<le> lifecycle_peak seq side w xs" using nn m by (simp add: lifecycle_peak_def)
  have "foldl max 0 (map w (filter seq xs)) \<le> sum_list (map w (filter seq xs))"
    using assms by (intro foldl_max_le_sum) auto
  then show "lifecycle_peak seq side w xs \<le> sum_list (map w xs)"
    using sum_groups [of w xs] nn [of seq] nn [of "\<lambda>x. \<not> seq x \<and> \<not> side x"] m by (simp add: lifecycle_peak_def max_def)
qed

lemma peak_covers:
  assumes nn: "\<forall>x \<in> set xs. 0 \<le> w x" and sub: "subseq run xs" and ov: "can_overlap seq side run"
  shows "sum_list (map w run) \<le> lifecycle_peak seq side w xs"
proof -
  have le: "sum_list (map w (filter P run)) \<le> sum_list (map w (filter P xs))" for P
    using sum_subseq_le [OF subseq_filter [OF sub, of P], of w] nn by auto
  show ?thesis
  proof (cases "filter seq run = []")
    case True
    then show ?thesis
      using le [of side] le [of "\<lambda>x. \<not> seq x \<and> \<not> side x"] sum_groups [of w run] by (simp add: lifecycle_peak_def)
  next
    case False
    then obtain x where x: "filter seq run = [x]" and rg: "filter (\<lambda>x. \<not> seq x \<and> \<not> side x) run = []"
      using ov by (auto simp: can_overlap_def length_Suc_conv)
    have "x \<in> set (filter seq run)" using x by simp
    then have "x \<in> set (filter seq xs)" using sub by (auto dest: list_emb_set)
    then have "w x \<le> foldl max 0 (map w (filter seq xs))" by (intro foldl_max_upper) auto
    then show ?thesis using x rg le [of side] sum_groups [of w run] by (simp add: lifecycle_peak_def)
  qed
qed

lemma peak_attained:
  assumes nn: "\<forall>x \<in> set xs. 0 \<le> w x"
  shows "\<exists>run. subseq run xs \<and> can_overlap seq side run \<and> sum_list (map w run) = lifecycle_peak seq side w xs"
proof (cases "foldl max 0 (map w (filter seq xs)) \<le> sum_list (map w (filter (\<lambda>x. \<not> seq x \<and> \<not> side x) xs))")
  case True
  let ?run = "filter (\<lambda>x. \<not> seq x) xs"
  have "filter side ?run = filter side xs"
    "filter (\<lambda>x. \<not> seq x \<and> \<not> side x) ?run = filter (\<lambda>x. \<not> seq x \<and> \<not> side x) xs" "filter seq ?run = []"
    by (induction xs) (auto simp: apart)
  then show ?thesis
    using True sum_groups [of w ?run]
    by (intro exI [of _ ?run]) (simp add: can_overlap_def lifecycle_peak_def max_def)
next
  case False
  have "0 \<le> sum_list (map w (filter (\<lambda>x. \<not> seq x \<and> \<not> side x) xs))" using nn by (intro sum_list_nonneg) auto
  then obtain x where x: "x \<in> set (filter seq xs)" "foldl max 0 (map w (filter seq xs)) = w x"
    using False foldl_max_cases [of 0 "map w (filter seq xs)"] by auto
  then have s: "seq x" "\<not> side x" using apart by auto
  from x obtain ys zs where xs: "xs = ys @ x # zs" by (auto dest: split_list)
  let ?run = "filter side ys @ x # filter side zs"
  have "subseq ?run xs" unfolding xs by (intro list_emb_append_mono subseq_Cons2) simp_all
  moreover have "filter seq (filter side ys) = []" "filter seq (filter side zs) = []"
    by (auto simp: filter_empty_conv dest: apart)
  then have "filter seq ?run = [x]" using s by simp
  moreover have "filter (\<lambda>x. \<not> seq x \<and> \<not> side x) ?run = []" using s by (auto simp: filter_empty_conv)
  moreover have "filter side xs = filter side ys @ filter side zs" using s by (simp add: xs)
  ultimately show ?thesis using False x(2)
    by (intro exI [of _ ?run]) (simp add: can_overlap_def lifecycle_peak_def max_def)
qed

end

end
