(* ===== verification/Footprint.thy ===== *)
theory Footprint
  imports Device Lifecycle
begin

text \<open>
  The peak a pod occupies on each GPU over its life (\<^verbatim>\<open>ReducePodFootprint\<close> of
  \<^verbatim>\<open>pkg/device/types.go\<close>): regular containers and sidecars run together, sequential init
  containers one at a time before them. The maps are keyed by the GPU's uuid. The theorems
  relate the reduced footprint to the sets of containers that can run at the same time.
\<close>

section \<open>Footprints\<close>

record pod_footprint =
  fp_Id :: int
  fp_Uuid :: string
  fp_Number :: int
  fp_Cores :: int
  fp_Memory :: int

text \<open>The zero value a Go map returns for an absent key.\<close>

definition zero_fp :: pod_footprint where
  "zero_fp = \<lparr>fp_Id = 0, fp_Uuid = [], fp_Number = 0, fp_Cores = 0, fp_Memory = 0\<rparr>"

type_synonym fp_map = "(string, pod_footprint) gomap"

definition fp_get :: "fp_map \<Rightarrow> string \<Rightarrow> pod_footprint" where
  "fp_get m u = (case map_of m u of None \<Rightarrow> zero_fp | Some f \<Rightarrow> f)"

definition sumClaimFootprint :: "fp_map \<Rightarrow> device_claim \<Rightarrow> fp_map" where
  "sumClaimFootprint m claim =
     (let f = fp_get m (dc_Uuid claim) in
      AList.update (dc_Uuid claim)
        (f\<lparr>fp_Id := dc_Id claim, fp_Uuid := dc_Uuid claim,
           fp_Number := i64 (fp_Number f + 1),
           fp_Cores := i64 (fp_Cores f + dc_Cores claim),
           fp_Memory := i64 (fp_Memory f + dc_Memory claim)\<rparr>) m)"

definition maxFootprintInto :: "fp_map \<Rightarrow> pod_footprint \<Rightarrow> fp_map" where
  "maxFootprintInto m pf =
     (let f = (case map_of m (fp_Uuid pf) of
                 None \<Rightarrow> zero_fp\<lparr>fp_Id := fp_Id pf, fp_Uuid := fp_Uuid pf\<rparr>
               | Some f \<Rightarrow> f) in
      AList.update (fp_Uuid pf)
        (f\<lparr>fp_Number := max (fp_Number f) (fp_Number pf),
           fp_Cores := max (fp_Cores f) (fp_Cores pf),
           fp_Memory := max (fp_Memory f) (fp_Memory pf)\<rparr>) m)"

fun footprintId :: "pod_footprint list \<Rightarrow> int" where
  "footprintId [] = 0"
| "footprintId (f # fs) = (if fp_Uuid f \<noteq> [] then fp_Id f else footprintId fs)"

section \<open>Reducing a pod's claims\<close>

definition sidecar_names :: "pod \<Rightarrow> string set" where
  "sidecar_names p = set (map c_Name (filter c_Restartable (p_InitContainers p)))"

definition sequential_names :: "pod \<Rightarrow> string set" where
  "sequential_names p = set (map c_Name (filter (\<lambda>c. \<not> c_Restartable c) (p_InitContainers p)))"

text \<open>The three buckets of the general path.\<close>

record buckets =
  b_regular :: fp_map
  b_sidecar :: fp_map
  b_initMax :: fp_map

definition bucket_claim :: "pod \<Rightarrow> buckets \<Rightarrow> container_claim \<Rightarrow> buckets" where
  "bucket_claim p b cc =
     (if cdc_Name cc \<in> sequential_names p
      then let perInit = foldl sumClaimFootprint [] (cdc_DeviceClaims cc) in
           b\<lparr>b_initMax := foldl maxFootprintInto (b_initMax b) (vals perInit)\<rparr>
      else if cdc_Name cc \<in> sidecar_names p
      then b\<lparr>b_sidecar := foldl sumClaimFootprint (b_sidecar b) (cdc_DeviceClaims cc)\<rparr>
      else b\<lparr>b_regular := foldl sumClaimFootprint (b_regular b) (cdc_DeviceClaims cc)\<rparr>)"

definition combine_fp :: "buckets \<Rightarrow> fp_map \<Rightarrow> string \<Rightarrow> fp_map" where
  "combine_fp b result uuid =
     (if map_of result uuid \<noteq> None then result
      else let sc = fp_get (b_sidecar b) uuid; rg = fp_get (b_regular b) uuid;
               im = fp_get (b_initMax b) uuid in
        AList.update uuid
          \<lparr>fp_Id = footprintId [rg, im, sc], fp_Uuid = uuid,
           fp_Number = i64 (fp_Number sc + max (fp_Number rg) (fp_Number im)),
           fp_Cores = i64 (fp_Cores sc + max (fp_Cores rg) (fp_Cores im)),
           fp_Memory = i64 (fp_Memory sc + max (fp_Memory rg) (fp_Memory im))\<rparr> result)"

definition ReducePodFootprint :: "pod \<Rightarrow> pod_claim \<Rightarrow> fp_map" where
  "ReducePodFootprint p pdc =
     (if sequential_names p = {}
      then foldl (\<lambda>m cc. foldl sumClaimFootprint m (cdc_DeviceClaims cc)) [] pdc
      else let b = foldl (bucket_claim p) \<lparr>b_regular = [], b_sidecar = [], b_initMax = []\<rparr> pdc in
        foldl (combine_fp b) [] (keys (b_regular b) @ keys (b_sidecar b) @ keys (b_initMax b)))"

text \<open>Containers that hold a claim on a GPU and run now, each counted once per GPU.\<close>

definition CurrentSharedContainers :: "pod \<Rightarrow> pod_claim \<Rightarrow> (string, int) gomap" where
  "CurrentSharedContainers p pdc =
     foldl (\<lambda>counts cc.
       if \<not> IsContainerRunning p (cdc_Name cc) then counts
       else foldl (\<lambda>m u. AList.update u (i64 ((case map_of m u of None \<Rightarrow> 0 | Some n \<Rightarrow> n) + 1)) m)
              counts (rev (remdups (rev (map dc_Uuid (cdc_DeviceClaims cc)))))) [] pdc"

definition podHasVGPUInitContainer :: "pod \<Rightarrow> bool" where
  "podHasVGPUInitContainer p =
     list_ex (\<lambda>c. IsVGPURequiredContainer c \<and> \<not> c_Restartable c) (p_InitContainers p)"

definition PodPreAllocatedUUIDs :: "pod \<Rightarrow> string list" where
  "PodPreAllocatedUUIDs p =
     rev (remdups (rev (filter (\<lambda>u. u \<noteq> []) (map dc_Uuid (concat (map cdc_DeviceClaims (GetPodDeviceClaim p)))))))"

section \<open>The three dimensions of a footprint\<close>

datatype dim = Number | Cores | Memory

fun fp_dim :: "dim \<Rightarrow> pod_footprint \<Rightarrow> int" where
  "fp_dim Number f = fp_Number f"
| "fp_dim Cores f = fp_Cores f"
| "fp_dim Memory f = fp_Memory f"

fun dc_dim :: "dim \<Rightarrow> device_claim \<Rightarrow> int" where
  "dc_dim Number c = 1"
| "dc_dim Cores c = dc_Cores c"
| "dc_dim Memory c = dc_Memory c"

text \<open>What a list of claims, or of container claims, takes of one GPU.\<close>

definition claims_on :: "dim \<Rightarrow> string \<Rightarrow> device_claim list \<Rightarrow> int" where
  "claims_on d u cs = sum_list (map (dc_dim d) (filter (\<lambda>c. dc_Uuid c = u) cs))"

definition usage_on :: "dim \<Rightarrow> string \<Rightarrow> container_claim list \<Rightarrow> int" where
  "usage_on d u ccs = sum_list (map (\<lambda>cc. claims_on d u (cdc_DeviceClaims cc)) ccs)"

lemma claims_on_simps [simp]:
  "claims_on d u [] = 0"
  "claims_on d u (c # cs) = (if dc_Uuid c = u then dc_dim d c else 0) + claims_on d u cs"
  "claims_on d u (cs @ cs') = claims_on d u cs + claims_on d u cs'"
  by (simp_all add: claims_on_def)

lemma usage_on_simps [simp]:
  "usage_on d u [] = 0"
  "usage_on d u (cc # ccs) = claims_on d u (cdc_DeviceClaims cc) + usage_on d u ccs"
  "usage_on d u (ccs @ ccs') = usage_on d u ccs + usage_on d u ccs'"
  by (simp_all add: usage_on_def)

lemma fp_dim_zero [simp]: "fp_dim d zero_fp = 0"
  by (cases d) (simp_all add: zero_fp_def)

lemma fp_get_Nil [simp]: "fp_get [] u = zero_fp"
  by (simp add: fp_get_def)

lemma fp_get_sumClaim:
  "fp_dim d (fp_get (sumClaimFootprint m c) u) =
     (if dc_Uuid c = u then i64 (fp_dim d (fp_get m u) + dc_dim d c) else fp_dim d (fp_get m u))"
  by (cases d) (auto simp: sumClaimFootprint_def Let_def fp_get_def map_of_update)

text \<open>Adding claims one by one adds what they take of the GPU, modulo the word size.\<close>

lemma fp_get_sumClaims:
  assumes "in_i64 (fp_dim d (fp_get m u))"
  shows "fp_dim d (fp_get (foldl sumClaimFootprint m cs) u) = i64 (fp_dim d (fp_get m u) + claims_on d u cs)"
  using assms
proof (induction cs arbitrary: m)
  case Nil
  then show ?case by (simp add: i64_id)
next
  case (Cons c cs)
  have "in_i64 (fp_dim d (fp_get (sumClaimFootprint m c) u))"
    using Cons.prems i64_range by (simp add: fp_get_sumClaim)
  from Cons.IH [OF this] show ?case by (auto simp: fp_get_sumClaim algebra_simps)
qed

lemma map_of_sumClaims_None:
  "map_of (foldl sumClaimFootprint m cs) u = None \<longleftrightarrow> map_of m u = None \<and> u \<notin> set (map dc_Uuid cs)"
  by (induction cs arbitrary: m) (auto simp: sumClaimFootprint_def Let_def map_of_update)

lemma distinct_sumClaims: "distinct (keys m) \<Longrightarrow> distinct (keys (foldl sumClaimFootprint m cs))"
  by (induction cs arbitrary: m) (auto simp: sumClaimFootprint_def Let_def intro: distinct_keys_update)

section \<open>The value of the reduced footprint\<close>

text \<open>Claims that do not overflow: nothing negative, and no GPU's total beyond a 64-bit integer.\<close>

definition claims_ok :: "pod_claim \<Rightarrow> bool" where
  "claims_ok pdc \<longleftrightarrow>
     (\<forall>cc \<in> set pdc. \<forall>c \<in> set (cdc_DeviceClaims cc). 0 \<le> dc_Cores c \<and> 0 \<le> dc_Memory c) \<and>
     (\<forall>d u. usage_on d u pdc \<le> max_int)"

definition sequential_claims :: "pod \<Rightarrow> pod_claim \<Rightarrow> pod_claim" where
  "sequential_claims p pdc = filter (\<lambda>cc. cdc_Name cc \<in> sequential_names p) pdc"

definition sidecar_claims :: "pod \<Rightarrow> pod_claim \<Rightarrow> pod_claim" where
  "sidecar_claims p pdc =
     filter (\<lambda>cc. cdc_Name cc \<notin> sequential_names p \<and> cdc_Name cc \<in> sidecar_names p) pdc"

definition regular_claims :: "pod \<Rightarrow> pod_claim \<Rightarrow> pod_claim" where
  "regular_claims p pdc =
     filter (\<lambda>cc. cdc_Name cc \<notin> sequential_names p \<and> cdc_Name cc \<notin> sidecar_names p) pdc"

definition init_peak :: "dim \<Rightarrow> string \<Rightarrow> container_claim list \<Rightarrow> int" where
  "init_peak d u ccs = foldl max 0 (map (\<lambda>cc. claims_on d u (cdc_DeviceClaims cc)) ccs)"

lemma claims_on_nonneg:
  "\<forall>c \<in> set cs. 0 \<le> dc_Cores c \<and> 0 \<le> dc_Memory c \<Longrightarrow> 0 \<le> claims_on d u cs"
  by (induction cs) (cases d; auto)+

lemma usage_on_filter_le:
  assumes "\<forall>cc \<in> set ccs. 0 \<le> claims_on d u (cdc_DeviceClaims cc)"
  shows "0 \<le> usage_on d u (filter P ccs)" "usage_on d u (filter P ccs) \<le> usage_on d u ccs"
  using assms by (induction ccs) auto

lemma claims_okD:
  assumes "claims_ok pdc"
  shows "cc \<in> set pdc \<Longrightarrow> 0 \<le> claims_on d u (cdc_DeviceClaims cc)"
    and "0 \<le> usage_on d u (filter P pdc)" "usage_on d u (filter P pdc) \<le> max_int"
    and "cc \<in> set pdc \<Longrightarrow> claims_on d u (cdc_DeviceClaims cc) \<le> max_int"
proof -
  have nn: "\<forall>cc \<in> set pdc. 0 \<le> claims_on d u (cdc_DeviceClaims cc)" for d u
    using assms by (auto simp: claims_ok_def intro: claims_on_nonneg)
  show "cc \<in> set pdc \<Longrightarrow> 0 \<le> claims_on d u (cdc_DeviceClaims cc)" using nn by blast
  show "0 \<le> usage_on d u (filter P pdc)" by (rule usage_on_filter_le(1) [OF nn])
  show "usage_on d u (filter P pdc) \<le> max_int"
    using usage_on_filter_le(2) [OF nn] assms unfolding claims_ok_def by (meson order_trans)
  assume "cc \<in> set pdc"
  then have "claims_on d u (cdc_DeviceClaims cc) \<le> usage_on d u pdc"
    using nn by (auto simp: usage_on_def intro!: member_le_sum_list)
  then show "claims_on d u (cdc_DeviceClaims cc) \<le> max_int" using assms unfolding claims_ok_def by (meson order_trans)
qed

definition keyed :: "fp_map \<Rightarrow> bool" where
  "keyed m \<longleftrightarrow> distinct (keys m) \<and> (\<forall>(k, f) \<in> set m. fp_Uuid f = k)"

lemma keyed_update: "keyed m \<Longrightarrow> fp_Uuid f = k \<Longrightarrow> keyed (AList.update k f m)"
proof (induction m)
  case (Cons a m)
  then show ?case by (cases a) (auto simp: keyed_def keys_update split: if_splits)
qed (simp add: keyed_def)

lemma keyed_sumClaim: "keyed m \<Longrightarrow> keyed (sumClaimFootprint m c)"
  by (simp add: sumClaimFootprint_def Let_def keyed_update)

lemma keyed_sumClaims: "keyed m \<Longrightarrow> keyed (foldl sumClaimFootprint m cs)"
  by (induction cs arbitrary: m) (auto intro: keyed_sumClaim)

lemma fp_get_Cons: "fp_get ((k, f) # m) u = (if u = k then f else fp_get m u)"
  by (simp add: fp_get_def)

lemma fp_get_maxInto:
  "fp_dim d (fp_get (maxFootprintInto m f) u) =
     (if u = fp_Uuid f then max (fp_dim d (fp_get m u)) (fp_dim d f) else fp_dim d (fp_get m u))"
  by (cases d) (auto simp: maxFootprintInto_def Let_def fp_get_def map_of_update zero_fp_def split: option.splits)

lemma fp_get_maxInto_all:
  assumes "keyed q" "0 \<le> fp_dim d (fp_get m u)"
  shows "fp_dim d (fp_get (foldl maxFootprintInto m (vals q)) u) = max (fp_dim d (fp_get m u)) (fp_dim d (fp_get q u))"
  using assms
proof (induction q arbitrary: m)
  case (Cons kf q)
  obtain k f where kf: "kf = (k, f)" by (cases kf)
  have k: "fp_Uuid f = k" "keyed q" "k \<notin> set (keys q)" using Cons.prems(1) by (auto simp: keyed_def kf)
  have absent: "u = k \<Longrightarrow> fp_get q u = zero_fp"
    using k(3) by (simp add: fp_get_def set_keys domIff)
  have "0 \<le> fp_dim d (fp_get (maxFootprintInto m f) u)"
    using Cons.prems(2) by (auto simp: fp_get_maxInto)
  from Cons.IH [OF k(2) this] show ?case
    using Cons.prems(2) absent k(1) by (auto simp: kf fp_get_maxInto fp_get_Cons)
qed simp

lemma foldl_max_ge: "(a :: int) \<le> foldl max a xs"
  by (induction xs arbitrary: a) (auto intro: order_trans [OF max.cobounded1])

lemma init_peak_snoc: "init_peak d u (ccs @ [cc]) = max (init_peak d u ccs) (claims_on d u (cdc_DeviceClaims cc))"
  by (simp add: init_peak_def)

lemma init_peak_nonneg: "0 \<le> init_peak d u ccs"
  unfolding init_peak_def by (rule foldl_max_ge)

definition all_buckets :: "pod \<Rightarrow> pod_claim \<Rightarrow> buckets" where
  "all_buckets p pdc = foldl (bucket_claim p) \<lparr>b_regular = [], b_sidecar = [], b_initMax = []\<rparr> pdc"

lemma claims_ok_append: "claims_ok (pdc @ [cc]) \<Longrightarrow> claims_ok pdc"
proof -
  assume a: "claims_ok (pdc @ [cc])"
  then have "0 \<le> claims_on d u (cdc_DeviceClaims cc)" for d u using claims_okD(1) by simp
  moreover have "usage_on d u pdc + claims_on d u (cdc_DeviceClaims cc) \<le> max_int" for d u
    using a by (simp add: claims_ok_def)
  ultimately have "usage_on d u pdc \<le> max_int" for d u by (meson add_increasing2 order_trans order_refl)
  then show ?thesis using a by (simp add: claims_ok_def)
qed

lemma sum_step:
  assumes "fp_dim d (fp_get m u) = a" "0 \<le> a" "0 \<le> claims_on d u cs" "a + claims_on d u cs \<le> max_int"
  shows "fp_dim d (fp_get (foldl sumClaimFootprint m cs) u) = a + claims_on d u cs"
proof -
  have "in_i64 (fp_dim d (fp_get m u))" using assms by (simp add: in_i64_def max_int_def)
  from fp_get_sumClaims [OF this, of cs] show ?thesis using assms i64_between by simp
qed

lemma buckets_value:
  assumes "claims_ok pdc"
  shows "fp_dim d (fp_get (b_sidecar (all_buckets p pdc)) u) = usage_on d u (sidecar_claims p pdc)"
    and "fp_dim d (fp_get (b_regular (all_buckets p pdc)) u) = usage_on d u (regular_claims p pdc)"
    and "fp_dim d (fp_get (b_initMax (all_buckets p pdc)) u) = init_peak d u (sequential_claims p pdc)"
proof -
  have "fp_dim d (fp_get (b_sidecar (all_buckets p pdc)) u) = usage_on d u (sidecar_claims p pdc) \<and>
    fp_dim d (fp_get (b_regular (all_buckets p pdc)) u) = usage_on d u (regular_claims p pdc) \<and>
    fp_dim d (fp_get (b_initMax (all_buckets p pdc)) u) = init_peak d u (sequential_claims p pdc)"
    using assms
  proof (induction pdc rule: rev_induct)
    case Nil
    then show ?case
      by (simp add: all_buckets_def sidecar_claims_def regular_claims_def sequential_claims_def init_peak_def)
  next
    case (snoc cc pdc)
    let ?b = "all_buckets p pdc" and ?c = "cdc_DeviceClaims cc"
    note IH = snoc.IH [OF claims_ok_append [OF snoc.prems]]
    have step: "all_buckets p (pdc @ [cc]) = bucket_claim p ?b cc" by (simp add: all_buckets_def)
    have c: "0 \<le> claims_on d u ?c" "claims_on d u ?c \<le> max_int"
      using claims_okD(1,4) [OF snoc.prems] by auto
    note le = claims_okD(2,3) [OF claims_ok_append [OF snoc.prems], of d u]
      claims_okD(3) [OF snoc.prems, of d u]
    consider "cdc_Name cc \<in> sequential_names p"
      | "cdc_Name cc \<notin> sequential_names p" "cdc_Name cc \<in> sidecar_names p"
      | "cdc_Name cc \<notin> sequential_names p" "cdc_Name cc \<notin> sidecar_names p" by blast
    then show ?case
    proof cases
      case 1
      have "fp_dim d (fp_get (foldl sumClaimFootprint [] ?c) u) = claims_on d u ?c"
        using sum_step [of d "[]" u 0 ?c] c by simp
      moreover have "keyed (foldl sumClaimFootprint [] ?c)" by (rule keyed_sumClaims) (simp add: keyed_def)
      ultimately have "fp_dim d (fp_get (b_initMax (bucket_claim p ?b cc)) u)
          = max (init_peak d u (sequential_claims p pdc)) (claims_on d u ?c)"
        using fp_get_maxInto_all [of _ d "b_initMax ?b" u] IH init_peak_nonneg 1
        by (simp add: bucket_claim_def Let_def)
      then show ?thesis using 1 IH unfolding step
        by (simp add: bucket_claim_def Let_def sidecar_claims_def regular_claims_def sequential_claims_def init_peak_snoc)
    next
      case 2
      have "usage_on d u (sidecar_claims p pdc) + claims_on d u ?c \<le> max_int"
        using le(3) [of "\<lambda>cc. cdc_Name cc \<notin> sequential_names p \<and> cdc_Name cc \<in> sidecar_names p"] 2
        by (simp add: sidecar_claims_def)
      from sum_step [OF conjunct1 [OF IH] _ c(1) this] le(1) show ?thesis
        using 2 IH unfolding step
        by (simp add: bucket_claim_def sidecar_claims_def regular_claims_def sequential_claims_def)
    next
      case 3
      have "usage_on d u (regular_claims p pdc) + claims_on d u ?c \<le> max_int"
        using le(3) [of "\<lambda>cc. cdc_Name cc \<notin> sequential_names p \<and> cdc_Name cc \<notin> sidecar_names p"] 3
        by (simp add: regular_claims_def)
      from sum_step [OF conjunct1 [OF conjunct2 [OF IH]] _ c(1) this] le(1) show ?thesis
        using 3 IH unfolding step
        by (simp add: bucket_claim_def sidecar_claims_def regular_claims_def sequential_claims_def)
    qed
  qed
  then show "fp_dim d (fp_get (b_sidecar (all_buckets p pdc)) u) = usage_on d u (sidecar_claims p pdc)"
    "fp_dim d (fp_get (b_regular (all_buckets p pdc)) u) = usage_on d u (regular_claims p pdc)"
    "fp_dim d (fp_get (b_initMax (all_buckets p pdc)) u) = init_peak d u (sequential_claims p pdc)" by blast+
qed

lemma combine_fold:
  "map_of (foldl (combine_fp b) r us) u =
     (if map_of r u \<noteq> None then map_of r u
      else if u \<in> set us then map_of (combine_fp b [] u) u else None)"
proof (induction us arbitrary: r)
  case (Cons v us)
  have "map_of (combine_fp b r v) u = (if map_of r u = None \<and> u = v then map_of (combine_fp b [] u) u else map_of r u)"
    by (auto simp: combine_fp_def Let_def map_of_update)
  moreover have "map_of (combine_fp b [] u) u \<noteq> None" by (simp add: combine_fp_def Let_def)
  ultimately show ?case using Cons.IH [of "combine_fp b r v"] by auto
qed simp

lemma usage_partition:
  "usage_on d u pdc = usage_on d u (sidecar_claims p pdc) + usage_on d u (regular_claims p pdc)
     + usage_on d u (sequential_claims p pdc)"
  by (induction pdc) (auto simp: sidecar_claims_def regular_claims_def sequential_claims_def)

lemma init_peak_attained:
  "init_peak d u ccs = 0 \<or> (\<exists>cc \<in> set ccs. init_peak d u ccs = claims_on d u (cdc_DeviceClaims cc))"
  by (induction ccs rule: rev_induct) (auto simp: init_peak_snoc max_def init_peak_def)

lemma init_peak_ge: "cc \<in> set ccs \<Longrightarrow> claims_on d u (cdc_DeviceClaims cc) \<le> init_peak d u ccs"
  by (induction ccs rule: rev_induct) (auto simp: init_peak_snoc)

lemma claims_le_usage:
  "\<forall>cc \<in> set ccs. 0 \<le> claims_on d u (cdc_DeviceClaims cc) \<Longrightarrow> cc \<in> set ccs \<Longrightarrow>
   claims_on d u (cdc_DeviceClaims cc) \<le> usage_on d u ccs"
  by (auto simp: usage_on_def intro!: member_le_sum_list)

lemma init_peak_le_usage:
  "\<forall>cc \<in> set ccs. 0 \<le> claims_on d u (cdc_DeviceClaims cc) \<Longrightarrow> init_peak d u ccs \<le> usage_on d u ccs"
  using init_peak_attained [of d u ccs] claims_le_usage [of ccs d u] usage_on_filter_le(1) [of ccs d u "\<lambda>_. True"]
  by auto

lemma foldl_claims_concat:
  "foldl (\<lambda>m cc. foldl sumClaimFootprint m (cdc_DeviceClaims cc)) m pdc
   = foldl sumClaimFootprint m (concat (map cdc_DeviceClaims pdc))"
  by (induction pdc arbitrary: m) auto

lemma claims_on_concat: "claims_on d u (concat (map cdc_DeviceClaims pdc)) = usage_on d u pdc"
  by (induction pdc) auto

text \<open>The formula the source states for the reserve, on every dimension and every GPU.\<close>

lemma ReducePodFootprint_value:
  assumes "claims_ok pdc"
  shows "fp_dim d (fp_get (ReducePodFootprint p pdc) u) =
    usage_on d u (sidecar_claims p pdc)
    + max (usage_on d u (regular_claims p pdc)) (init_peak d u (sequential_claims p pdc))"
proof (cases "sequential_names p = {}")
  case True
  have "usage_on d u (filter (\<lambda>_. True) pdc) \<le> max_int" "0 \<le> usage_on d u (filter (\<lambda>_. True) pdc)"
    using claims_okD(2,3) [OF assms] by blast+
  then have "fp_dim d (fp_get (ReducePodFootprint p pdc) u) = usage_on d u pdc"
    using True sum_step [of d "[]" u 0 "concat (map cdc_DeviceClaims pdc)"]
    by (simp add: ReducePodFootprint_def foldl_claims_concat claims_on_concat)
  moreover have "sequential_claims p pdc = []" using True by (simp add: sequential_claims_def)
  moreover have "0 \<le> usage_on d u (regular_claims p pdc)"
    unfolding regular_claims_def by (rule claims_okD(2) [OF assms])
  ultimately show ?thesis using usage_partition [of d u pdc p] by (simp add: init_peak_def)
next
  case False
  let ?b = "all_buckets p pdc"
  let ?v = "usage_on d u (sidecar_claims p pdc)
    + max (usage_on d u (regular_claims p pdc)) (init_peak d u (sequential_claims p pdc))"
  note val = buckets_value [OF assms, of d p u]
  have nn: "0 \<le> usage_on d u (sidecar_claims p pdc)" "0 \<le> usage_on d u (regular_claims p pdc)"
    unfolding sidecar_claims_def regular_claims_def by (rule claims_okD(2) [OF assms])+
  have "init_peak d u (sequential_claims p pdc) \<le> usage_on d u (sequential_claims p pdc)"
    by (rule init_peak_le_usage) (use claims_okD(1) [OF assms] in \<open>auto simp: sequential_claims_def\<close>)
  moreover have "usage_on d u pdc \<le> max_int" using assms by (simp add: claims_ok_def)
  ultimately have "i64 ?v = ?v"
    using usage_partition [of d u pdc p] nn init_peak_nonneg [of d u "sequential_claims p pdc"]
    by (intro i64_between) (auto simp: max_def)
  then have here: "fp_dim d (the (map_of (combine_fp ?b [] u) u)) = ?v"
    using val by (cases d) (simp_all add: combine_fp_def Let_def)
  let ?us = "keys (b_regular ?b) @ keys (b_sidecar ?b) @ keys (b_initMax ?b)"
  have "ReducePodFootprint p pdc = foldl (combine_fp ?b) [] ?us"
    using False by (simp add: ReducePodFootprint_def all_buckets_def Let_def)
  then have red: "map_of (ReducePodFootprint p pdc) u =
      (if u \<in> set ?us then map_of (combine_fp ?b [] u) u else None)"
    using combine_fold [of ?b "[]" ?us u] by simp
  show ?thesis
  proof (cases "u \<in> set ?us")
    case True
    have "map_of (combine_fp ?b [] u) u \<noteq> None" by (simp add: combine_fp_def Let_def)
    then show ?thesis using True here red by (auto simp: fp_get_def)
  next
    case out: False
    then have "fp_get (b_regular ?b) u = zero_fp" "fp_get (b_sidecar ?b) u = zero_fp" "fp_get (b_initMax ?b) u = zero_fp"
      by (auto simp: fp_get_def set_keys domIff)
    then have "?v = 0" using val by simp
    then show ?thesis using red out by (simp add: fp_get_def)
  qed
qed

section \<open>The footprint is the peak of what can run together\<close>

text \<open>
  The container claims that can be active at one moment: either no sequential init container
  (the main phase, sidecars included), or a single one, next to sidecars only.
\<close>

definition can_run :: "pod \<Rightarrow> container_claim list \<Rightarrow> bool" where
  "can_run p run \<longleftrightarrow>
     sequential_claims p run = [] \<or> (length (sequential_claims p run) = 1 \<and> regular_claims p run = [])"

interpretation claims_life: lifecycle "\<lambda>cc. cdc_Name cc \<in> sequential_names p"
  "\<lambda>cc. cdc_Name cc \<notin> sequential_names p \<and> cdc_Name cc \<in> sidecar_names p" for p
  by unfold_locales simp

lemma can_run_overlap:
  "can_run p = can_overlap (\<lambda>cc. cdc_Name cc \<in> sequential_names p)
     (\<lambda>cc. cdc_Name cc \<notin> sequential_names p \<and> cdc_Name cc \<in> sidecar_names p)"
  by (auto simp: fun_eq_iff can_run_def can_overlap_def sequential_claims_def regular_claims_def cong: conj_cong)

lemma footprint_is_peak:
  assumes "claims_ok pdc"
  shows "fp_dim d (fp_get (ReducePodFootprint p pdc) u) =
    lifecycle_peak (\<lambda>cc. cdc_Name cc \<in> sequential_names p)
     (\<lambda>cc. cdc_Name cc \<notin> sequential_names p \<and> cdc_Name cc \<in> sidecar_names p)
     (\<lambda>cc. claims_on d u (cdc_DeviceClaims cc)) pdc"
  by (simp add: ReducePodFootprint_value [OF assms] lifecycle_peak_def usage_on_def init_peak_def
      sidecar_claims_def regular_claims_def sequential_claims_def cong: conj_cong)

lemma footprint_covers:
  assumes "claims_ok pdc" "subseq run pdc" "can_run p run"
  shows "usage_on d u run \<le> fp_dim d (fp_get (ReducePodFootprint p pdc) u)"
  unfolding footprint_is_peak [OF assms(1)] usage_on_def
  by (rule claims_life.peak_covers [OF _ assms(2) assms(3) [unfolded can_run_overlap]])
    (use claims_okD(1) [OF assms(1)] in blast)

lemma footprint_attained:
  assumes "claims_ok pdc"
  shows "\<exists>run. subseq run pdc \<and> can_run p run \<and> usage_on d u run = fp_dim d (fp_get (ReducePodFootprint p pdc) u)"
  unfolding footprint_is_peak [OF assms] usage_on_def can_run_overlap
  by (rule claims_life.peak_attained) (use claims_okD(1) [OF assms] in blast)


definition demo_init_pod :: pod where
  "demo_init_pod = empty_pod
     \<lparr>p_InitContainers := [\<lparr>c_Name = ''i'', c_Limits = [], c_Restartable = False\<rparr>,
                          \<lparr>c_Name = ''s'', c_Limits = [], c_Restartable = True\<rparr>],
      p_Containers := [\<lparr>c_Name = ''a'', c_Limits = [], c_Restartable = False\<rparr>],
      p_InitContainerStatuses :=
        [\<lparr>cs_Name = ''i'', cs_Running = False, cs_Terminated = True, cs_Waiting = None\<rparr>,
         \<lparr>cs_Name = ''s'', cs_Running = True, cs_Terminated = False, cs_Waiting = None\<rparr>],
      p_ContainerStatuses :=
        [\<lparr>cs_Name = ''a'', cs_Running = True, cs_Terminated = False, cs_Waiting = None\<rparr>]\<rparr>"

definition demo_init_claim :: pod_claim where
  "demo_init_claim =
     [\<lparr>cdc_Name = ''i'', cdc_DeviceClaims = [\<lparr>dc_Id = 0, dc_Uuid = ''g'', dc_Cores = 80, dc_Memory = 100\<rparr>]\<rparr>,
      \<lparr>cdc_Name = ''s'', cdc_DeviceClaims = [\<lparr>dc_Id = 0, dc_Uuid = ''g'', dc_Cores = 10, dc_Memory = 50\<rparr>]\<rparr>,
      \<lparr>cdc_Name = ''a'', cdc_DeviceClaims = [\<lparr>dc_Id = 0, dc_Uuid = ''g'', dc_Cores = 20, dc_Memory = 300\<rparr>]\<rparr>]"

lemma demo_init_claim_ok: "claims_ok demo_init_claim"
  unfolding claims_ok_def
proof (intro conjI allI)
  show "usage_on d u demo_init_claim \<le> max_int" for d u
    by (cases d) (simp_all add: demo_init_claim_def max_int_def)
qed (simp add: demo_init_claim_def)


definition shared_on :: "(string, int) gomap \<Rightarrow> string \<Rightarrow> int" where
  "shared_on m u = (case map_of m u of None \<Rightarrow> 0 | Some n \<Rightarrow> n)"

lemma shared_step:
  assumes "distinct us" "in_i64 (shared_on m u)"
  shows "shared_on (foldl (\<lambda>m u. AList.update u (i64 ((case map_of m u of None \<Rightarrow> 0 | Some n \<Rightarrow> n) + 1)) m) m us) u
    = i64 (shared_on m u + (if u \<in> set us then 1 else 0))"
  using assms
proof (induction us arbitrary: m)
  case Nil
  then show ?case by (simp add: i64_id)
next
  case (Cons v us)
  let ?m = "AList.update v (i64 ((case map_of m v of None \<Rightarrow> 0 | Some n \<Rightarrow> n) + 1)) m"
  have m: "shared_on ?m u = (if u = v then i64 (shared_on m u + 1) else shared_on m u)"
    by (auto simp: shared_on_def map_of_update)
  then have "in_i64 (shared_on ?m u)" using Cons.prems i64_range by simp
  from Cons.IH [OF _ this] m Cons.prems show ?case by auto
qed

lemma shared_value:
  "shared_on (CurrentSharedContainers p pdc) u =
     i64 (int (length (filter (\<lambda>cc. IsContainerRunning p (cdc_Name cc) \<and>
            u \<in> set (map dc_Uuid (cdc_DeviceClaims cc))) pdc)))"
proof (induction pdc rule: rev_induct)
  case Nil
  then show ?case by (simp add: CurrentSharedContainers_def shared_on_def i64_def)
next
  case (snoc cc pdc)
  let ?us = "rev (remdups (rev (map dc_Uuid (cdc_DeviceClaims cc))))"
  have "in_i64 (shared_on (CurrentSharedContainers p pdc) u)" unfolding snoc by (rule i64_range)
  from shared_step [OF _ this, of ?us] snoc show ?case
    by (auto simp: CurrentSharedContainers_def add.commute)
qed

lemma count_le_usage:
  "int (length (filter (\<lambda>cc. P cc \<and> u \<in> set (map dc_Uuid (cdc_DeviceClaims cc))) ccs))
   \<le> usage_on Number u (filter P ccs)"
proof (induction ccs)
  case (Cons cc ccs)
  have nn: "0 \<le> claims_on Number u cs" for cs by (induction cs) auto
  have "1 \<le> claims_on Number u cs" if "u \<in> dc_Uuid ` set cs" for cs
    using that nn by (induction cs) (fastforce simp: add_increasing)+
  then show ?case using Cons nn [of "cdc_DeviceClaims cc"] by fastforce
qed simp

text \<open>
  What is running is never more than the peak. The number of containers of a pod that
  currently run and hold a claim on a GPU is at most the number of virtual devices its
  footprint reserves there, when the running containers are ones that can run together.
\<close>

theorem CurrentSharedContainers_le_peak:
  assumes "claims_ok pdc" "can_run p (filter (\<lambda>cc. IsContainerRunning p (cdc_Name cc)) pdc)"
  shows "shared_on (CurrentSharedContainers p pdc) u \<le> fp_Number (fp_get (ReducePodFootprint p pdc) u)"
proof -
  let ?run = "filter (\<lambda>cc. IsContainerRunning p (cdc_Name cc)) pdc"
  let ?n = "int (length (filter (\<lambda>cc. IsContainerRunning p (cdc_Name cc) \<and>
            u \<in> set (map dc_Uuid (cdc_DeviceClaims cc))) pdc))"
  have n: "?n \<le> usage_on Number u ?run" by (rule count_le_usage)
  also have "\<dots> \<le> fp_dim Number (fp_get (ReducePodFootprint p pdc) u)"
    by (rule footprint_covers [OF assms(1) subseq_filter_left assms(2)])
  finally have "?n \<le> fp_Number (fp_get (ReducePodFootprint p pdc) u)" by simp
  moreover have "usage_on Number u ?run \<le> max_int" by (rule claims_okD(3) [OF assms(1)])
  then have "i64 ?n = ?n" using n by (intro i64_between) linarith+
  ultimately show ?thesis by (simp add: shared_value)
qed

theorem CurrentSharedContainers_le_peak_witness:
  "shared_on (CurrentSharedContainers demo_init_pod demo_init_claim) ''g''
   \<le> fp_Number (fp_get (ReducePodFootprint demo_init_pod demo_init_claim) ''g'')"
  by (rule CurrentSharedContainers_le_peak [OF demo_init_claim_ok])
    (simp add: can_run_def demo_init_claim_def demo_init_pod_def IsContainerRunning_def empty_pod_def
      sequential_claims_def sequential_names_def)

end
