(* ===== verification/Reason.thy ===== *)
theory Reason
  imports Prelude
begin

text \<open>
  The vocabulary of rejections (\<^verbatim>\<open>pkg/scheduler/reason/reason.go\<close>): the codes and their
  phrases, the reason of one node with its per-device counts, the choice of the dominant code,
  and the text of the aggregate event. The counts and the nodes come from Go maps; the theorems
  show that no iteration order of those maps shows in the result.
\<close>

section \<open>Codes and phrases\<close>

datatype code =
    NodeNotVGPUEnabled
  | NodeNoVGPURegister
  | NodeNoVGPUConfig
  | NodeBadVGPURegister
  | NodeBadVGPUConfig
  | NodeBadMemoryFactor
  | NodeBadRemoteEndpoint
  | NodeMemoryTypeMismatch
  | NodeCacheMiss
  | NodeInfoBuildFailed
  | NodeDeleting
  | DeviceUnhealthy
  | DeviceMIGEnabled
  | InsufficientVGPUSlot
  | InsufficientVGPUMemory
  | InsufficientVGPUCore
  | DeviceTypeMismatch
  | DeviceUUIDMismatch
  | InsufficientGPUCards
  | InsufficientGPUResources
  | LinkTopologyUnsatisfied
  | PCIeTopologyUnsatisfied
  | NUMATopologyUnsatisfied
  | AlreadyScheduledElsewhere
  | AllocatorInternalError
  | NodeIsRemoteServer
  | NodeRemoteServerUnreachable
  | NodeNotRemoteConsumer
  | NoRemoteServer
  | RemoteServerUnfit

text \<open>The string value of a code, by which codes are ordered.\<close>

fun code_string :: "code \<Rightarrow> string" where
  "code_string NodeNotVGPUEnabled = ''NodeNotVGPUEnabled''"
| "code_string NodeNoVGPURegister = ''NodeNoVGPURegister''"
| "code_string NodeNoVGPUConfig = ''NodeNoVGPUConfig''"
| "code_string NodeBadVGPURegister = ''NodeBadVGPURegister''"
| "code_string NodeBadVGPUConfig = ''NodeBadVGPUConfig''"
| "code_string NodeBadMemoryFactor = ''NodeBadMemoryFactor''"
| "code_string NodeBadRemoteEndpoint = ''NodeBadRemoteEndpoint''"
| "code_string NodeMemoryTypeMismatch = ''NodeMemoryTypeMismatch''"
| "code_string NodeCacheMiss = ''NodeCacheMiss''"
| "code_string NodeInfoBuildFailed = ''NodeInfoBuildFailed''"
| "code_string NodeDeleting = ''NodeDeleting''"
| "code_string DeviceUnhealthy = ''DeviceUnhealthy''"
| "code_string DeviceMIGEnabled = ''DeviceMIGEnabled''"
| "code_string InsufficientVGPUSlot = ''InsufficientVGPUSlot''"
| "code_string InsufficientVGPUMemory = ''InsufficientVGPUMemory''"
| "code_string InsufficientVGPUCore = ''InsufficientVGPUCore''"
| "code_string DeviceTypeMismatch = ''DeviceTypeMismatch''"
| "code_string DeviceUUIDMismatch = ''DeviceUUIDMismatch''"
| "code_string InsufficientGPUCards = ''InsufficientGPUCards''"
| "code_string InsufficientGPUResources = ''InsufficientGPUResources''"
| "code_string LinkTopologyUnsatisfied = ''LinkTopologyUnsatisfied''"
| "code_string PCIeTopologyUnsatisfied = ''PCIeTopologyUnsatisfied''"
| "code_string NUMATopologyUnsatisfied = ''NUMATopologyUnsatisfied''"
| "code_string AlreadyScheduledElsewhere = ''AlreadyScheduledElsewhere''"
| "code_string AllocatorInternalError = ''AllocatorInternalError''"
| "code_string NodeIsRemoteServer = ''NodeIsRemoteServer''"
| "code_string NodeRemoteServerUnreachable = ''NodeRemoteServerUnreachable''"
| "code_string NodeNotRemoteConsumer = ''NodeNotRemoteConsumer''"
| "code_string NoRemoteServer = ''NoRemoteServer''"
| "code_string RemoteServerUnfit = ''RemoteServerUnfit''"

fun Phrase :: "code \<Rightarrow> string" where
  "Phrase NodeNotVGPUEnabled = ''node not vGPU-enabled''"
| "Phrase NodeNoVGPURegister = ''node has no vGPU registered''"
| "Phrase NodeNoVGPUConfig = ''node has no vGPU configuration''"
| "Phrase NodeBadVGPURegister = ''node vGPU registry invalid''"
| "Phrase NodeBadVGPUConfig = ''node vGPU configuration invalid''"
| "Phrase NodeBadMemoryFactor = ''node memory factor invalid''"
| "Phrase NodeBadRemoteEndpoint = ''node remote endpoint invalid''"
| "Phrase NodeMemoryTypeMismatch = ''node memory type mismatch''"
| "Phrase NodeCacheMiss = ''node missing from cache''"
| "Phrase NodeInfoBuildFailed = ''node info build failed''"
| "Phrase NodeDeleting = ''node is being deleted''"
| "Phrase DeviceUnhealthy = ''GPU unhealthy''"
| "Phrase DeviceMIGEnabled = ''GPU has MIG enabled''"
| "Phrase InsufficientVGPUSlot = ''Insufficient vGPU slots''"
| "Phrase InsufficientVGPUMemory = ''Insufficient vGPU memory''"
| "Phrase InsufficientVGPUCore = ''Insufficient vGPU cores''"
| "Phrase DeviceTypeMismatch = ''GPU type mismatch''"
| "Phrase DeviceUUIDMismatch = ''GPU UUID mismatch''"
| "Phrase InsufficientGPUCards = ''Insufficient GPU cards''"
| "Phrase InsufficientGPUResources = ''Insufficient GPU resources''"
| "Phrase LinkTopologyUnsatisfied = ''Link topology unsatisfied''"
| "Phrase PCIeTopologyUnsatisfied = ''PCIe topology unsatisfied''"
| "Phrase NUMATopologyUnsatisfied = ''NUMA topology unsatisfied''"
| "Phrase AlreadyScheduledElsewhere = ''pod already scheduled to another node''"
| "Phrase AllocatorInternalError = ''allocator internal error''"
| "Phrase NodeIsRemoteServer = ''node GPUs serve remote pods''"
| "Phrase NodeRemoteServerUnreachable = ''remote GPU server unreachable''"
| "Phrase NodeNotRemoteConsumer = ''node not a remote vGPU consumer''"
| "Phrase NoRemoteServer = ''No remote vGPU server available''"
| "Phrase RemoteServerUnfit = ''No remote vGPU server fits''"

section \<open>Reasons\<close>

record filter_reason =
  fr_Primary :: code
  fr_Counts :: "(code, int) gomap"
  fr_TotalDevices :: int
  fr_Detail :: string

definition New_reason :: "code \<Rightarrow> filter_reason" where
  "New_reason c = \<lparr>fr_Primary = c, fr_Counts = [], fr_TotalDevices = 0, fr_Detail = []\<rparr>"

text \<open>The more frequent code first, equal counts in the order of the code's string.\<close>

definition count_less :: "code \<times> int \<Rightarrow> code \<times> int \<Rightarrow> bool" where
  "count_less a b =
     (if snd a \<noteq> snd b then snd a > snd b else str_less (code_string (fst a)) (code_string (fst b)))"

definition pickPrimary :: "(code, int) gomap \<Rightarrow> code" where
  "pickPrimary counts = fst (hd (go_sort count_less counts))"

definition FromCounts :: "(code, int) gomap \<Rightarrow> int \<Rightarrow> filter_reason option" where
  "FromCounts counts totalDevices =
     (if counts = [] then None
      else Some \<lparr>fr_Primary = pickPrimary counts, fr_Counts = counts,
                 fr_TotalDevices = totalDevices, fr_Detail = []\<rparr>)"

definition WithDetail :: "filter_reason option \<Rightarrow> string \<Rightarrow> filter_reason option" where
  "WithDetail r detail = map_option (\<lambda>r. r\<lparr>fr_Detail := detail\<rparr>) r"

definition Short :: "filter_reason option \<Rightarrow> string" where
  "Short r = (case r of None \<Rightarrow> [] | Some r \<Rightarrow> Phrase (fr_Primary r))"

definition renderCounts :: "(code, int) gomap \<Rightarrow> int \<Rightarrow> string" where
  "renderCounts counts totalDevs =
     join '', '' (map (\<lambda>(c, n). if totalDevs > 0 then itoa n @ ''/'' @ itoa totalDevs @ '' '' @ code_string c
                              else itoa n @ '' '' @ code_string c) (go_sort count_less counts))"

definition Detailed :: "filter_reason option \<Rightarrow> string" where
  "Detailed r =
     (case r of
        None \<Rightarrow> []
      | Some r \<Rightarrow>
          Phrase (fr_Primary r)
          @ (if length (fr_Counts r) > 0 then '' ('' @ renderCounts (fr_Counts r) (fr_TotalDevices r) @ '')'' else [])
          @ (if fr_Detail r \<noteq> [] then '' ['' @ fr_Detail r @ '']'' else []))"

section \<open>The aggregate event\<close>

definition formatClause :: "code \<Rightarrow> string list \<Rightarrow> int \<Rightarrow> string" where
  "formatClause c nodes limit =
     (let count = int (length nodes); p = Phrase c in
      if count = 0 then p
      else if limit > 0 \<and> count > limit
      then itoa count @ '' '' @ p @ '' ('' @ join '','' (take (nat limit) nodes) @ '' and ''
           @ itoa (count - limit) @ '' more)''
      else itoa count @ '' '' @ p @ '' ('' @ join '','' nodes @ '')'')"

text \<open>Nodes by primary code, in the order the map is visited.\<close>

definition bucket_nodes :: "(string, filter_reason option) gomap \<Rightarrow> (code, string list) gomap" where
  "bucket_nodes perNode =
     foldl (\<lambda>buckets (nodeName, r).
       case r of
         None \<Rightarrow> buckets
       | Some r \<Rightarrow> AList.update (fr_Primary r)
           ((case map_of buckets (fr_Primary r) of None \<Rightarrow> [] | Some ns \<Rightarrow> ns) @ [nodeName]) buckets)
       [] perNode"

definition entry_less :: "code \<times> string list \<Rightarrow> code \<times> string list \<Rightarrow> bool" where
  "entry_less a b =
     (if length (snd a) \<noteq> length (snd b) then length (snd a) > length (snd b)
      else str_less (code_string (fst a)) (code_string (fst b)))"

definition FormatAggregate :: "int \<Rightarrow> (string, filter_reason option) gomap \<Rightarrow> int \<Rightarrow> string" where
  "FormatAggregate totalNodes perNode limit =
     (if totalNodes \<le> 0 \<or> perNode = [] then ''0/'' @ itoa totalNodes @ '' nodes are available''
      else let entries = go_sort entry_less (map (\<lambda>(c, ns). (c, go_sort str_less ns)) (bucket_nodes perNode))
           in ''0/'' @ itoa totalNodes @ '' nodes are available: ''
              @ join '', '' (map (\<lambda>(c, ns). formatClause c ns limit) entries) @ ''.'')"

section \<open>Codes are told apart by their strings\<close>

definition all_codes :: "code list" where
  "all_codes = [
      NodeNotVGPUEnabled, NodeNoVGPURegister, NodeNoVGPUConfig, NodeBadVGPURegister,
      NodeBadVGPUConfig, NodeBadMemoryFactor, NodeBadRemoteEndpoint, NodeMemoryTypeMismatch,
      NodeCacheMiss, NodeInfoBuildFailed, NodeDeleting, DeviceUnhealthy, DeviceMIGEnabled,
      InsufficientVGPUSlot, InsufficientVGPUMemory, InsufficientVGPUCore, DeviceTypeMismatch,
      DeviceUUIDMismatch, InsufficientGPUCards, InsufficientGPUResources,
      LinkTopologyUnsatisfied, PCIeTopologyUnsatisfied, NUMATopologyUnsatisfied,
      AlreadyScheduledElsewhere, AllocatorInternalError, NodeIsRemoteServer,
      NodeRemoteServerUnreachable, NodeNotRemoteConsumer, NoRemoteServer, RemoteServerUnfit]"

lemma all_codes_UNIV: "c \<in> set all_codes"
  by (cases c) (simp_all add: all_codes_def)

lemma distinct_code_strings: "distinct (map code_string all_codes)"
  by code_simp

lemma code_string_inj: "code_string a = code_string b \<longleftrightarrow> a = b"
  using distinct_code_strings all_codes_UNIV [of a] all_codes_UNIV [of b]
  by (auto simp: distinct_map inj_on_def)

lemma comparator_count: "comparator count_less"
proof
  fix x y assume "count_less x y"
  then show "\<not> count_less y x"
    using str_cmp.less_asym by (auto simp: count_less_def split: if_splits)
next
  fix x y z assume "\<not> count_less x y" "\<not> count_less y z"
  then show "\<not> count_less x z"
    using str_cmp.less_negtrans [of "code_string (fst x)" "code_string (fst y)" "code_string (fst z)"]
    by (auto simp: count_less_def split: if_splits)
qed

lemma comparator_entry: "comparator entry_less"
proof
  fix x y assume "entry_less x y"
  then show "\<not> entry_less y x"
    using str_cmp.less_asym by (auto simp: entry_less_def split: if_splits)
next
  fix x y z assume "\<not> entry_less x y" "\<not> entry_less y z"
  then show "\<not> entry_less x z"
    using str_cmp.less_negtrans [of "code_string (fst x)" "code_string (fst y)" "code_string (fst z)"]
    by (auto simp: entry_less_def split: if_splits)
qed

text \<open>In a map two entries with the same code are the same entry.\<close>

lemma keys_apart:
  "distinct (keys m) \<Longrightarrow> a \<in> set m \<Longrightarrow> b \<in> set m \<Longrightarrow> a \<noteq> b \<Longrightarrow> fst a \<noteq> fst b"
  by (auto simp: keys_def distinct_map inj_on_def)

lemma count_total:
  "distinct (keys m) \<Longrightarrow> a \<in> set m \<Longrightarrow> b \<in> set m \<Longrightarrow> a \<noteq> b \<Longrightarrow> count_less a b \<or> count_less b a"
  using keys_apart [of m a b] str_less_total [of "code_string (fst a)" "code_string (fst b)"]
  by (auto simp: count_less_def code_string_inj)

lemma pickPrimary_correct:
  assumes "counts \<noteq> []" "distinct (keys counts)"
  obtains n where "(pickPrimary counts, n) \<in> set counts"
    "\<And>c k. (c, k) \<in> set counts \<Longrightarrow> k \<le> n"
    "\<And>c. (c, n) \<in> set counts \<Longrightarrow> c = pickPrimary counts \<or> str_less (code_string (pickPrimary counts)) (code_string c)"
proof -
  let ?s = "go_sort count_less counts"
  obtain h t where s: "?s = h # t"
    using assms(1) by (metis length_go_sort length_0_conv neq_Nil_conv)
  obtain p n where h: "h = (p, n)" by (cases h)
  have p: "pickPrimary counts = p" by (simp add: pickPrimary_def s h)
  have set: "set counts = set (h # t)" using s by (metis set_go_sort)
  have sorted: "sorted_wrt (\<lambda>a b. \<not> count_less b a) (h # t)"
    using comparator.go_sort_sorted [OF comparator_count, of counts] s by simp
  have le: "\<not> count_less x h" if "x \<in> set counts" for x
    using that sorted set comparator.less_asym [OF comparator_count, of h h] by auto
  show thesis
  proof (rule that)
    show "(pickPrimary counts, n) \<in> set counts" using set p h by simp
    show "k \<le> n" if "(c, k) \<in> set counts" for c k
      using le [OF that] h by (auto simp: count_less_def split: if_splits)
    show "c = pickPrimary counts \<or> str_less (code_string (pickPrimary counts)) (code_string c)"
      if "(c, n) \<in> set counts" for c
      using le [OF that] h p str_less_total [of "code_string c" "code_string p"]
      by (auto simp: count_less_def code_string_inj)
  qed
qed

text \<open>
  C20. The primary reason of a node is the most frequent device-level code, the least string
  among the most frequent, whatever order the counts are visited in; only an empty map gives no
  reason at all.
\<close>

theorem FromCounts_primary:
  assumes "distinct (keys counts)"
  shows "case FromCounts counts n of
      None \<Rightarrow> counts = []
    | Some r \<Rightarrow>
        (\<exists>k. (fr_Primary r, k) \<in> set counts \<and> (\<forall>(c, j) \<in> set counts. j \<le> k \<and>
           (j < k \<or> c = fr_Primary r \<or> str_less (code_string (fr_Primary r)) (code_string c)))) \<and>
        fr_Counts r = counts \<and> fr_TotalDevices r = n"
proof (cases "counts = []")
  case False
  then obtain k where k: "(pickPrimary counts, k) \<in> set counts" "\<And>c j. (c, j) \<in> set counts \<Longrightarrow> j \<le> k"
    "\<And>c. (c, k) \<in> set counts \<Longrightarrow> c = pickPrimary counts \<or> str_less (code_string (pickPrimary counts)) (code_string c)"
    using pickPrimary_correct [OF False assms] by metis
  have "j \<le> k \<and> (j < k \<or> c = pickPrimary counts \<or> str_less (code_string (pickPrimary counts)) (code_string c))"
    if "(c, j) \<in> set counts" for c j
    using k(2) [OF that] k(3) [of c] that by (cases "j = k") auto
  then show ?thesis using k(1) False by (auto simp: FromCounts_def)
qed (simp add: FromCounts_def)

theorem FromCounts_primary_witness:
  "case FromCounts [(InsufficientVGPUMemory, 3), (DeviceTypeMismatch, 2), (InsufficientVGPUCore, 3)] 8 of
      None \<Rightarrow> False
    | Some r \<Rightarrow> fr_Primary r = InsufficientVGPUCore"
proof -
  let ?c = "[(InsufficientVGPUMemory, 3), (DeviceTypeMismatch, 2), (InsufficientVGPUCore, 3)] :: (code, int) gomap"
  obtain r where r: "FromCounts ?c 8 = Some r" by (simp add: FromCounts_def)
  have "distinct (keys ?c)" by simp
  from FromCounts_primary [OF this, of 8] obtain k where
    k: "(fr_Primary r, k) \<in> set ?c" "\<forall>(c, j) \<in> set ?c. j \<le> k \<and>
          (j < k \<or> c = fr_Primary r \<or> str_less (code_string (fr_Primary r)) (code_string c))"
    unfolding r by auto
  have no: "\<not> str_less (code_string InsufficientVGPUMemory) (code_string InsufficientVGPUCore)"
    by code_simp
  have "fr_Primary r = InsufficientVGPUMemory \<or> fr_Primary r = DeviceTypeMismatch \<or> fr_Primary r = InsufficientVGPUCore"
    using k(1) by simp blast
  then have "fr_Primary r = InsufficientVGPUCore"
    using k no by (elim disjE) (simp_all del: code_string.simps)
  then show ?thesis by (simp add: r)
qed

section \<open>The aggregate event does not depend on the order of its map\<close>

lemma distinct_bucket_keys: "distinct (keys (bucket_nodes perNode))"
proof -
  have "distinct (keys b) \<Longrightarrow> distinct (keys (foldl (\<lambda>buckets (nodeName, r).
       case r of
         None \<Rightarrow> buckets
       | Some r \<Rightarrow> AList.update (fr_Primary r)
           ((case map_of buckets (fr_Primary r) of None \<Rightarrow> [] | Some ns \<Rightarrow> ns) @ [nodeName]) buckets)
       b perNode))" for b :: "(code, string list) gomap"
    by (induction perNode arbitrary: b) (auto simp: distinct_keys_update split: option.splits)
  then show ?thesis by (simp add: bucket_nodes_def)
qed

definition nodes_with :: "code \<Rightarrow> (string, filter_reason option) gomap \<Rightarrow> string list" where
  "nodes_with c perNode = map fst (filter (\<lambda>(n, r). map_option fr_Primary r = Some c) perNode)"

lemma bucket_nodes_lookup:
  "map_of (bucket_nodes perNode) c = (if nodes_with c perNode = [] then None else Some (nodes_with c perNode))"
proof (induction perNode rule: rev_induct)
  case Nil
  then show ?case by (simp add: bucket_nodes_def nodes_with_def)
next
  case (snoc x xs)
  obtain n r where x: "x = (n, r)" by (cases x)
  show ?case
  proof (cases r)
    case None
    then show ?thesis using snoc x by (simp add: bucket_nodes_def nodes_with_def)
  next
    case (Some f)
    have "bucket_nodes (xs @ [x]) = AList.update (fr_Primary f)
        ((case map_of (bucket_nodes xs) (fr_Primary f) of None \<Rightarrow> [] | Some ns \<Rightarrow> ns) @ [n]) (bucket_nodes xs)"
      by (simp add: bucket_nodes_def x Some)
    then show ?thesis using snoc by (auto simp: map_of_update nodes_with_def x Some)
  qed
qed

lemma mset_of_map:
  assumes "distinct (keys m)" "distinct (keys m')" "map_of m = map_of m'"
  shows "mset m = mset m'"
proof -
  have d: "distinct m" "distinct m'" using assms(1,2) by (auto simp: keys_def distinct_map)
  have "(k, v) \<in> set m \<longleftrightarrow> (k, v) \<in> set m'" for k v
    using map_of_eq_Some_iff [of m k v] map_of_eq_Some_iff [of m' k v] assms by (simp add: keys_def)
  then have "set m = set m'" by (simp add: set_eq_iff split_paired_All)
  then show ?thesis using d by (simp add: set_eq_iff_mset_eq_distinct)
qed

lemma sort_strings_order: "mset xs = mset ys \<Longrightarrow> go_sort str_less xs = go_sort str_less ys"
  by (rule go_sort_order_independent [OF str_cmp.comparator_axioms]) (use str_less_total in auto)

text \<open>The order in which the map of reasons is visited does not change a character of the message.\<close>

lemma FormatAggregate_order:
  assumes "mset perNode = mset perNode'"
  shows "FormatAggregate totalNodes perNode limit = FormatAggregate totalNodes perNode' limit"
proof -
  let ?f = "\<lambda>(c, ns). (c :: code, go_sort str_less ns)"
  let ?m = "map ?f (bucket_nodes perNode)" and ?m' = "map ?f (bucket_nodes perNode')"
  have "mset (nodes_with c perNode) = mset (nodes_with c perNode')" for c
    using assms by (simp add: nodes_with_def)
  then have "go_sort str_less (nodes_with c perNode) = go_sort str_less (nodes_with c perNode')"
    "nodes_with c perNode = [] \<longleftrightarrow> nodes_with c perNode' = []" for c
    using sort_strings_order by (blast, metis mset_zero_iff)
  moreover have "map_of (map ?f b) c = map_option (go_sort str_less) (map_of b c)" for b c
    by (induction b) auto
  ultimately have look: "map_of ?m = map_of ?m'"
    by (intro ext) (simp add: bucket_nodes_lookup)
  have k: "keys (map ?f b) = keys b" for b by (auto simp: keys_def)
  have dist: "distinct (keys ?m)" "distinct (keys ?m')" using distinct_bucket_keys by (auto simp: k)
  have "go_sort entry_less ?m = go_sort entry_less ?m'"
  proof (rule go_sort_order_independent [OF comparator_entry mset_of_map [OF dist look]])
    fix a b assume "a \<in> set ?m" "b \<in> set ?m" "a \<noteq> b"
    then show "entry_less a b \<or> entry_less b a"
      using keys_apart [OF dist(1), of a b] str_less_total [of "code_string (fst a)" "code_string (fst b)"]
      by (auto simp: entry_less_def code_string_inj)
  qed
  moreover have "perNode = [] \<longleftrightarrow> perNode' = []" using assms by (metis mset_zero_iff)
  ultimately show ?thesis by (simp add: FormatAggregate_def Let_def)
qed

end
