(* ===== verification/Node_Info.thy ===== *)
theory Node_Info
  imports Footprint Tiers Reason
begin

text \<open>
  A node as the scheduler sees it (\<^verbatim>\<open>NodeInfo\<close> of \<^verbatim>\<open>pkg/device/types.go\<close>): built from the
  node's annotations and the pods on it, with the usage counters of every device and of the
  node, the link and NUMA topology, and the component maps of cross-pod alignment. The JSON and
  duration decoders of the standard library, the clock and the grace period are the
  record \<^verbatim>\<open>env\<close> every function that needs them takes.
\<close>

section \<open>The environment\<close>

record env =
  e_decodeDevices :: "string \<Rightarrow> device_info list option"
  e_decodeConfig :: "string \<Rightarrow> node_config option"
  e_decodeTopology :: "string \<Rightarrow> (int \<times> (int, p2p_link_type list) gomap) list option"
  e_decodeRail :: "string \<Rightarrow> (string, string) gomap option"
  e_parseDuration :: "string \<Rightarrow> int option"
  e_now :: int
  e_stuckGracePeriod :: int

definition second :: int where
  "second = 1000000000"

definition ParseNodeDeviceInfo :: "env \<Rightarrow> string \<Rightarrow> device_info list option" where
  "ParseNodeDeviceInfo e val =
     (if trim_space val = [] then None
      else map_option (\<lambda>ds. if length ds > 1 then go_sort (\<lambda>a b. di_Id a < di_Id b) ds else ds)
             (e_decodeDevices e val))"

definition NodeConfigInfo_Decode :: "env \<Rightarrow> string \<Rightarrow> node_config option" where
  "NodeConfigInfo_Decode e val = (if trim_space val = [] then None else e_decodeConfig e val)"

definition ParseNodeTopology ::
  "env \<Rightarrow> string \<Rightarrow> (int \<times> (int, p2p_link_type list) gomap) list option" where
  "ParseNodeTopology e val =
     (let v = trim_space val in if v = [] then None else e_decodeTopology e v)"

section \<open>Whether a pod's allocation counts\<close>

definition ShouldCountPodDeviceAllocation :: "env \<Rightarrow> pod \<Rightarrow> bool" where
  "ShouldCountPodDeviceAllocation e p =
     (if p_NodeName p \<noteq> [] then True
      else if HasLabel p PodAssignedPhaseLabel = Some ''failed'' then False
      else (case p_Scheduled p of
         None \<Rightarrow> True
       | Some cond \<Rightarrow>
           if cond_Status cond \<noteq> ''False'' \<or> cond_Reason cond \<noteq> ''Unschedulable'' then True
           else (case HasAnnotation p PodPredicateTimeAnnotation of
              None \<Rightarrow> False
            | Some str \<Rightarrow>
                if str = [] then False
                else (case parse_int str of
                   None \<Rightarrow> False
                 | Some nanos \<Rightarrow>
                     if nanos \<le> 0 then False
                     else if nanos div second \<le> cond_LastTransition cond then False
                     else
                       let stuckDuration = e_now e - nanos;
                           grace = (case HasAnnotation p SchedulerStuckGracePeriodAnnotation of
                                      None \<Rightarrow> e_stuckGracePeriod e
                                    | Some val \<Rightarrow>
                                        if val = [] then e_stuckGracePeriod e
                                        else (case e_parseDuration e val of
                                                None \<Rightarrow> e_stuckGracePeriod e
                                              | Some g \<Rightarrow> if g < second then e_stuckGracePeriod e else g))
                       in stuckDuration \<le> grace))))"

section \<open>Node information\<close>

record node_info =
  ni_node :: node
  ni_deviceMap :: "(int, device) gomap"
  ni_deviceIndexMap :: "(string, int) gomap"
  ni_deviceList :: device_list
  ni_allSameCapacity :: bool
  ni_totalNumber :: int
  ni_usedNumber :: int
  ni_totalMemory :: int
  ni_usedMemory :: int
  ni_totalCores :: int
  ni_usedCores :: int
  ni_maxCapability :: f64
  ni_schedulableDevices :: int
  ni_maxDeviceCores :: int
  ni_maxDeviceMemory :: int
  ni_gpuTopology :: bool
  ni_numaTopology :: bool
  ni_tiers :: "tiered_components option"
  ni_gpuRail :: "(string, string) gomap"
  ni_maxNUMAGroupSize :: int
  ni_nvlinkComponentByUUID :: "(string, int) gomap"
  ni_nvlinkComponentToUUIDs :: "(int, string list) gomap"
  ni_nvlinkComponentDomain :: "(int, string) gomap"
  ni_nvlinkRootByDomain :: "(string, int) gomap"
  ni_nvlinkComponentOrdinal :: "(int, int) gomap"
  ni_nodePods :: "pod list"
  ni_config :: node_config

record node_info_option =
  no_excludedUids :: "string set"
  no_nodePods :: "pod list"
  no_nodeConfig :: "node_config option"
  no_nodeDevice :: "device_info list option"
  no_resetUsed :: bool
  no_resetPods :: bool
  no_gpuTopologyEnabled :: bool

text \<open>The errors of building a node: a rejection code, or a panic on an index out of range.\<close>

datatype gather_error = Rejected code | IndexPanic

section \<open>Gathering the devices of a node\<close>

record gather_info =
  gi_DeviceMap :: "(int, device) gomap"
  gi_DeviceList :: device_list
  gi_DeviceIndexMap :: "(string, int) gomap"
  gi_EnabledGPUTopology :: bool
  gi_EnabledNumaAffinity :: bool
  gi_GPURail :: "(string, string) gomap"
  gi_config :: node_config

definition register_device :: "gather_info \<Rightarrow> device_info \<Rightarrow> gather_info option" where
  "register_device g dev =
     (if 0 \<le> di_Id dev \<and> di_Id dev < int (length (gi_DeviceList g))
      then Some (g\<lparr>gi_DeviceIndexMap := AList.update (di_Uuid dev) (di_Id dev) (gi_DeviceIndexMap g),
                   gi_DeviceMap := AList.update (di_Id dev) (NewDevice dev) (gi_DeviceMap g),
                   gi_DeviceList := (gi_DeviceList g)[nat (di_Id dev) :=
                     Some (NewLinkDevice (di_Id dev) (di_Uuid dev) (di_BusId dev))],
                   gi_EnabledNumaAffinity := (gi_EnabledNumaAffinity g \<or> di_Numa dev \<ge> 0)\<rparr>)
      else None)"

fun register_devices :: "gather_info \<Rightarrow> device_info list \<Rightarrow> gather_info option" where
  "register_devices g [] = Some g"
| "register_devices g (d # ds) =
     (case register_device g d of None \<Rightarrow> None | Some g' \<Rightarrow> register_devices g' ds)"

text \<open>The three nested loops over the published links, as the list of (from, to, type).\<close>

definition topology_links :: "(int \<times> (int, p2p_link_type list) gomap) list \<Rightarrow> (int \<times> int \<times> p2p_link_type) list" where
  "topology_links nodeTopology =
     concat (map (\<lambda>(index, lks). concat (map (\<lambda>(toIdx, ts). map (\<lambda>t. (index, toIdx, t)) ts) lks)) nodeTopology)"

fun add_links :: "gather_info \<Rightarrow> (int \<times> int \<times> p2p_link_type) list \<Rightarrow> gather_info option" where
  "add_links g [] = Some g"
| "add_links g ((from, dest, t) # ls) =
     (case DeviceList_AddLink from dest t (gi_DeviceList g) of
        None \<Rightarrow> None
      | Some dl \<Rightarrow> add_links (g\<lparr>gi_EnabledGPUTopology := True, gi_DeviceList := dl\<rparr>) ls)"

definition node_anno :: "node \<Rightarrow> anno_key \<Rightarrow> string option" where
  "node_anno n k = (case map_of (n_Annotations n) k of None \<Rightarrow> None | Some v \<Rightarrow> if v = [] then None else Some v)"

definition NewNodeDeviceGatherInfo :: "env \<Rightarrow> node \<Rightarrow> node_info_option \<Rightarrow> gather_error + gather_info" where
  "NewNodeDeviceGatherInfo e node opt =
     (case (case no_nodeDevice opt of
              Some ds \<Rightarrow> Inr ds
            | None \<Rightarrow>
                (case node_anno node NodeDeviceRegisterAnnotation of
                   None \<Rightarrow> Inl NodeNoVGPURegister
                 | Some v \<Rightarrow> (case ParseNodeDeviceInfo e v of
                                None \<Rightarrow> Inl NodeBadVGPURegister | Some ds \<Rightarrow> Inr ds))) of
        Inl c \<Rightarrow> Inl (Rejected c)
      | Inr devices \<Rightarrow>
     (case (case no_nodeConfig opt of
              Some cfg \<Rightarrow> Inr cfg
            | None \<Rightarrow>
                (case node_anno node NodeConfigInfoAnnotation of
                   None \<Rightarrow> Inl NodeNoVGPUConfig
                 | Some v \<Rightarrow> (case NodeConfigInfo_Decode e v of
                                None \<Rightarrow> Inl NodeBadVGPUConfig | Some cfg \<Rightarrow> Inr cfg))) of
        Inl c \<Rightarrow> Inl (Rejected c)
      | Inr cfg \<Rightarrow>
     (let g0 = \<lparr>gi_DeviceMap = [], gi_DeviceList = replicate (length devices) None, gi_DeviceIndexMap = [],
                gi_EnabledGPUTopology = False, gi_EnabledNumaAffinity = False, gi_GPURail = [], gi_config = cfg\<rparr>
      in case register_devices g0 devices of
           None \<Rightarrow> Inl IndexPanic
         | Some g1 \<Rightarrow>
             if \<not> no_gpuTopologyEnabled opt then Inr g1
             else (case node_anno node NodeDeviceTopologyAnnotation of
                     None \<Rightarrow> Inr g1
                   | Some topoValue \<Rightarrow>
                       let topo = (case ParseNodeTopology e topoValue of None \<Rightarrow> [] | Some t \<Rightarrow> t) in
                       (case add_links g1 (topology_links topo) of
                          None \<Rightarrow> Inl IndexPanic
                        | Some g2 \<Rightarrow>
                            (case node_anno node NodeGPUDomainAnnotation of
                               None \<Rightarrow> Inr g2
                             | Some railValue \<Rightarrow>
                                 (case e_decodeRail e railValue of
                                    None \<Rightarrow> Inr g2
                                  | Some rail \<Rightarrow> Inr (g2\<lparr>gi_GPURail := rail\<rparr>))))))))"

section \<open>Component maps\<close>

definition buildComponentIndex :: "(string, int) gomap \<Rightarrow> (int, string list) gomap" where
  "buildComponentIndex byUuid =
     foldl (\<lambda>m (uuid, rootId). AList.update rootId ((case map_of m rootId of None \<Rightarrow> [] | Some us \<Rightarrow> us) @ [uuid]) m)
       [] byUuid"

definition min_index :: "(string, int) gomap \<Rightarrow> string list \<Rightarrow> int" where
  "min_index indexMap uuids =
     foldl (\<lambda>minIdx uuid. case map_of indexMap uuid of
              None \<Rightarrow> minIdx | Some i \<Rightarrow> if i < minIdx then i else minIdx) max_int uuids"

text \<open>The roots with their least device index, ranked by that index and then by the rootId.\<close>

definition ranked_roots :: "(int, string list) gomap \<Rightarrow> (string, int) gomap \<Rightarrow> (int \<times> int) list" where
  "ranked_roots componentToUUIDs indexMap =
     go_sort (\<lambda>a b. if snd a \<noteq> snd b then snd a < snd b else fst a < fst b)
       (map (\<lambda>(rootId, uuids). (rootId, min_index indexMap uuids)) componentToUUIDs)"

definition rail_keyed :: "(string, int) gomap \<Rightarrow> (string, string) gomap \<Rightarrow> bool" where
  "rail_keyed indexMap gpuRail = (gpuRail \<noteq> [] \<and> list_all (\<lambda>u. map_of gpuRail u \<noteq> None) (keys indexMap))"

definition domain_signature ::
  "bool \<Rightarrow> (int, string list) gomap \<Rightarrow> (string, string) gomap \<Rightarrow> nat \<Rightarrow> int \<Rightarrow> string" where
  "domain_signature railKeyed componentToUUIDs gpuRail ordinal rootId =
     (if railKeyed
      then let uuids = (case map_of componentToUUIDs rootId of None \<Rightarrow> [] | Some us \<Rightarrow> us);
               rails = map (\<lambda>u. case map_of gpuRail u of None \<Rightarrow> [] | Some r \<Rightarrow> r) uuids
           in ''rail:'' @ join '','' (go_sort str_less rails)
      else ''ord:'' @ itoa (int ordinal))"

definition buildComponentDomains ::
  "(int, string list) gomap \<Rightarrow> (string, int) gomap \<Rightarrow> (string, string) gomap \<Rightarrow>
   (int, int) gomap \<times> (int, string) gomap \<times> (string, int) gomap" where
  "buildComponentDomains componentToUUIDs indexMap gpuRail =
     (let railKeyed = rail_keyed indexMap gpuRail in
      foldl (\<lambda>(ordinals, domains, roots) (ordinal, rootId).
        let sg = domain_signature railKeyed componentToUUIDs gpuRail ordinal rootId in
        (AList.update rootId (int ordinal) ordinals, AList.update rootId sg domains,
         if map_of roots sg = None then AList.update sg rootId roots else roots))
       ([], [], []) (enumerate 0 (map fst (ranked_roots componentToUUIDs indexMap))))"

definition computeMaxNUMAGroupSize :: "(int, device) gomap \<Rightarrow> int" where
  "computeMaxNUMAGroupSize deviceMap =
     (let groups = foldl (\<lambda>m d. if d_numa d < 0 then m
                 else AList.update (d_numa d) ((case map_of m (d_numa d) of None \<Rightarrow> 0 | Some c \<Rightarrow> c) + 1) m)
               ([] :: (int, int) gomap) (vals deviceMap)
      in foldl (\<lambda>best c. if c > best then c else best) 0 (vals groups))"

section \<open>Usage accounting\<close>

datatype add_error = UnknownUUID | UnknownDevice

definition schedulable :: "device \<Rightarrow> bool" where
  "schedulable d = (\<not> d_mig d \<and> d_healthy d)"

definition add_node_usage :: "int \<Rightarrow> int \<Rightarrow> int \<Rightarrow> node_info \<Rightarrow> node_info" where
  "add_node_usage number cores memory n =
     n\<lparr>ni_usedNumber := i64 (ni_usedNumber n + number), ni_usedCores := i64 (ni_usedCores n + cores),
       ni_usedMemory := i64 (ni_usedMemory n + memory)\<rparr>"

definition addFootprintResources :: "node_info \<Rightarrow> pod_footprint \<Rightarrow> add_error + node_info" where
  "addFootprintResources n fp =
     (case map_of (ni_deviceIndexMap n) (fp_Uuid fp) of
        None \<Rightarrow> Inl UnknownUUID
      | Some deviceId \<Rightarrow>
          (case map_of (ni_deviceMap n) deviceId of
             None \<Rightarrow> Inl UnknownDevice
           | Some dev \<Rightarrow>
               let n' = n\<lparr>ni_deviceMap := AList.map_entry deviceId
                            (addUsedResourcesN (fp_Number fp) (fp_Cores fp) (fp_Memory fp)) (ni_deviceMap n)\<rparr>
               in Inr (if schedulable dev then add_node_usage (fp_Number fp) (fp_Cores fp) (fp_Memory fp) n' else n')))"

definition AddUsedResources :: "node_info \<Rightarrow> device_claim \<Rightarrow> add_error + node_info" where
  "AddUsedResources n claim =
     (case map_of (ni_deviceIndexMap n) (dc_Uuid claim) of
        None \<Rightarrow> Inl UnknownUUID
      | Some deviceId \<Rightarrow>
          (case map_of (ni_deviceMap n) deviceId of
             None \<Rightarrow> Inl UnknownDevice
           | Some dev \<Rightarrow>
               let n' = n\<lparr>ni_deviceMap := AList.map_entry deviceId
                            (addUsedResources (dc_Cores claim) (dc_Memory claim)) (ni_deviceMap n)\<rparr>
               in Inr (if schedulable dev then add_node_usage 1 (dc_Cores claim) (dc_Memory claim) n' else n')))"

text \<open>A failed addition is logged and leaves the node as it is.\<close>

definition or_keep :: "node_info \<Rightarrow> add_error + node_info \<Rightarrow> node_info" where
  "or_keep n r = (case r of Inl e \<Rightarrow> n | Inr n' \<Rightarrow> n')"

definition AddPodUsedResources :: "env \<Rightarrow> node_info \<Rightarrow> pod \<Rightarrow> node_info" where
  "AddPodUsedResources e n p =
     (if \<not> ShouldCountPodDeviceAllocation e p then n
      else let podDeviceClaim = GetPodDeviceClaim p in
        if podDeviceClaim = [] then n
        else if podHasVGPUInitContainer p
        then foldl (\<lambda>n fp. or_keep n (addFootprintResources n fp)) n (vals (ReducePodFootprint p podDeviceClaim))
        else foldl (\<lambda>n cc. foldl (\<lambda>n c. or_keep n (AddUsedResources n c)) n (cdc_DeviceClaims cc)) n podDeviceClaim)"

definition resetResourceUsage :: "node_info \<Rightarrow> node_info" where
  "resetResourceUsage n =
     n\<lparr>ni_usedNumber := 0, ni_usedCores := 0, ni_usedMemory := 0,
       ni_deviceMap := map (\<lambda>(k, d). (k, ResetUsed d)) (ni_deviceMap n)\<rparr>"

definition AddPodsUsedResources :: "env \<Rightarrow> node_info \<Rightarrow> pod list \<Rightarrow> node_info_option \<Rightarrow> node_info" where
  "AddPodsUsedResources e n pods opt =
     (let n1 = (if no_resetPods opt then n\<lparr>ni_nodePods := []\<rparr> else n);
          n2 = (if no_resetUsed opt then resetResourceUsage n1 else n1)
      in foldl (\<lambda>n p. if p_UID p \<in> no_excludedUids opt then n
                     else AddPodUsedResources e (n\<lparr>ni_nodePods := ni_nodePods n @ [p]\<rparr>) p)
           n2 (PodsOnNodeCallback pods (n_Name (ni_node n))))"

section \<open>Snapshots\<close>

record usage_snapshot =
  us_nodeNumber :: int
  us_nodeCores :: int
  us_nodeMemory :: int
  us_devices :: "(int, int \<times> int \<times> int) gomap"

definition SnapshotUsage :: "node_info \<Rightarrow> usage_snapshot" where
  "SnapshotUsage n =
     \<lparr>us_nodeNumber = ni_usedNumber n, us_nodeCores = ni_usedCores n, us_nodeMemory = ni_usedMemory n,
      us_devices = map (\<lambda>(k, d). (k, (d_usedNumber d, d_usedCores d, d_usedMemory d))) (ni_deviceMap n)\<rparr>"

definition RestoreUsage :: "usage_snapshot \<Rightarrow> node_info \<Rightarrow> node_info" where
  "RestoreUsage snap n =
     n\<lparr>ni_usedNumber := us_nodeNumber snap, ni_usedCores := us_nodeCores snap, ni_usedMemory := us_nodeMemory snap,
       ni_deviceMap := map (\<lambda>(k, d). (k, case map_of (us_devices snap) k of
                          None \<Rightarrow> d
                        | Some (num, cores, mem) \<Rightarrow>
                            d\<lparr>d_usedNumber := num, d_usedCores := cores, d_usedMemory := mem\<rparr>)) (ni_deviceMap n)\<rparr>"

section \<open>Node totals\<close>

text \<open>The locals of the loop of \<^verbatim>\<open>RefreshResourcesData\<close>: first, sameCapacity, memoryCapacity.\<close>

type_synonym refresh_state = "node_info \<times> bool \<times> bool \<times> int"

definition refresh_device :: "refresh_state \<Rightarrow> device \<Rightarrow> refresh_state" where
  "refresh_device s d =
     (case s of (n, first, same, cap) \<Rightarrow>
       if \<not> schedulable d then s
       else (n\<lparr>ni_schedulableDevices := i64 (ni_schedulableDevices n + 1),
               ni_totalNumber := i64 (ni_totalNumber n + GetTotalNumber d),
               ni_usedNumber := i64 (ni_usedNumber n + i64 (GetTotalNumber d - AllocatableNumber d)),
               ni_totalMemory := i64 (ni_totalMemory n + GetTotalMemory d),
               ni_usedMemory := i64 (ni_usedMemory n + i64 (GetTotalMemory d - AllocatableMemory d)),
               ni_totalCores := i64 (ni_totalCores n + GetTotalCores d),
               ni_usedCores := i64 (ni_usedCores n + i64 (GetTotalCores d - AllocatableCores d)),
               ni_maxCapability := max (ni_maxCapability n) (d_capability d),
               ni_maxDeviceCores := max (ni_maxDeviceCores n) (GetTotalCores d),
               ni_maxDeviceMemory := max (ni_maxDeviceMemory n) (GetTotalMemory d)\<rparr>,
             False,
             if first then same else if GetTotalMemory d \<noteq> cap then False else same,
             if first then GetTotalMemory d else cap))"

definition RefreshResourcesData :: "node_info \<Rightarrow> node_info" where
  "RefreshResourcesData n =
     (let n0 = n\<lparr>ni_totalNumber := 0, ni_totalCores := 0, ni_totalMemory := 0,
                 ni_usedNumber := 0, ni_usedCores := 0, ni_usedMemory := 0, ni_maxCapability := 0,
                 ni_schedulableDevices := 0, ni_maxDeviceCores := 0, ni_maxDeviceMemory := 0\<rparr>
      in case foldl refresh_device (n0, True, True, 0) (vals (ni_deviceMap n)) of
           (n1, first, same, cap) \<Rightarrow> n1\<lparr>ni_allSameCapacity := same\<rparr>)"

definition GetAvailableCores :: "node_info \<Rightarrow> int" where
  "GetAvailableCores n = (let a = i64 (ni_totalCores n - ni_usedCores n) in if a \<ge> 0 then a else 0)"

definition GetAvailableMemory :: "node_info \<Rightarrow> int" where
  "GetAvailableMemory n = (let a = i64 (ni_totalMemory n - ni_usedMemory n) in if a \<ge> 0 then a else 0)"

definition GetAvailableNumber :: "node_info \<Rightarrow> int" where
  "GetAvailableNumber n = (let a = i64 (ni_totalNumber n - ni_usedNumber n) in if a \<ge> 0 then a else 0)"

section \<open>Building the node information\<close>

definition link_maps :: "(string, string) gomap \<Rightarrow> node_info \<Rightarrow> node_info" where
  "link_maps rail n =
     (let tiers = Some (computeTieredComponents (ni_deviceList n));
          byU = byUUID tiers TierNVLink (ni_deviceList n);
          toU = buildComponentIndex byU
      in case buildComponentDomains toU (ni_deviceIndexMap n) rail of
           (ordinals, domains, roots) \<Rightarrow>
             n\<lparr>ni_tiers := tiers, ni_nvlinkComponentByUUID := byU, ni_nvlinkComponentToUUIDs := toU,
               ni_nvlinkComponentOrdinal := ordinals, ni_nvlinkComponentDomain := domains,
               ni_nvlinkRootByDomain := roots, ni_gpuRail := rail\<rparr>)"

definition NewNodeInfo :: "env \<Rightarrow> node \<Rightarrow> node_info_option \<Rightarrow> gather_error + node_info" where
  "NewNodeInfo e node opt =
     (case NewNodeDeviceGatherInfo e node opt of
        Inl err \<Rightarrow> Inl err
      | Inr g \<Rightarrow>
          let n0 = \<lparr>ni_node = node, ni_deviceMap = gi_DeviceMap g, ni_deviceIndexMap = gi_DeviceIndexMap g,
                    ni_deviceList = gi_DeviceList g, ni_allSameCapacity = False,
                    ni_totalNumber = 0, ni_usedNumber = 0, ni_totalMemory = 0, ni_usedMemory = 0,
                    ni_totalCores = 0, ni_usedCores = 0, ni_maxCapability = 0, ni_schedulableDevices = 0,
                    ni_maxDeviceCores = 0, ni_maxDeviceMemory = 0,
                    ni_gpuTopology = gi_EnabledGPUTopology g, ni_numaTopology = gi_EnabledNumaAffinity g,
                    ni_tiers = None, ni_gpuRail = [], ni_maxNUMAGroupSize = 0,
                    ni_nvlinkComponentByUUID = [], ni_nvlinkComponentToUUIDs = [],
                    ni_nvlinkComponentDomain = [], ni_nvlinkRootByDomain = [], ni_nvlinkComponentOrdinal = [],
                    ni_nodePods = [], ni_config = gi_config g\<rparr>;
              n1 = (if ni_gpuTopology n0 then link_maps (gi_GPURail g) n0 else n0);
              n2 = (if ni_numaTopology n1
                    then n1\<lparr>ni_maxNUMAGroupSize := computeMaxNUMAGroupSize (ni_deviceMap n1)\<rparr> else n1)
          in Inr (RefreshResourcesData (AddPodsUsedResources e n2 (no_nodePods opt) opt)))"

section \<open>Link queries\<close>

definition LinkTopologyFitness :: "node_info \<Rightarrow> int \<Rightarrow> int" where
  "LinkTopologyFitness n needNumber =
     (if \<not> ni_gpuTopology n then 0
      else if int (largest (ni_tiers n) TierNVLink) \<ge> needNumber then 5
      else if int (largest (ni_tiers n) TierSwitch) \<ge> needNumber then 4
      else if int (largest (ni_tiers n) TierNUMA) \<ge> needNumber then 3
      else if int (largest (ni_tiers n) TierAny) \<ge> needNumber then 2
      else 1)"

definition ConnectedAtTier :: "node_info \<Rightarrow> string \<Rightarrow> string \<Rightarrow> link_tier \<Rightarrow> bool" where
  "ConnectedAtTier n uuidA uuidB tier =
     (case map_of (ni_deviceIndexMap n) uuidA of
        None \<Rightarrow> False
      | Some ia \<Rightarrow>
          (case map_of (ni_deviceIndexMap n) uuidB of
             None \<Rightarrow> False
           | Some ib \<Rightarrow>
               if ia = ib then False
               else if ia \<ge> int (length (ni_deviceList n)) \<or> ib \<ge> int (length (ni_deviceList n)) then False
               else (case at_index (ni_deviceList n) ia of
                       None \<Rightarrow> False
                     | Some dev \<Rightarrow> list_ex (\<lambda>t. t \<ge> LinkTierThreshold tier) (links_to dev ib))))"

definition HasLinkPeerAtTier :: "node_info \<Rightarrow> string \<Rightarrow> link_tier \<Rightarrow> bool" where
  "HasLinkPeerAtTier n uuid tier =
     (case map_of (ni_deviceIndexMap n) uuid of
        None \<Rightarrow> False
      | Some i \<Rightarrow>
          if i \<ge> int (length (ni_deviceList n)) then False
          else (case at_index (ni_deviceList n) i of
                  None \<Rightarrow> False
                | Some dev \<Rightarrow>
                    list_ex (\<lambda>(peer, ls). peer \<noteq> i \<and> list_ex (\<lambda>t. t \<ge> LinkTierThreshold tier) ls) (ld_Links dev)))"

definition LinkTierIsUniform :: "node_info \<Rightarrow> link_tier \<Rightarrow> bool" where
  "LinkTierIsUniform n tier = isUniform (ni_tiers n) tier"

section \<open>Cross-pod alignment\<close>

definition railKeyOf :: "node_info \<Rightarrow> string \<Rightarrow> string option" where
  "railKeyOf n uuid =
     (case map_of (ni_gpuRail n) uuid of
        Some rail \<Rightarrow> Some (''rail:'' @ rail)
      | None \<Rightarrow> (case map_of (ni_deviceIndexMap n) uuid of
                   Some index \<Rightarrow> Some (''idx:'' @ itoa index) | None \<Rightarrow> None))"

definition RailSignatureOfUUIDs :: "node_info \<Rightarrow> string list \<Rightarrow> string option" where
  "RailSignatureOfUUIDs n uuids =
     (let ks = rev (remdups (rev (List.map_filter (railKeyOf n) uuids)))
      in if ks = [] then None else Some (join '','' (go_sort str_less ks)))"

definition UUIDsMatchingRailSignature :: "node_info \<Rightarrow> string \<Rightarrow> string list" where
  "UUIDsMatchingRailSignature n signature =
     (if signature = [] then []
      else let want = split_on (CHR '','') signature in
        go_sort str_less (filter (\<lambda>u. case railKeyOf n u of None \<Rightarrow> False | Some k \<Rightarrow> k \<in> set want)
          (keys (ni_deviceIndexMap n))))"

definition ComponentByDomain :: "node_info \<Rightarrow> string \<Rightarrow> int option" where
  "ComponentByDomain n domain =
     (if domain = [] \<or> ni_nvlinkRootByDomain n = [] then None else map_of (ni_nvlinkRootByDomain n) domain)"

text \<open>Votes: a map from the candidates to how often they were named.\<close>

definition vote :: "('a, int) gomap \<Rightarrow> 'a \<Rightarrow> ('a, int) gomap" where
  "vote m x = AList.update x ((case map_of m x of None \<Rightarrow> 0 | Some v \<Rightarrow> v) + 1) m"

definition DomainOfUUIDs :: "node_info \<Rightarrow> string list \<Rightarrow> string option" where
  "DomainOfUUIDs n uuids =
     (if uuids = [] \<or> ni_nvlinkComponentByUUID n = [] then None
      else let votes = foldl (\<lambda>m uuid.
                  case map_of (ni_nvlinkComponentByUUID n) uuid of
                    None \<Rightarrow> m
                  | Some rootId \<Rightarrow> (case map_of (ni_nvlinkComponentDomain n) rootId of
                                  None \<Rightarrow> m | Some domName \<Rightarrow> vote m domName))
                ([] :: (string, int) gomap) (rev (remdups (rev uuids)))
           in if votes = [] then None
              else Some (fst (foldl (\<lambda>(bestDom, bestVotes) (domName, v).
                     if v > bestVotes \<or> (v = bestVotes \<and> (bestDom = [] \<or> str_less domName bestDom))
                     then (domName, v) else (bestDom, bestVotes)) ([], 0) votes)))"

text \<open>
  The pods of the gang that vote: by the gang key, or by the controller when there is no gang.
  The controller is identified by its UID.
\<close>

definition gang_sibling :: "env \<Rightarrow> string \<Rightarrow> string option \<Rightarrow> string set \<Rightarrow> pod \<Rightarrow> bool" where
  "gang_sibling e gangName owner excluded p =
     (p_UID p \<notin> excluded \<and>
      (if gangName \<noteq> [] then PodGangKey p = Some gangName
       else (case owner of None \<Rightarrow> True | Some uid \<Rightarrow> p_Controller p = Some uid)) \<and>
      ShouldCountPodDeviceAllocation e p)"

definition GangAnchorComponent :: "env \<Rightarrow> node_info \<Rightarrow> string \<Rightarrow> string option \<Rightarrow> string set \<Rightarrow> int option" where
  "GangAnchorComponent e n gangName owner excluded =
     (if ni_nvlinkComponentByUUID n = [] \<or> ni_nodePods n = [] then None
      else if gangName = [] \<and> owner = None then None
      else let votes = foldl vote ([] :: (int, int) gomap)
                 (List.map_filter (map_of (ni_nvlinkComponentByUUID n))
                   (concat (map PodPreAllocatedUUIDs (filter (gang_sibling e gangName owner excluded) (ni_nodePods n)))))
           in if votes = [] then None
              else Some (fst (foldl (\<lambda>(bestRoot, bestVotes, bestOrd) (rootId, v).
                     let ord = (case map_of (ni_nvlinkComponentOrdinal n) rootId of None \<Rightarrow> max_int | Some k \<Rightarrow> k) in
                     if v > bestVotes \<or> (v = bestVotes \<and> ord < bestOrd) then (rootId, v, ord)
                     else (bestRoot, bestVotes, bestOrd)) (-1, 0, max_int) votes)))"

end
