(* ===== verification/Node_Usage.thy ===== *)
theory Node_Usage
  imports Node_Info
begin

text \<open>
  What the usage accounting of a node guarantees. The node totals of
  \<^verbatim>\<open>RefreshResourcesData\<close> are the sums over the schedulable cards, charging a claim that fits
  keeps them so, and a snapshot brings back the exact node it was taken from, whatever was
  charged in between.
\<close>

section \<open>The three resources of a card and of a node\<close>

fun dev_total :: "dim \<Rightarrow> device \<Rightarrow> int" where
  "dev_total Number d = GetTotalNumber d"
| "dev_total Cores d = GetTotalCores d"
| "dev_total Memory d = GetTotalMemory d"

fun dev_free :: "dim \<Rightarrow> device \<Rightarrow> int" where
  "dev_free Number d = AllocatableNumber d"
| "dev_free Cores d = AllocatableCores d"
| "dev_free Memory d = AllocatableMemory d"

fun node_total :: "dim \<Rightarrow> node_info \<Rightarrow> int" where
  "node_total Number n = ni_totalNumber n"
| "node_total Cores n = ni_totalCores n"
| "node_total Memory n = ni_totalMemory n"

fun node_used :: "dim \<Rightarrow> node_info \<Rightarrow> int" where
  "node_used Number n = ni_usedNumber n"
| "node_used Cores n = ni_usedCores n"
| "node_used Memory n = ni_usedMemory n"

fun node_avail :: "dim \<Rightarrow> node_info \<Rightarrow> int" where
  "node_avail Number n = GetAvailableNumber n"
| "node_avail Cores n = GetAvailableCores n"
| "node_avail Memory n = GetAvailableMemory n"

definition cards :: "node_info \<Rightarrow> device list" where
  "cards n = filter schedulable (vals (ni_deviceMap n))"

section \<open>Refreshing the totals\<close>

lemma refresh_fold:
  shows "in_i64 (node_total q n) \<Longrightarrow>
      node_total q (fst (foldl refresh_device (n, f, s, c) ds))
      = i64 (node_total q n + sum_list (map (dev_total q) (filter schedulable ds)))" (is "_ \<Longrightarrow> ?total n f s c")
    and "in_i64 (node_used q n) \<Longrightarrow>
      node_used q (fst (foldl refresh_device (n, f, s, c) ds))
      = i64 (node_used q n + sum_list (map (\<lambda>d. dev_total q d - dev_free q d) (filter schedulable ds)))"
      (is "_ \<Longrightarrow> ?used n f s c")
proof -
  show "in_i64 (node_total q n) \<Longrightarrow> ?total n f s c"
  proof (induction ds arbitrary: n f s c)
    case Nil
    then show ?case by (simp add: i64_id)
  next
    case (Cons d ds)
    then show ?case by (cases q) (simp_all add: refresh_device_def i64_range add.assoc)
  qed
  show "in_i64 (node_used q n) \<Longrightarrow> ?used n f s c"
  proof (induction ds arbitrary: n f s c)
    case Nil
    then show ?case by (simp add: i64_id)
  next
    case (Cons d ds)
    then show ?case by (cases q) (simp_all add: refresh_device_def i64_range algebra_simps)
  qed
qed

lemma refresh_fold_count:
  "in_i64 (ni_schedulableDevices n) \<Longrightarrow>
   ni_schedulableDevices (fst (foldl refresh_device (n, f, s, c) ds))
   = i64 (ni_schedulableDevices n + int (length (filter schedulable ds)))"
proof (induction ds arbitrary: n f s c)
  case (Cons d ds)
  then show ?case by (simp add: refresh_device_def i64_range algebra_simps)
qed (simp add: i64_id)

lemma refresh_fold_limits:
  "ni_maxDeviceMemory (fst (foldl refresh_device (n, f, s, c) ds))
   = foldr (\<lambda>d. max (GetTotalMemory d)) (filter schedulable ds) (ni_maxDeviceMemory n)"
  "ni_maxDeviceCores (fst (foldl refresh_device (n, f, s, c) ds))
   = foldr (\<lambda>d. max (GetTotalCores d)) (filter schedulable ds) (ni_maxDeviceCores n)"
proof -
  have push: "foldr (\<lambda>d. max (g d)) xs (max a b) = max b (foldr (\<lambda>d. max (g d)) xs a)"
    for g :: "device \<Rightarrow> int" and xs a b by (induction xs) auto
  show "ni_maxDeviceMemory (fst (foldl refresh_device (n, f, s, c) ds))
   = foldr (\<lambda>d. max (GetTotalMemory d)) (filter schedulable ds) (ni_maxDeviceMemory n)"
    by (induction ds arbitrary: n f s c) (simp_all add: refresh_device_def push)
  show "ni_maxDeviceCores (fst (foldl refresh_device (n, f, s, c) ds))
   = foldr (\<lambda>d. max (GetTotalCores d)) (filter schedulable ds) (ni_maxDeviceCores n)"
    by (induction ds arbitrary: n f s c) (simp_all add: refresh_device_def push)
qed

lemma refresh_fold_same:
  "fst (snd (snd (foldl refresh_device (n, f, s, c) ds))) \<longleftrightarrow>
     s \<and> (\<forall>d \<in> set (filter schedulable ds).
            GetTotalMemory d = (if f then GetTotalMemory (hd (filter schedulable ds)) else c))"
proof (induction ds arbitrary: n f s c)
  case (Cons d ds)
  obtain n' where "refresh_device (n, f, s, c) d =
      (if schedulable d then (n', False, (if f then s else s \<and> GetTotalMemory d = c), if f then GetTotalMemory d else c)
       else (n, f, s, c))"
    by (rule that [of "fst (refresh_device (n, f, s, c) d)"]) (auto simp: refresh_device_def)
  then show ?case by (auto simp: Cons.IH)
qed simp

lemma refresh_fold_rest:
  "ni_deviceMap (fst (foldl refresh_device (n, f, s, c) ds)) = ni_deviceMap n"
  "ni_deviceIndexMap (fst (foldl refresh_device (n, f, s, c) ds)) = ni_deviceIndexMap n"
  "ni_config (fst (foldl refresh_device (n, f, s, c) ds)) = ni_config n"
  by (induction ds arbitrary: n f s c) (simp_all add: refresh_device_def)

lemma zero_in_i64 [simp]: "in_i64 0"
  by (simp add: in_i64_def)

lemma Refresh_eqs:
  "node_total q (RefreshResourcesData n) = i64 (sum_list (map (dev_total q) (cards n)))"
  "node_used q (RefreshResourcesData n) = i64 (sum_list (map (\<lambda>d. dev_total q d - dev_free q d) (cards n)))"
  "ni_schedulableDevices (RefreshResourcesData n) = i64 (int (length (cards n)))"
  "ni_maxDeviceMemory (RefreshResourcesData n) = foldr (\<lambda>d. max (GetTotalMemory d)) (cards n) 0"
  "ni_maxDeviceCores (RefreshResourcesData n) = foldr (\<lambda>d. max (GetTotalCores d)) (cards n) 0"
  "ni_allSameCapacity (RefreshResourcesData n) \<longleftrightarrow>
     (\<forall>d \<in> set (cards n). GetTotalMemory d = GetTotalMemory (hd (cards n)))"
  "ni_deviceMap (RefreshResourcesData n) = ni_deviceMap n"
  "ni_deviceIndexMap (RefreshResourcesData n) = ni_deviceIndexMap n"
  "cards (RefreshResourcesData n) = cards n"
proof -
  let ?n0 = "n\<lparr>ni_totalNumber := 0, ni_totalCores := 0, ni_totalMemory := 0,
       ni_usedNumber := 0, ni_usedCores := 0, ni_usedMemory := 0, ni_maxCapability := 0,
       ni_schedulableDevices := 0, ni_maxDeviceCores := 0, ni_maxDeviceMemory := 0\<rparr>"
  let ?r = "foldl refresh_device (?n0, True, True, 0) (vals (ni_deviceMap n))"
  have z: "node_total q ?n0 = 0" "node_used q ?n0 = 0" by (cases q; simp)+
  have r: "RefreshResourcesData n = (fst ?r)\<lparr>ni_allSameCapacity := fst (snd (snd ?r))\<rparr>"
    by (simp add: RefreshResourcesData_def Let_def split: prod.split)
  have k: "node_total q (m\<lparr>ni_allSameCapacity := b\<rparr>) = node_total q m"
    "node_used q (m\<lparr>ni_allSameCapacity := b\<rparr>) = node_used q m" for m b by (cases q; simp)+
  show "node_total q (RefreshResourcesData n) = i64 (sum_list (map (dev_total q) (cards n)))"
    using refresh_fold(1) [of q ?n0 True True 0 "vals (ni_deviceMap n)"] by (simp add: r k z cards_def)
  show "node_used q (RefreshResourcesData n) = i64 (sum_list (map (\<lambda>d. dev_total q d - dev_free q d) (cards n)))"
    using refresh_fold(2) [of q ?n0 True True 0 "vals (ni_deviceMap n)"] by (simp add: r k z cards_def)
  show "ni_schedulableDevices (RefreshResourcesData n) = i64 (int (length (cards n)))"
    using refresh_fold_count [of ?n0 True True 0 "vals (ni_deviceMap n)"] by (simp add: r cards_def)
  show "ni_maxDeviceMemory (RefreshResourcesData n) = foldr (\<lambda>d. max (GetTotalMemory d)) (cards n) 0"
    "ni_maxDeviceCores (RefreshResourcesData n) = foldr (\<lambda>d. max (GetTotalCores d)) (cards n) 0"
    by (simp_all add: r refresh_fold_limits cards_def)
  show "ni_allSameCapacity (RefreshResourcesData n) \<longleftrightarrow>
     (\<forall>d \<in> set (cards n). GetTotalMemory d = GetTotalMemory (hd (cards n)))"
    by (simp add: r refresh_fold_same cards_def)
  show m: "ni_deviceMap (RefreshResourcesData n) = ni_deviceMap n"
    and "ni_deviceIndexMap (RefreshResourcesData n) = ni_deviceIndexMap n"
    by (simp_all add: r refresh_fold_rest)
  show "cards (RefreshResourcesData n) = cards n" by (simp add: cards_def m)
qed

section \<open>Well-formed nodes and the node ledger\<close>

text \<open>
  The device map and the index agree, the counters are in range and no total wraps. The ledger
  says that the node counters are the sums over the schedulable cards.
\<close>

definition node_ok :: "node_info \<Rightarrow> bool" where
  "node_ok n \<longleftrightarrow> distinct (keys (ni_deviceMap n)) \<and>
     (\<forall>(k, d) \<in> set (ni_deviceMap n). dev_ok d \<and> d_id d = k \<and> map_of (ni_deviceIndexMap n) (d_uuid d) = Some k) \<and>
     (\<forall>q. sum_list (map (dev_total q) (cards n)) \<le> max_int)"

definition ledger :: "node_info \<Rightarrow> bool" where
  "ledger n \<longleftrightarrow>
     (\<forall>q. node_total q n = sum_list (map (dev_total q) (cards n)) \<and>
          node_used q n = sum_list (map (\<lambda>d. dev_total q d - dev_free q d) (cards n)))"

lemma dev_free_range: "dev_ok d \<Longrightarrow> 0 \<le> dev_free q d \<and> dev_free q d \<le> dev_total q d"
  by (cases q) (auto simp: device_simps dev_ok_def counter_def)

lemma node_okD:
  assumes "node_ok n"
  shows "d \<in> set (cards n) \<Longrightarrow> dev_ok d" "d \<in> set (cards n) \<Longrightarrow> schedulable d"
    "(k, d) \<in> set (ni_deviceMap n) \<Longrightarrow> dev_ok d \<and> d_id d = k \<and> map_of (ni_deviceIndexMap n) (d_uuid d) = Some k"
    "sum_list (map (dev_total q) (cards n)) \<le> max_int" "distinct (keys (ni_deviceMap n))"
  using assms by (auto simp: node_ok_def cards_def vals_def)

lemma cards_sums:
  assumes "node_ok n"
  shows "0 \<le> sum_list (map (dev_free q) (cards n))"
    and "sum_list (map (dev_free q) (cards n)) \<le> sum_list (map (dev_total q) (cards n))"
    and "sum_list (map (\<lambda>d. dev_total q d - dev_free q d) (cards n))
         = sum_list (map (dev_total q) (cards n)) - sum_list (map (dev_free q) (cards n))"
proof -
  have r: "\<forall>d \<in> set (cards n). 0 \<le> dev_free q d \<and> dev_free q d \<le> dev_total q d"
    using node_okD(1) [OF assms] dev_free_range by blast
  show "0 \<le> sum_list (map (dev_free q) (cards n))" using r by (intro sum_list_nonneg) auto
  show "sum_list (map (dev_free q) (cards n)) \<le> sum_list (map (dev_total q) (cards n))"
    using r by (intro sum_list_mono) auto
qed (simp add: sum_list_subtractf)

lemma node_ok_Refresh: "node_ok (RefreshResourcesData n) = node_ok n"
  by (simp add: node_ok_def Refresh_eqs)

lemma Refresh_ledger:
  assumes "node_ok n"
  shows "ledger (RefreshResourcesData n)"
proof -
  have "i64 (sum_list (map (dev_total q) (cards n))) = sum_list (map (dev_total q) (cards n))"
    "i64 (sum_list (map (\<lambda>d. dev_total q d - dev_free q d) (cards n)))
     = sum_list (map (\<lambda>d. dev_total q d - dev_free q d) (cards n))" for q
    using cards_sums [OF assms, of q] node_okD(4) [OF assms, of q] by (auto intro!: i64_between)
  then show ?thesis by (simp add: ledger_def Refresh_eqs)
qed

lemma ledger_available:
  assumes "node_ok n" "ledger n"
  shows "node_avail q n = sum_list (map (dev_free q) (cards n))"
proof -
  have "node_avail q n = (let a = i64 (node_total q n - node_used q n) in if a \<ge> 0 then a else 0)"
    by (cases q) (simp_all add: GetAvailableNumber_def GetAvailableCores_def GetAvailableMemory_def)
  moreover have "node_total q n - node_used q n = sum_list (map (dev_free q) (cards n))"
    using assms(2) cards_sums(3) [OF assms(1), of q] by (simp add: ledger_def)
  moreover have "i64 (sum_list (map (dev_free q) (cards n))) = sum_list (map (dev_free q) (cards n))"
    using cards_sums [OF assms(1), of q] node_okD(4) [OF assms(1), of q] by (intro i64_between) auto
  ultimately show ?thesis using cards_sums(1) [OF assms(1), of q] by (simp add: Let_def)
qed

section \<open>Charging a claim\<close>

definition fits :: "device_claim \<Rightarrow> device \<Rightarrow> bool" where
  "fits c d \<longleftrightarrow> (\<forall>q. 0 \<le> dc_dim q c \<and> dc_dim q c \<le> dev_free q d)"

lemma all_dims: "(\<forall>q. P q) \<longleftrightarrow> P Number \<and> P Cores \<and> P Memory"
  by (metis dim.exhaust)

lemma charge_device:
  assumes "dev_ok d" "fits c d"
  defines "d' \<equiv> addUsedResources (dc_Cores c) (dc_Memory c) d"
  shows "dev_ok d'" "dev_total q d' = dev_total q d" "dev_free q d' = dev_free q d - dc_dim q c"
    "not_over d \<Longrightarrow> not_over d'" "schedulable d' = schedulable d" "d_id d' = d_id d" "d_uuid d' = d_uuid d"
    "d_numa d' = d_numa d"
proof -
  have f: "0 \<le> dc_Cores c" "0 \<le> dc_Memory c" "1 \<le> AllocatableNumber d" "dc_Cores c \<le> AllocatableCores d"
    "dc_Memory c \<le> AllocatableMemory d"
    using assms(2) by (auto simp: fits_def all_dims)
  note a = addUsed_fits [OF assms(1) _ f(1,2) f(3,4,5)]
  show ok: "dev_ok d'" and "not_over d \<Longrightarrow> not_over d'" using a by (auto simp: d'_def addUsedResources_def)
  show "dev_total q d' = dev_total q d"
    by (cases q) (simp_all add: d'_def addUsedResources_def GetTotalNumber_def GetTotalCores_def GetTotalMemory_def)
  have "d_usedNumber d' = d_usedNumber d + 1" "d_usedCores d' = d_usedCores d + dc_Cores c"
    "d_usedMemory d' = d_usedMemory d + dc_Memory c" "d_totalNumber d' = d_totalNumber d"
    "d_totalCores d' = d_totalCores d" "d_totalMemory d' = d_totalMemory d"
    using a(1) by (simp_all add: d'_def addUsedResources_def)
  then show "dev_free q d' = dev_free q d - dc_dim q c"
    using f by (cases q) (auto simp: allocatable_eq [OF ok] allocatable_eq [OF assms(1)] max_def split: if_splits)
qed (simp_all add: d'_def addUsedResources_def schedulable_def)

lemma AddUsed_Inr:
  "AddUsedResources n c = Inr n' \<longleftrightarrow>
   (\<exists>k d. map_of (ni_deviceIndexMap n) (dc_Uuid c) = Some k \<and> map_of (ni_deviceMap n) k = Some d \<and>
      n' = (let m = n\<lparr>ni_deviceMap := AList.map_entry k (addUsedResources (dc_Cores c) (dc_Memory c)) (ni_deviceMap n)\<rparr>
            in if schedulable d then add_node_usage 1 (dc_Cores c) (dc_Memory c) m else m))"
  by (auto simp: AddUsedResources_def Let_def split: option.splits)

lemma node_used_charge:
  "node_used q (add_node_usage 1 (dc_Cores c) (dc_Memory c) n) = i64 (node_used q n + dc_dim q c)"
  "node_total q (add_node_usage a b e n) = node_total q n"
  "ni_deviceMap (add_node_usage a b e n) = ni_deviceMap n"
  "ni_deviceIndexMap (add_node_usage a b e n) = ni_deviceIndexMap n"
  "cards (add_node_usage a b e n) = cards n"
  by (cases q; simp add: add_node_usage_def cards_def)+

lemma node_counters_map [simp]:
  "node_used q (n\<lparr>ni_deviceMap := m\<rparr>) = node_used q n" "node_total q (n\<lparr>ni_deviceMap := m\<rparr>) = node_total q n"
  by (cases q; simp)+

text \<open>
  Charging a claim that fits its card keeps the node well-formed and its ledger exact: the
  incremental node counters stay what a full refresh would compute.
\<close>

lemma AddUsedResources_fits:
  assumes ok: "node_ok n" and k: "map_of (ni_deviceIndexMap n) (dc_Uuid c) = Some k"
    and d: "map_of (ni_deviceMap n) k = Some d" and fit: "fits c d"
  obtains n' where "AddUsedResources n c = Inr n'" "node_ok n'" "ledger n \<Longrightarrow> ledger n'"
    "ni_deviceMap n' = AList.map_entry k (addUsedResources (dc_Cores c) (dc_Memory c)) (ni_deviceMap n)"
    "ni_deviceIndexMap n' = ni_deviceIndexMap n"
proof -
  let ?f = "addUsedResources (dc_Cores c) (dc_Memory c)"
  let ?m = "n\<lparr>ni_deviceMap := AList.map_entry k ?f (ni_deviceMap n)\<rparr>"
  define n' where "n' = (if schedulable d then add_node_usage 1 (dc_Cores c) (dc_Memory c) ?m else ?m)"
  have add: "AddUsedResources n c = Inr n'" using k d by (auto simp: AddUsed_Inr n'_def)
  have dm: "ni_deviceMap n' = AList.map_entry k ?f (ni_deviceMap n)"
    and im: "ni_deviceIndexMap n' = ni_deviceIndexMap n" by (simp_all add: n'_def node_used_charge)
  have mem: "(k, d) \<in> set (ni_deviceMap n)" using d by (rule map_of_SomeD)
  then obtain xs ys where split: "ni_deviceMap n = xs @ (k, d) # ys" by (meson split_list)
  have notin: "k \<notin> fst ` set xs" "k \<notin> fst ` set ys"
    using node_okD(5) [OF ok] by (auto simp: split keys_def)
  have dm': "ni_deviceMap n' = xs @ (k, ?f d) # ys" unfolding dm split using notin(1) by (induction xs) auto
  have dok: "dev_ok d" using node_okD(3) [OF ok mem] by simp
  note ch = charge_device [OF dok fit]
  have sums: "sum_list (map g (cards n')) = sum_list (map g (cards n)) + (if schedulable d then g (?f d) - g d else 0)"
    for g :: "device \<Rightarrow> int" by (simp add: cards_def dm' split ch(5))
  have tot: "sum_list (map (dev_total q) (cards n')) = sum_list (map (dev_total q) (cards n))" for q
    by (simp add: sums ch(2))
  have ok': "node_ok n'"
    using ok notin by (auto simp: node_ok_def tot im dm' split ch(1,6,7) keys_def)
  have nt: "node_total q n' = node_total q n"
    and nu: "node_used q n' = (if schedulable d then i64 (node_used q n + dc_dim q c) else node_used q n)" for q
    by (simp_all add: n'_def node_used_charge)
  have "ledger n'" if L: "ledger n"
    unfolding ledger_def
  proof (intro allI conjI)
    fix q
    show "node_total q n' = sum_list (map (dev_total q) (cards n'))"
      using L by (simp add: ledger_def tot nt)
    have u: "sum_list (map (\<lambda>x. dev_total q x - dev_free q x) (cards n'))
        = node_used q n + (if schedulable d then dc_dim q c else 0)"
      using L by (simp add: ledger_def sums ch(2,3))
    have "i64 (node_used q n + dc_dim q c) = node_used q n + dc_dim q c" if "schedulable d"
      using u that cards_sums [OF ok', of q] node_okD(4) [OF ok', of q] by (intro i64_between) auto
    then show "node_used q n' = sum_list (map (\<lambda>d. dev_total q d - dev_free q d) (cards n'))"
      by (simp add: u nu)
  qed
  with that add ok' dm im show thesis by blast
qed

section \<open>Snapshots\<close>

lemma reset_map_entry:
  assumes "\<And>d. ResetUsed (f d) = ResetUsed d"
  shows "map (\<lambda>(k, d). (k, ResetUsed d)) (AList.map_entry k f xs) = map (\<lambda>(k, d). (k, ResetUsed d)) xs"
  by (induction xs) (auto simp: assms)

lemma reset_charge: "resetResourceUsage (or_keep n (AddUsedResources n c)) = resetResourceUsage n"
proof -
  have "ResetUsed (addUsedResources a b d) = ResetUsed d" for a b d
    by (simp add: ResetUsed_def addUsedResources_def addUsedResourcesN_def)
  then have "map (\<lambda>(k, d). (k, ResetUsed d)) (AList.map_entry k (addUsedResources a b) xs) = map (\<lambda>(k, d). (k, ResetUsed d)) xs"
    for k :: int and a b xs by (intro reset_map_entry)
  then show ?thesis
    by (auto simp: or_keep_def AddUsedResources_def Let_def resetResourceUsage_def add_node_usage_def
        split: option.splits)
qed

lemma reset_charges:
  "resetResourceUsage (foldl (\<lambda>n c. or_keep n (AddUsedResources n c)) n cs) = resetResourceUsage n"
  by (induction cs arbitrary: n) (simp_all add: reset_charge)

lemma restore_devices:
  assumes "map (\<lambda>(k, d). (k, ResetUsed d)) xs = map (\<lambda>(k, d). (k, ResetUsed d)) ys"
    and "\<forall>(k, d) \<in> set ys. snap k = Some (d_usedNumber d, d_usedCores d, d_usedMemory d)"
  shows "map (\<lambda>(k, d). (k, case snap k of None \<Rightarrow> d | Some (num, cores, mem) \<Rightarrow>
           d\<lparr>d_usedNumber := num, d_usedCores := cores, d_usedMemory := mem\<rparr>)) xs = ys"
  using assms
proof (induction ys arbitrary: xs)
  case (Cons y ys)
  obtain k d where y: "y = (k, d)" by (cases y)
  then obtain d' xs' where xs: "xs = (k, d') # xs'" and r: "ResetUsed d' = ResetUsed d"
    and tl: "map (\<lambda>(k, d). (k, ResetUsed d)) xs' = map (\<lambda>(k, d). (k, ResetUsed d)) ys"
    using Cons.prems(1) by (cases xs) auto
  have "d'\<lparr>d_usedNumber := d_usedNumber d, d_usedCores := d_usedCores d, d_usedMemory := d_usedMemory d\<rparr> = d"
    using r by (cases d; cases d') (simp add: ResetUsed_def)
  then show ?case using Cons.IH [OF tl] Cons.prems(2) by (simp add: xs y)
qed simp

lemma restore_snapshot:
  assumes "distinct (keys (ni_deviceMap n))" "resetResourceUsage n' = resetResourceUsage n"
  shows "RestoreUsage (SnapshotUsage n) n' = n"
proof -
  have m: "map (\<lambda>(k, d). (k, ResetUsed d)) (ni_deviceMap n') = map (\<lambda>(k, d). (k, ResetUsed d)) (ni_deviceMap n)"
    using arg_cong [OF assms(2), of ni_deviceMap] by (simp add: resetResourceUsage_def)
  have s: "map_of (us_devices (SnapshotUsage n)) k = Some (d_usedNumber d, d_usedCores d, d_usedMemory d)"
    if "(k, d) \<in> set (ni_deviceMap n)" for k d
    using that assms(1) by (intro map_of_is_SomeI) (auto simp: SnapshotUsage_def keys_def comp_def case_prod_beta image_iff intro!: bexI [OF _ that])
  have "ni_deviceMap (RestoreUsage (SnapshotUsage n) n') = ni_deviceMap n"
    unfolding RestoreUsage_def using restore_devices [OF m, of "map_of (us_devices (SnapshotUsage n))"] s by auto
  moreover have "RestoreUsage (SnapshotUsage n) n' =
      n'\<lparr>ni_usedNumber := ni_usedNumber n, ni_usedCores := ni_usedCores n, ni_usedMemory := ni_usedMemory n,
        ni_deviceMap := ni_deviceMap (RestoreUsage (SnapshotUsage n) n')\<rparr>"
    by (simp add: RestoreUsage_def SnapshotUsage_def)
  ultimately have r: "RestoreUsage (SnapshotUsage n) n' =
      n'\<lparr>ni_usedNumber := ni_usedNumber n, ni_usedCores := ni_usedCores n, ni_usedMemory := ni_usedMemory n,
        ni_deviceMap := ni_deviceMap n\<rparr>" by simp
  show ?thesis unfolding r using assms(2) by (cases n; cases n') (simp add: resetResourceUsage_def)
qed

text \<open>
  C21. Releasing the regular reservation is exact: restoring a usage snapshot after any sequence
  of charged claims gives back the very node the snapshot was taken from.
\<close>

theorem RestoreUsage_exact:
  assumes "distinct (keys (ni_deviceMap n))"
  shows "RestoreUsage (SnapshotUsage n) (foldl (\<lambda>n c. or_keep n (AddUsedResources n c)) n cs) = n"
  by (rule restore_snapshot [OF assms reset_charges])

definition demo_node :: node_info where
  "demo_node =
     \<lparr>ni_node = \<lparr>n_Name = ''node-1'', n_Annotations = [], n_Labels = [], n_Allocatable = [],
        n_Deleting = False, n_Taints = []\<rparr>,
      ni_deviceMap = [(0, demo_device), (1, demo_device\<lparr>d_id := 1, d_uuid := ''GPU-1''\<rparr>)],
      ni_deviceIndexMap = [(''GPU-0'', 0), (''GPU-1'', 1)], ni_deviceList = demo_links, ni_allSameCapacity = True,
      ni_totalNumber = 20, ni_usedNumber = 0, ni_totalMemory = 81920, ni_usedMemory = 0,
      ni_totalCores = 200, ni_usedCores = 0, ni_maxCapability = 8, ni_schedulableDevices = 2,
      ni_maxDeviceCores = 100, ni_maxDeviceMemory = 40960,
      ni_gpuTopology = False, ni_numaTopology = False,
      ni_tiers = None, ni_gpuRail = [], ni_maxNUMAGroupSize = 0,
      ni_nvlinkComponentByUUID = [], ni_nvlinkComponentToUUIDs = [],
      ni_nvlinkComponentDomain = [], ni_nvlinkRootByDomain = [], ni_nvlinkComponentOrdinal = [],
      ni_nodePods = [], ni_config = \<lparr>nc_DeviceSplit = 10, nc_CoresScaling = 1, nc_MemoryFactor = 1, nc_MemoryScaling = 1\<rparr>\<rparr>"

definition demo_claim :: device_claim where
  "demo_claim = \<lparr>dc_Id = 1, dc_Uuid = ''GPU-1'', dc_Cores = 25, dc_Memory = 1024\<rparr>"

lemmas demo_node_simps = demo_node_def demo_device_def NewDevice_def

theorem RestoreUsage_exact_witness:
  "RestoreUsage (SnapshotUsage demo_node)
     (foldl (\<lambda>n c. or_keep n (AddUsedResources n c)) demo_node [demo_claim, demo_claim]) = demo_node"
  by (rule RestoreUsage_exact) (simp add: demo_node_def keys_def)

text \<open>
  C22. The availability of a refreshed node is exact: in each of the three resources it is the sum
  of what the schedulable cards (healthy, not in MIG mode) can still give, in whatever order the
  device map is walked, and over-committed cards count as empty and not as negative.
\<close>

theorem GetAvailable_exact:
  assumes "node_ok n"
  shows "node_avail q (RefreshResourcesData n) = sum_list (map (dev_free q) (cards n))"
  using ledger_available [OF _ Refresh_ledger [OF assms], of q] assms by (simp add: node_ok_Refresh Refresh_eqs)

lemma demo_node_ok: "node_ok demo_node"
  by (auto simp: node_ok_def demo_node_simps keys_def dev_ok_def counter_def max_int_def cards_def
      schedulable_def all_dims GetTotalNumber_def GetTotalCores_def GetTotalMemory_def)

theorem GetAvailable_exact_witness:
  "node_avail Memory (RefreshResourcesData demo_node) = sum_list (map (dev_free Memory) (cards demo_node))"
  by (rule GetAvailable_exact [OF demo_node_ok])

end
