(* ===== verification/Request.thy ===== *)
theory Request
  imports Node_Usage
begin

text \<open>
  The allocation request (\<^verbatim>\<open>pkg/device/allocator/request.go\<close>): what a pod asks for, parsed once
  from its containers and annotations, with the pod-wide peak demand, the largest single need,
  the request profile (\<^verbatim>\<open>profile.go\<close>) and the record of what the topology decisions achieved.
  \<^verbatim>\<open>resolveContainerNeeds\<close> of \<^verbatim>\<open>allocator.go\<close> is here because the request uses it.
\<close>

section \<open>Data\<close>

type_synonym scheduler_policy = string

definition NonePolicy :: scheduler_policy where "NonePolicy = ''none''"

definition BinpackPolicy :: scheduler_policy where "BinpackPolicy = ''binpack''"

definition SpreadPolicy :: scheduler_policy where "SpreadPolicy = ''spread''"

text \<open>The aggregates carry no kind.\<close>

datatype container_kind = NoKind | ContainerKindInit | ContainerKindApp

record container_need =
  cn_Name :: string
  cn_Kind :: container_kind
  cn_Restartable :: bool
  cn_Number :: int
  cn_Cores :: int
  cn_Memory :: int

definition zero_need :: container_need where
  "zero_need = \<lparr>cn_Name = [], cn_Kind = NoKind, cn_Restartable = False, cn_Number = 0, cn_Cores = 0, cn_Memory = 0\<rparr>"

record topology_outcome =
  to_Result :: string
  to_Alignment :: string

record request_profile =
  rp_NumWeight :: f64
  rp_MemWeight :: f64
  rp_CoreWeight :: f64

record allocation_request =
  ar_Pod :: pod
  ar_AccessMode :: access_mode
  ar_ControllerOwner :: "string option"
  ar_Containers :: "container_need list"
  ar_Total :: container_need
  ar_Max :: container_need
  ar_NodePolicy :: scheduler_policy
  ar_DevicePolicy :: scheduler_policy
  ar_Topology :: topology_mode
  ar_TopologyStrict :: bool
  ar_GangName :: string
  ar_CrossPodTopology :: bool
  ar_GangDomainKey :: string
  ar_GangRailKey :: string
  ar_topoOutcome :: topology_outcome
  ar_Profile :: request_profile
  ar_CheckDeviceUuid :: bool
  ar_CheckDeviceType :: bool
  ar_HasSequentialInit :: bool

section \<open>Topology outcomes\<close>

definition resultSeverity :: "string \<Rightarrow> int" where
  "resultSeverity result =
     (if result = ''nvlink'' then 0
      else if result = ''switch'' then 1
      else if result = ''numa'' then 2
      else if result = ''any'' then 3
      else if result = ''cross-numa'' \<or> result = ''spanned'' then 4
      else if result = ''none'' then 5
      else 6)"

definition recordTopologyOutcome :: "string \<Rightarrow> string \<Rightarrow> allocation_request \<Rightarrow> allocation_request" where
  "recordTopologyOutcome result alignment req =
     (let o1 = ar_topoOutcome req;
          o2 = (if to_Result o1 = [] \<or> resultSeverity result > resultSeverity (to_Result o1)
                then o1\<lparr>to_Result := result\<rparr> else o1);
          o3 = (if to_Alignment o2 = [] then o2\<lparr>to_Alignment := alignment\<rparr> else o2)
      in req\<lparr>ar_topoOutcome := o3\<rparr>)"

section \<open>Implicit fill rules\<close>

definition resolveContainerNeeds :: "container_need \<Rightarrow> int \<Rightarrow> bool \<Rightarrow> int \<Rightarrow> int \<times> int" where
  "resolveContainerNeeds need memoryFactor allSameCapacity memoryCapacity =
     (let cores = cn_Cores need;
          memory = cn_Memory need;
          memory1 = (if memory > 0 \<and> memoryFactor > 0 then i64 (memory * memoryFactor) else memory);
          cores1 = (if cores = 0 \<and> memory1 = 0 then HundredCore else cores);
          memory2 = (if memory1 = 0 \<and> allSameCapacity then memoryCapacity else memory1)
      in (cores1, memory2))"

section \<open>Pod-wide statistics\<close>

text \<open>The locals of the aggregation loops: the three lifecycle groups, and the running maximum.\<close>

record statistics =
  st_sidecarAgg :: container_need
  st_regularAgg :: container_need
  st_initMaxAgg :: container_need
  st_Max :: container_need

definition zero_statistics :: statistics where
  "zero_statistics = \<lparr>st_sidecarAgg = zero_need, st_regularAgg = zero_need, st_initMaxAgg = zero_need, st_Max = zero_need\<rparr>"

definition max_need :: "int \<Rightarrow> int \<Rightarrow> int \<Rightarrow> container_need \<Rightarrow> container_need" where
  "max_need number cores memory n =
     n\<lparr>cn_Number := max (cn_Number n) number, cn_Cores := max (cn_Cores n) cores, cn_Memory := max (cn_Memory n) memory\<rparr>"

definition sum_need :: "int \<Rightarrow> int \<Rightarrow> int \<Rightarrow> container_need \<Rightarrow> container_need" where
  "sum_need number cores memory n =
     n\<lparr>cn_Number := i64 (cn_Number n + number), cn_Cores := i64 (cn_Cores n + cores), cn_Memory := i64 (cn_Memory n + memory)\<rparr>"

definition add_need :: "int \<Rightarrow> bool \<Rightarrow> int \<Rightarrow> statistics \<Rightarrow> container_need \<Rightarrow> statistics" where
  "add_need memoryFactor sameCapacity capacity st need =
     (case resolveContainerNeeds need memoryFactor sameCapacity capacity of (cores, memory) \<Rightarrow>
       let number = cn_Number need;
           st1 = st\<lparr>st_Max := max_need number cores memory (st_Max st)\<rparr>;
           aggCores = i64 (cores * number);
           aggMemory = i64 (memory * number)
       in if cn_Kind need = ContainerKindInit \<and> \<not> cn_Restartable need
          then st1\<lparr>st_initMaxAgg := max_need number aggCores aggMemory (st_initMaxAgg st1)\<rparr>
          else if cn_Restartable need
          then st1\<lparr>st_sidecarAgg := sum_need number aggCores aggMemory (st_sidecarAgg st1)\<rparr>
          else st1\<lparr>st_regularAgg := sum_need number aggCores aggMemory (st_regularAgg st1)\<rparr>)"

text \<open>\<^verbatim>\<open>sidecarAgg + max(regularAgg, initMaxAgg)\<close> in each dimension, written over the old total.\<close>

definition peak_need :: "statistics \<Rightarrow> container_need \<Rightarrow> container_need" where
  "peak_need st t =
     t\<lparr>cn_Number := i64 (cn_Number (st_sidecarAgg st) + max (cn_Number (st_regularAgg st)) (cn_Number (st_initMaxAgg st))),
       cn_Cores := i64 (cn_Cores (st_sidecarAgg st) + max (cn_Cores (st_regularAgg st)) (cn_Cores (st_initMaxAgg st))),
       cn_Memory := i64 (cn_Memory (st_sidecarAgg st) + max (cn_Memory (st_regularAgg st)) (cn_Memory (st_initMaxAgg st)))\<rparr>"

text \<open>A missing node leaves the request as it is.\<close>

definition ResetStatistics :: "node_info option \<Rightarrow> allocation_request \<Rightarrow> allocation_request" where
  "ResetStatistics nodeInfo req =
     (case nodeInfo of
        None \<Rightarrow> req
      | Some n \<Rightarrow>
          let start = zero_statistics\<lparr>st_Max := (ar_Max req)\<lparr>cn_Number := 0, cn_Cores := 0, cn_Memory := 0\<rparr>\<rparr>;
              st = foldl (add_need (nc_MemoryFactor (ni_config n)) (ni_allSameCapacity n) (ni_maxDeviceMemory n))
                     start (ar_Containers req)
          in req\<lparr>ar_Max := st_Max st, ar_Total := peak_need st (ar_Total req)\<rparr>)"

section \<open>The request profile\<close>

definition UniformProfile :: request_profile where
  "UniformProfile = \<lparr>rp_NumWeight = f_div 1 3, rp_MemWeight = f_div 1 3, rp_CoreWeight = f_div 1 3\<rparr>"

definition NewRequestProfile :: "allocation_request option \<Rightarrow> request_profile" where
  "NewRequestProfile r =
     (case r of
        None \<Rightarrow> UniformProfile
      | Some req \<Rightarrow>
          let number = f_of_int (cn_Number (ar_Total req)) in
          if number \<le> 0 then UniformProfile
          else
            let rNum = f_add 0 number;
                cores = f_of_int (cn_Cores (ar_Total req));
                memory = f_of_int (cn_Memory (ar_Total req));
                rCore = (if cores > 0 then f_add 0 (f_div cores (f_of_int HundredCore)) else 0);
                rMem = (if memory \<le> 0 then f_add 0 number
                        else f_add 0 (max (of_int \<lceil>f_div memory 1024\<rceil>) number));
                sum = f_add (f_add rNum rMem) rCore
            in if sum = 0 then UniformProfile
               else \<lparr>rp_NumWeight = f_div rNum sum, rp_MemWeight = f_div rMem sum, rp_CoreWeight = f_div rCore sum\<rparr>)"

section \<open>Parsing a pod\<close>

definition parseSchedulerPolicy :: "pod \<Rightarrow> anno_key \<Rightarrow> scheduler_policy" where
  "parseSchedulerPolicy p annotation =
     (let lower = to_lower (anno_or_empty p annotation) in
      if lower = BinpackPolicy then BinpackPolicy
      else if lower = SpreadPolicy then SpreadPolicy
      else if lower = NonePolicy \<or> lower = [] then NonePolicy
      else lower)"

text \<open>The conversion of a string to a topology mode.\<close>

definition TopologyMode_of :: "string \<Rightarrow> topology_mode" where
  "TopologyMode_of s =
     (if s = ''none'' then NoneTopology
      else if s = ''numa'' then NUMATopology
      else if s = ''numa-strict'' then NUMATopologyStrict
      else if s = ''link'' then LinkTopology
      else if s = ''link-strict'' then LinkTopologyStrict
      else if s = ''pcie'' then PCIeTopology
      else if s = ''pcie-strict'' then PCIeTopologyStrict
      else OtherTopology s)"

definition ParsePodTopologyMode :: "pod \<Rightarrow> topology_mode \<times> bool" where
  "ParsePodTopologyMode p =
     (let tm = TopologyMode_of (to_lower (anno_or_empty p DeviceTopologyModeAnnotation))
      in (tm, IsStrictTopology tm))"

text \<open>The need of one container, when it asks for virtual devices at all.\<close>

definition container_need_of :: "container_kind \<Rightarrow> bool \<Rightarrow> container \<Rightarrow> container_need list" where
  "container_need_of kind restartable c =
     (let number = GetResourceOfContainer c VGPUNumberResourceName in
      if number \<le> 0 then []
      else [\<lparr>cn_Name = c_Name c, cn_Kind = kind, cn_Restartable = restartable, cn_Number = number,
             cn_Cores = GetResourceOfContainer c VGPUCoreResourceName,
             cn_Memory = GetResourceOfContainer c VGPUMemoryResourceName\<rparr>])"

definition pod_needs :: "pod \<Rightarrow> container_need list" where
  "pod_needs p =
     concat (map (\<lambda>c. container_need_of ContainerKindInit (c_Restartable c) c) (p_InitContainers p)) @
     concat (map (container_need_of ContainerKindApp False) (p_Containers p))"

definition is_sequential :: "container_need \<Rightarrow> bool" where
  "is_sequential n = (cn_Kind n = ContainerKindInit \<and> \<not> cn_Restartable n)"

definition BuildAllocationRequest :: "pod \<Rightarrow> allocation_request" where
  "BuildAllocationRequest p =
     (let needs = pod_needs p;
          st = foldl (add_need 0 False 0) zero_statistics needs;
          req = \<lparr>ar_Pod = p, ar_AccessMode = fst (PodVGPUAccessMode p), ar_ControllerOwner = p_Controller p,
                 ar_Containers = needs, ar_Total = peak_need st zero_need, ar_Max = st_Max st,
                 ar_NodePolicy = [], ar_DevicePolicy = [], ar_Topology = OtherTopology [], ar_TopologyStrict = False,
                 ar_GangName = [], ar_CrossPodTopology = False, ar_GangDomainKey = [], ar_GangRailKey = [],
                 ar_topoOutcome = \<lparr>to_Result = [], to_Alignment = []\<rparr>,
                 ar_Profile = \<lparr>rp_NumWeight = 0, rp_MemWeight = 0, rp_CoreWeight = 0\<rparr>,
                 ar_CheckDeviceUuid = False, ar_CheckDeviceType = False,
                 ar_HasSequentialInit = (\<exists>n \<in> set needs. is_sequential n)\<rparr>
      in if needs = [] then req
         else
           let req1 = req\<lparr>ar_NodePolicy := parseSchedulerPolicy p NodeSchedulerPolicyAnnotation,
                 ar_DevicePolicy := parseSchedulerPolicy p DeviceSchedulerPolicyAnnotation,
                 ar_Topology := fst (ParsePodTopologyMode p), ar_TopologyStrict := snd (ParsePodTopologyMode p),
                 ar_GangName := (case PodGangKey p of None \<Rightarrow> [] | Some g \<Rightarrow> g),
                 ar_CrossPodTopology := (case HasAnnotation p CrossPodTopologyAnnotation of
                                           None \<Rightarrow> False | Some v \<Rightarrow> to_lower v = ''true''),
                 ar_CheckDeviceUuid := (HasAnnotation p PodIncludeGPUUUIDAnnotation \<noteq> None \<or>
                                        HasAnnotation p PodExcludeGPUUUIDAnnotation \<noteq> None),
                 ar_CheckDeviceType := (HasAnnotation p PodIncludeGpuTypeAnnotation \<noteq> None \<or>
                                        HasAnnotation p PodExcludeGpuTypeAnnotation \<noteq> None)\<rparr>
           in req1\<lparr>ar_Profile := NewRequestProfile (Some req1)\<rparr>)"

section \<open>The total is the lifecycle peak\<close>

fun need_dim :: "dim \<Rightarrow> container_need \<Rightarrow> int" where
  "need_dim Number n = cn_Number n"
| "need_dim Cores n = cn_Cores n"
| "need_dim Memory n = cn_Memory n"

text \<open>What a container takes in all: its cores and memory are per virtual device.\<close>

fun demand :: "int \<Rightarrow> bool \<Rightarrow> int \<Rightarrow> dim \<Rightarrow> container_need \<Rightarrow> int" where
  "demand f same cap Number n = cn_Number n"
| "demand f same cap Cores n = fst (resolveContainerNeeds n f same cap) * cn_Number n"
| "demand f same cap Memory n = snd (resolveContainerNeeds n f same cap) * cn_Number n"

definition demands_ok :: "int \<Rightarrow> bool \<Rightarrow> int \<Rightarrow> container_need list \<Rightarrow> bool" where
  "demands_ok f same cap ns \<longleftrightarrow>
     (\<forall>q. (\<forall>n \<in> set ns. 0 \<le> demand f same cap q n) \<and> sum_list (map (demand f same cap q) ns) \<le> max_int)"

interpretation needs_life: lifecycle is_sequential cn_Restartable
  by unfold_locales (simp add: is_sequential_def)

lemma need_dim_simps [simp]:
  "need_dim q zero_need = 0"
  "need_dim q (max_need a b c n) = max (need_dim q n) (case q of Number \<Rightarrow> a | Cores \<Rightarrow> b | Memory \<Rightarrow> c)"
  "need_dim q (sum_need a b c n) = i64 (need_dim q n + (case q of Number \<Rightarrow> a | Cores \<Rightarrow> b | Memory \<Rightarrow> c))"
  "need_dim q (peak_need st n) =
     i64 (need_dim q (st_sidecarAgg st) + max (need_dim q (st_regularAgg st)) (need_dim q (st_initMaxAgg st)))"
  by (cases q; simp add: zero_need_def max_need_def sum_need_def peak_need_def)+

lemma demands_ok_snoc: "demands_ok f same cap (ns @ [n]) \<Longrightarrow> demands_ok f same cap ns"
proof -
  assume ok: "demands_ok f same cap (ns @ [n])"
  have "sum_list (map (demand f same cap q) ns) \<le> max_int" for q
  proof -
    have "sum_list (map (demand f same cap q) ns) + demand f same cap q n \<le> max_int" "0 \<le> demand f same cap q n"
      using ok by (auto simp: demands_ok_def)
    then show ?thesis by linarith
  qed
  then show ?thesis using ok by (simp add: demands_ok_def)
qed

lemma demands_okD:
  assumes "demands_ok f same cap ns"
  shows "0 \<le> sum_list (map (demand f same cap q) (filter P ns))"
    "sum_list (map (demand f same cap q) (filter P ns)) \<le> max_int"
    "n \<in> set ns \<Longrightarrow> 0 \<le> demand f same cap q n" "n \<in> set ns \<Longrightarrow> i64 (demand f same cap q n) = demand f same cap q n"
proof -
  have nn: "\<forall>n \<in> set ns. 0 \<le> demand f same cap q n" and b: "sum_list (map (demand f same cap q) ns) \<le> max_int" for q
    using assms by (auto simp: demands_ok_def)
  show "0 \<le> sum_list (map (demand f same cap q) (filter P ns))" using nn by (intro sum_map_nonneg) auto
  show "sum_list (map (demand f same cap q) (filter P ns)) \<le> max_int"
    using sum_subseq_le [OF subseq_filter_left [of P ns] nn [of q]] b [of q] by linarith
  assume n: "n \<in> set ns"
  then show "0 \<le> demand f same cap q n" using nn by blast
  have "demand f same cap q n \<le> sum_list (map (demand f same cap q) ns)"
    using n nn by (auto intro!: member_le_sum_list)
  then show "i64 (demand f same cap q n) = demand f same cap q n"
    using n nn b [of q] by (intro i64_between) auto
qed

lemma add_need_groups:
  fixes st :: statistics
  assumes "\<And>q. i64 (demand f same cap q n) = demand f same cap q n"
  shows "need_dim q (st_sidecarAgg (add_need f same cap st n)) =
      (if cn_Restartable n then i64 (need_dim q (st_sidecarAgg st) + demand f same cap q n) else need_dim q (st_sidecarAgg st))"
    "need_dim q (st_regularAgg (add_need f same cap st n)) =
      (if \<not> is_sequential n \<and> \<not> cn_Restartable n
       then i64 (need_dim q (st_regularAgg st) + demand f same cap q n) else need_dim q (st_regularAgg st))"
    "need_dim q (st_initMaxAgg (add_need f same cap st n)) =
      (if is_sequential n then max (need_dim q (st_initMaxAgg st)) (demand f same cap q n) else need_dim q (st_initMaxAgg st))"
    "need_dim q (st_Max (add_need f same cap st n)) = max (need_dim q (st_Max st))
       (case q of Number \<Rightarrow> cn_Number n | Cores \<Rightarrow> fst (resolveContainerNeeds n f same cap)
        | Memory \<Rightarrow> snd (resolveContainerNeeds n f same cap))"
proof -
  obtain c m where r: "resolveContainerNeeds n f same cap = (c, m)" by fastforce
  have i: "i64 (c * cn_Number n) = c * cn_Number n" "i64 (m * cn_Number n) = m * cn_Number n"
    using assms [of Cores] assms [of Memory] by (simp_all add: r)
  have add: "add_need f same cap st n =
      (let st1 = st\<lparr>st_Max := max_need (cn_Number n) c m (st_Max st)\<rparr>
       in if is_sequential n then st1\<lparr>st_initMaxAgg := max_need (cn_Number n) (c * cn_Number n) (m * cn_Number n) (st_initMaxAgg st1)\<rparr>
          else if cn_Restartable n then st1\<lparr>st_sidecarAgg := sum_need (cn_Number n) (c * cn_Number n) (m * cn_Number n) (st_sidecarAgg st1)\<rparr>
          else st1\<lparr>st_regularAgg := sum_need (cn_Number n) (c * cn_Number n) (m * cn_Number n) (st_regularAgg st1)\<rparr>)"
    by (simp only: add_need_def r i Let_def is_sequential_def prod.case)
  have d: "demand f same cap q n = (case q of Number \<Rightarrow> cn_Number n | Cores \<Rightarrow> c * cn_Number n | Memory \<Rightarrow> m * cn_Number n)"
    by (cases q) (simp_all add: r)
  have seq: "is_sequential n \<Longrightarrow> \<not> cn_Restartable n" by (simp add: is_sequential_def)
  show "need_dim q (st_sidecarAgg (add_need f same cap st n)) =
      (if cn_Restartable n then i64 (need_dim q (st_sidecarAgg st) + demand f same cap q n) else need_dim q (st_sidecarAgg st))"
    using seq by (simp add: add d Let_def)
  show "need_dim q (st_regularAgg (add_need f same cap st n)) =
      (if \<not> is_sequential n \<and> \<not> cn_Restartable n
       then i64 (need_dim q (st_regularAgg st) + demand f same cap q n) else need_dim q (st_regularAgg st))"
    by (simp add: add d Let_def)
  show "need_dim q (st_initMaxAgg (add_need f same cap st n)) =
      (if is_sequential n then max (need_dim q (st_initMaxAgg st)) (demand f same cap q n) else need_dim q (st_initMaxAgg st))"
    by (simp add: add d Let_def)
  show "need_dim q (st_Max (add_need f same cap st n)) = max (need_dim q (st_Max st))
       (case q of Number \<Rightarrow> cn_Number n | Cores \<Rightarrow> fst (resolveContainerNeeds n f same cap)
        | Memory \<Rightarrow> snd (resolveContainerNeeds n f same cap))"
    by (cases q) (simp_all add: add r Let_def max_need_def)
qed

lemma add_need_fold:
  fixes m :: container_need
  assumes "demands_ok f same cap ns"
  defines "st \<equiv> foldl (add_need f same cap) (zero_statistics\<lparr>st_Max := m\<rparr>) ns"
  shows "need_dim q (st_sidecarAgg st) = sum_list (map (demand f same cap q) (filter cn_Restartable ns)) \<and>
    need_dim q (st_regularAgg st) = sum_list (map (demand f same cap q) (filter (\<lambda>n. \<not> is_sequential n \<and> \<not> cn_Restartable n) ns)) \<and>
    need_dim q (st_initMaxAgg st) = foldl max 0 (map (demand f same cap q) (filter is_sequential ns))"
  using assms(1) unfolding st_def
proof (induction ns rule: rev_induct)
  case Nil
  then show ?case by (simp add: zero_statistics_def)
next
  case (snoc n ns)
  note ok = demands_okD [OF snoc.prems]
  have i: "i64 (demand f same cap q n) = demand f same cap q n" for q by (rule ok(4)) simp
  have w: "i64 (sum_list (map (demand f same cap q) (filter P ns)) + demand f same cap q n)
      = sum_list (map (demand f same cap q) (filter P ns)) + demand f same cap q n" if "P n" for P
    using ok(1,2) [of q P] that by (intro i64_between) auto
  show ?case
    using snoc.IH [OF demands_ok_snoc [OF snoc.prems]] w by (simp add: add_need_groups [OF i])
qed

lemma total_is_peak:
  assumes "demands_ok (nc_MemoryFactor (ni_config n)) (ni_allSameCapacity n) (ni_maxDeviceMemory n) (ar_Containers req)"
  shows "need_dim q (ar_Total (ResetStatistics (Some n) req)) =
    lifecycle_peak is_sequential cn_Restartable
      (demand (nc_MemoryFactor (ni_config n)) (ni_allSameCapacity n) (ni_maxDeviceMemory n) q) (ar_Containers req)"
proof -
  let ?w = "demand (nc_MemoryFactor (ni_config n)) (ni_allSameCapacity n) (ni_maxDeviceMemory n) q"
  note ok = demands_okD [OF assms]
  have "\<forall>x \<in> set (ar_Containers req). 0 \<le> ?w x" using ok(3) by blast
  note r = needs_life.peak_range [OF this]
  have "sum_list (map ?w (ar_Containers req)) \<le> max_int" using ok(2) [of q "\<lambda>_. True"] by simp
  then have "i64 (lifecycle_peak is_sequential cn_Restartable ?w (ar_Containers req))
      = lifecycle_peak is_sequential cn_Restartable ?w (ar_Containers req)" using r by (intro i64_between) auto
  then show ?thesis
    using add_need_fold [OF assms, where m = "(ar_Max req)\<lparr>cn_Number := 0, cn_Cores := 0, cn_Memory := 0\<rparr>" and q = q]
    by (simp add: ResetStatistics_def Let_def lifecycle_peak_def)
qed

definition node_demand :: "node_info \<Rightarrow> dim \<Rightarrow> container_need \<Rightarrow> int" where
  "node_demand n = demand (nc_MemoryFactor (ni_config n)) (ni_allSameCapacity n) (ni_maxDeviceMemory n)"


text \<open>
  The reported outcome is the worst of the pod's containers. Starting from a cleared outcome,
  after any non-empty sequence of recorded topology results the reported one is among them and
  its severity is the largest of all of them.
\<close>

theorem recordTopologyOutcome_worst:
  assumes "[] \<notin> set (map fst rs)" "rs \<noteq> []"
    and "to_Result (ar_topoOutcome req) = []"
  defines "req' \<equiv> foldl (\<lambda>r (res, al). recordTopologyOutcome res al r) req rs"
  shows "resultSeverity (to_Result (ar_topoOutcome req')) = Max (set (map (resultSeverity \<circ> fst) rs)) \<and>
         to_Result (ar_topoOutcome req') \<in> set (map fst rs)"
  using assms(1,2) unfolding req'_def
proof (induction rs rule: rev_induct)
  case (snoc x rs)
  obtain res al where x: "x = (res, al)" by (cases x)
  show ?case
  proof (cases "rs = []")
    case True
    then show ?thesis using snoc.prems assms(3) by (simp add: x recordTopologyOutcome_def Let_def)
  next
    case False
    let ?r = "foldl (\<lambda>r (res, al). recordTopologyOutcome res al r) req rs"
    have IH: "resultSeverity (to_Result (ar_topoOutcome ?r)) = Max (set (map (resultSeverity \<circ> fst) rs))"
      "to_Result (ar_topoOutcome ?r) \<in> set (map fst rs)" using snoc False by auto
    have "[] \<notin> set (map fst rs)" using snoc.prems by simp
    then have ne: "to_Result (ar_topoOutcome ?r) \<noteq> []" using IH(2) by metis
    have s: "to_Result (ar_topoOutcome (foldl (\<lambda>r (res, al). recordTopologyOutcome res al r) req (rs @ [x]))) =
        (if resultSeverity res > resultSeverity (to_Result (ar_topoOutcome ?r)) then res else to_Result (ar_topoOutcome ?r))"
      using ne by (simp add: x recordTopologyOutcome_def Let_def)
    have "set (map (resultSeverity \<circ> fst) rs) \<noteq> {}" using False by simp
    then have "Max (set (map (resultSeverity \<circ> fst) (rs @ [x]))) =
        max (resultSeverity res) (resultSeverity (to_Result (ar_topoOutcome ?r)))"
      by (simp add: x IH(1) Max_insert)
    then show ?thesis unfolding s using IH(2) by (auto simp: x max_def)
  qed
qed simp

definition demo_need_pod :: pod where
  "demo_need_pod = empty_pod
     \<lparr>p_InitContainers := [\<lparr>c_Name = ''i'', c_Limits = [(VGPUNumberResourceName, 1), (VGPUCoreResourceName, 80)], c_Restartable = False\<rparr>],
      p_Containers := [\<lparr>c_Name = ''a'', c_Limits = [(VGPUNumberResourceName, 2), (VGPUCoreResourceName, 20)], c_Restartable = False\<rparr>]\<rparr>"

definition demo_request :: allocation_request where
  "demo_request = BuildAllocationRequest demo_need_pod"

lemma demo_request_needs:
  "ar_Containers demo_request =
     [\<lparr>cn_Name = ''i'', cn_Kind = ContainerKindInit, cn_Restartable = False, cn_Number = 1, cn_Cores = 80, cn_Memory = 0\<rparr>,
      \<lparr>cn_Name = ''a'', cn_Kind = ContainerKindApp, cn_Restartable = False, cn_Number = 2, cn_Cores = 20, cn_Memory = 0\<rparr>]"
  by (simp add: demo_request_def BuildAllocationRequest_def Let_def pod_needs_def demo_need_pod_def
      container_need_of_def GetResourceOfContainer_def empty_pod_def)

lemma demo_demands_ok:
  "demands_ok (nc_MemoryFactor (ni_config demo_node)) (ni_allSameCapacity demo_node) (ni_maxDeviceMemory demo_node)
     (ar_Containers demo_request)"
  by (simp add: demands_ok_def all_dims demo_request_needs demo_node_def resolveContainerNeeds_def max_int_def)


theorem recordTopologyOutcome_worst_witness:
  "resultSeverity (to_Result (ar_topoOutcome
     (foldl (\<lambda>r (res, al). recordTopologyOutcome res al r) (BuildAllocationRequest empty_pod)
        [(''nvlink'', ''rail''), (''cross-numa'', []), (''numa'', [])])))
   = Max (set (map (resultSeverity \<circ> fst) [(''nvlink'', ''rail''), (''cross-numa'', []), (''numa'', [])]))"
proof -
  have "to_Result (ar_topoOutcome (BuildAllocationRequest empty_pod)) = []"
    by (simp add: BuildAllocationRequest_def pod_needs_def empty_pod_def Let_def)
  then show ?thesis
    using recordTopologyOutcome_worst [of "[(''nvlink'', ''rail''), (''cross-numa'', []), (''numa'', [])]"
        "BuildAllocationRequest empty_pod"] by simp
qed

end
