(* ===== verification/Scoring.thy ===== *)
theory Scoring
  imports Request
begin

text \<open>
  Scores and orderings (\<^verbatim>\<open>pkg/device/allocator/profile.go\<close> and \<^verbatim>\<open>priority.go\<close>): the used fraction of
  a node, a card or a group of cards, the weighted score under a policy, and the comparator
  chains that rank nodes and cards. Products and sums of floats round separately.
\<close>

section \<open>Utilisation\<close>

record resource_utilization =
  ru_Num :: f64
  ru_Mem :: f64
  ru_Core :: f64

definition NodeUtilization :: "node_info \<Rightarrow> allocation_request option \<Rightarrow> resource_utilization" where
  "NodeUtilization info r =
     (let availNum = f_of_int (GetAvailableNumber info);
          availMem = f_of_int (GetAvailableMemory info);
          availCore = f_of_int (GetAvailableCores info);
          result = (\<lambda>num mem core.
            \<lparr>ru_Num = f_sub 1 (SafeDiv num (f_of_int (ni_totalNumber info))),
             ru_Mem = f_sub 1 (SafeDiv mem (f_of_int (ni_totalMemory info))),
             ru_Core = f_sub 1 (SafeDiv core (f_of_int (ni_totalCores info)))\<rparr>)
      in case r of
           None \<Rightarrow> result availNum availMem availCore
         | Some req \<Rightarrow>
             let reqNumber = f_of_int (cn_Number (ar_Total req));
                 reqCores = f_of_int (cn_Cores (ar_Total req));
                 reqMemory = f_of_int (cn_Memory (ar_Total req))
             in if availNum < reqNumber \<or> availCore < reqCores \<or> availMem < reqMemory
                then if ar_NodePolicy req = SpreadPolicy then \<lparr>ru_Num = 1, ru_Mem = 1, ru_Core = 1\<rparr>
                     else \<lparr>ru_Num = 0, ru_Mem = 0, ru_Core = 0\<rparr>
                else if ar_NodePolicy req = BinpackPolicy
                then result (f_sub availNum reqNumber) (f_sub availMem reqMemory) (f_sub availCore reqCores)
                else result availNum availMem availCore)"

definition DeviceUtilization :: "device \<Rightarrow> resource_utilization" where
  "DeviceUtilization d =
     \<lparr>ru_Num = f_sub 1 (SafeDiv (f_of_int (AllocatableNumber d)) (f_of_int (GetTotalNumber d))),
      ru_Mem = f_sub 1 (SafeDiv (f_of_int (AllocatableMemory d)) (f_of_int (GetTotalMemory d))),
      ru_Core = f_sub 1 (SafeDiv (f_of_int (AllocatableCores d)) (f_of_int (GetTotalCores d)))\<rparr>"

definition add_utilization :: "resource_utilization \<Rightarrow> device \<Rightarrow> resource_utilization" where
  "add_utilization agg d =
     (let u = DeviceUtilization d in
      \<lparr>ru_Num = f_add (ru_Num agg) (ru_Num u), ru_Mem = f_add (ru_Mem agg) (ru_Mem u),
       ru_Core = f_add (ru_Core agg) (ru_Core u)\<rparr>)"

definition NumaUtilization :: "device list \<Rightarrow> resource_utilization" where
  "NumaUtilization devices =
     (if devices = [] then \<lparr>ru_Num = 0, ru_Mem = 0, ru_Core = 0\<rparr>
      else let agg = foldl add_utilization \<lparr>ru_Num = 0, ru_Mem = 0, ru_Core = 0\<rparr> devices;
               n = f_of_int (int (length devices))
           in \<lparr>ru_Num = f_div (ru_Num agg) n, ru_Mem = f_div (ru_Mem agg) n, ru_Core = f_div (ru_Core agg) n\<rparr>)"

definition Score :: "resource_utilization \<Rightarrow> request_profile \<Rightarrow> scheduler_policy \<Rightarrow> f64" where
  "Score u p policy =
     (if policy = BinpackPolicy
      then f_add (f_add (f_mul (rp_NumWeight p) (ru_Num u)) (f_mul (rp_MemWeight p) (ru_Mem u)))
             (f_mul (rp_CoreWeight p) (ru_Core u))
      else if policy = SpreadPolicy
      then f_add (f_add (f_mul (rp_NumWeight p) (f_sub 1 (ru_Num u))) (f_mul (rp_MemWeight p) (f_sub 1 (ru_Mem u))))
             (f_mul (rp_CoreWeight p) (f_sub 1 (ru_Core u)))
      else 0)"

section \<open>Ranking devices\<close>

definition ByDeviceScoreAsc :: "device \<Rightarrow> device \<Rightarrow> bool" where
  "ByDeviceScoreAsc p1 p2 = (Device_Score p1 < Device_Score p2)"

definition ByDeviceScoreDes :: "device \<Rightarrow> device \<Rightarrow> bool" where
  "ByDeviceScoreDes p1 p2 = (Device_Score p1 > Device_Score p2)"

definition ByDeviceIdAsc :: "device \<Rightarrow> device \<Rightarrow> bool" where
  "ByDeviceIdAsc p1 p2 = (d_id p1 < d_id p2)"

definition ByNuma :: "device \<Rightarrow> device \<Rightarrow> bool" where
  "ByNuma p1 p2 =
     (if d_numa p1 < 0 \<and> d_numa p2 < 0 then False
      else if d_numa p1 < 0 then False
      else if d_numa p2 < 0 then True
      else d_numa p1 < d_numa p2)"

definition NewDevicePolicyPriority :: "allocation_request \<Rightarrow> (device \<Rightarrow> device \<Rightarrow> bool) list" where
  "NewDevicePolicyPriority req =
     (if ar_DevicePolicy req = BinpackPolicy then [ByDeviceScoreAsc, ByDeviceIdAsc]
      else if ar_DevicePolicy req = SpreadPolicy then [ByDeviceScoreDes, ByDeviceIdAsc]
      else [ByNuma, ByDeviceIdAsc])"

text \<open>\<^verbatim>\<open>sortPriority.Sort\<close>: the chain decides by the first comparator that tells two elements apart.\<close>

definition sortPriority :: "('a \<Rightarrow> 'a \<Rightarrow> bool) list \<Rightarrow> 'a list \<Rightarrow> 'a list" where
  "sortPriority lts xs = go_sort (chain_less lts) xs"

section \<open>Ranking nodes\<close>

text \<open>A candidate node with the request snapshot the filter attached to it, if any.\<close>

record ranked_node =
  rn_info :: node_info
  rn_request :: "allocation_request option"

definition rn_name :: "ranked_node \<Rightarrow> string" where
  "rn_name p = n_Name (ni_node (rn_info p))"

definition ByNodeNameAsc :: "ranked_node \<Rightarrow> ranked_node \<Rightarrow> bool" where
  "ByNodeNameAsc p1 p2 = str_less (rn_name p1) (rn_name p2)"

definition ByNodeGPUTopologyFitness :: "int \<Rightarrow> ranked_node \<Rightarrow> ranked_node \<Rightarrow> bool" where
  "ByNodeGPUTopologyFitness needNumber p1 p2 =
     (LinkTopologyFitness (rn_info p1) needNumber > LinkTopologyFitness (rn_info p2) needNumber)"

definition numaTopologyFitness :: "ranked_node \<Rightarrow> int \<Rightarrow> int" where
  "numaTopologyFitness p needNumber =
     (if \<not> ni_numaTopology (rn_info p) then 0
      else if ni_maxNUMAGroupSize (rn_info p) \<ge> needNumber then 2 else 1)"

definition ByNodeNUMATopologyFitness :: "int \<Rightarrow> ranked_node \<Rightarrow> ranked_node \<Rightarrow> bool" where
  "ByNodeNUMATopologyFitness needNumber p1 p2 = (numaTopologyFitness p1 needNumber > numaTopologyFitness p2 needNumber)"

definition node_score :: "allocation_request \<Rightarrow> ranked_node \<Rightarrow> f64" where
  "node_score req p =
     (let nodeReq = (case rn_request p of None \<Rightarrow> req | Some r \<Rightarrow> r) in
      f_mul (Score (NodeUtilization (rn_info p) (Some nodeReq)) (ar_Profile nodeReq) (ar_NodePolicy nodeReq))
        (f_of_int HundredCore))"

text \<open>The score cache of one sort, keyed by node name.\<close>

definition cachedNodeScore ::
  "allocation_request \<Rightarrow> (string, f64) gomap \<Rightarrow> ranked_node \<Rightarrow> f64 \<times> (string, f64) gomap" where
  "cachedNodeScore req cache p =
     (case map_of cache (rn_name p) of
        Some s \<Rightarrow> (s, cache)
      | None \<Rightarrow> let s = node_score req p in (s, AList.update (rn_name p) s cache))"

definition WeightedNodeLess :: "allocation_request \<Rightarrow> ranked_node \<Rightarrow> ranked_node \<Rightarrow> bool" where
  "WeightedNodeLess req p1 p2 = (node_score req p1 > node_score req p2)"

definition ApplyTopologyMode ::
  "allocation_request \<Rightarrow> (ranked_node \<Rightarrow> ranked_node \<Rightarrow> bool) list \<Rightarrow> (ranked_node \<Rightarrow> ranked_node \<Rightarrow> bool) list" where
  "ApplyTopologyMode req lts =
     (case BaseTopology (ar_Topology req) of
        LinkTopology \<Rightarrow> ByNodeGPUTopologyFitness (cn_Number (ar_Max req)) # lts
      | PCIeTopology \<Rightarrow> ByNodeGPUTopologyFitness (cn_Number (ar_Max req)) # lts
      | NUMATopology \<Rightarrow> ByNodeNUMATopologyFitness (cn_Number (ar_Max req)) # lts
      | _ \<Rightarrow> lts)"

definition NewNodePolicyPriority :: "allocation_request \<Rightarrow> (ranked_node \<Rightarrow> ranked_node \<Rightarrow> bool) list" where
  "NewNodePolicyPriority req = ApplyTopologyMode req [WeightedNodeLess req, ByNodeNameAsc]"

section \<open>The orderings are deterministic\<close>

lemma comparator_ByNuma: "comparator ByNuma"
  by unfold_locales (auto simp: ByNuma_def split: if_splits)

lemma comparator_device: "lt \<in> set (NewDevicePolicyPriority req) \<Longrightarrow> comparator lt"
  using comparator_key [of Device_Score] comparator_key_desc [of Device_Score] comparator_key [of d_id] comparator_ByNuma
  by (auto simp: NewDevicePolicyPriority_def ByDeviceScoreAsc_def [abs_def] ByDeviceScoreDes_def [abs_def]
      ByDeviceIdAsc_def [abs_def] split: if_splits)

lemma device_chain_total:
  "d_id a \<noteq> d_id b \<Longrightarrow> chain_less (NewDevicePolicyPriority req) a b \<or> chain_less (NewDevicePolicyPriority req) b a"
  by (auto simp: NewDevicePolicyPriority_def ByDeviceIdAsc_def)

lemma set_sortPriority [simp]: "set (sortPriority lts xs) = set xs"
  and mset_sortPriority [simp]: "mset (sortPriority lts xs) = mset xs"
  and length_sortPriority [simp]: "length (sortPriority lts xs) = length xs"
  and distinct_sortPriority [simp]: "distinct (map g (sortPriority lts xs)) = distinct (map g xs)"
  by (simp_all add: sortPriority_def distinct_map_go_sort)

text \<open>
  C24. The candidate cards are ordered deterministically: whatever order the device map was walked
  in, the device policy sorts the same cards, with distinct ids, into the same list.
\<close>

theorem device_order_deterministic:
  assumes "mset ds = mset ds'" "distinct (map d_id ds)"
  shows "sortPriority (NewDevicePolicyPriority req) ds = sortPriority (NewDevicePolicyPriority req) ds'"
  unfolding sortPriority_def
proof (rule go_sort_order_independent [OF comparator_chain assms(1)])
  show "\<forall>lt \<in> set (NewDevicePolicyPriority req). comparator lt" using comparator_device by blast
  fix a b assume "a \<in> set ds" "b \<in> set ds" "a \<noteq> b"
  then have "d_id a \<noteq> d_id b" using assms(2) by (auto simp: distinct_map inj_on_def)
  then show "chain_less (NewDevicePolicyPriority req) a b \<or> chain_less (NewDevicePolicyPriority req) b a"
    by (rule device_chain_total)
qed

theorem device_order_deterministic_witness:
  "sortPriority (NewDevicePolicyPriority demo_request) [demo_device, demo_device\<lparr>d_id := 1\<rparr>]
   = sortPriority (NewDevicePolicyPriority demo_request) [demo_device\<lparr>d_id := 1\<rparr>, demo_device]"
  by (rule device_order_deterministic) (simp_all add: demo_device_def NewDevice_def add_mset_commute)

lemma comparator_name: "comparator ByNodeNameAsc"
proof
  show "\<not> ByNodeNameAsc y x" if "ByNodeNameAsc x y" for x y
    using that unfolding ByNodeNameAsc_def by (rule str_cmp.less_asym)
  show "\<not> ByNodeNameAsc x z" if "\<not> ByNodeNameAsc x y" "\<not> ByNodeNameAsc y z" for x y z
    using that unfolding ByNodeNameAsc_def by (rule str_cmp.less_negtrans)
qed

lemma comparator_node: "lt \<in> set (NewNodePolicyPriority req) \<Longrightarrow> comparator lt"
  using comparator_key_desc [of "node_score req"] comparator_name
    comparator_key_desc [of "\<lambda>p. LinkTopologyFitness (rn_info p) (cn_Number (ar_Max req))"]
    comparator_key_desc [of "\<lambda>p. numaTopologyFitness p (cn_Number (ar_Max req))"]
  by (auto simp: NewNodePolicyPriority_def ApplyTopologyMode_def WeightedNodeLess_def [abs_def]
      ByNodeGPUTopologyFitness_def [abs_def] ByNodeNUMATopologyFitness_def [abs_def] split: topology_mode.splits)

lemma node_chain_total:
  assumes "rn_name a \<noteq> rn_name b"
  shows "chain_less (NewNodePolicyPriority req) a b \<or> chain_less (NewNodePolicyPriority req) b a"
  using assms str_less_total [of "rn_name a" "rn_name b"]
  by (auto simp: NewNodePolicyPriority_def ApplyTopologyMode_def ByNodeNameAsc_def split: topology_mode.splits)

text \<open>With distinct node names the ranking does not depend on the order of the candidates.\<close>

lemma node_order_deterministic:
  assumes "mset ns = mset ns'" "distinct (map rn_name ns)"
  shows "sortPriority (NewNodePolicyPriority req) ns = sortPriority (NewNodePolicyPriority req) ns'"
  unfolding sortPriority_def
proof (rule go_sort_order_independent [OF comparator_chain assms(1)])
  show "\<forall>lt \<in> set (NewNodePolicyPriority req). comparator lt" using comparator_node by blast
  fix a b assume "a \<in> set ns" "b \<in> set ns" "a \<noteq> b"
  then have "rn_name a \<noteq> rn_name b" using assms(2) by (auto simp: distinct_map inj_on_def)
  then show "chain_less (NewNodePolicyPriority req) a b \<or> chain_less (NewNodePolicyPriority req) b a"
    by (rule node_chain_total)
qed

definition demo_ranked :: "string \<Rightarrow> ranked_node" where
  "demo_ranked name = \<lparr>rn_info = demo_node\<lparr>ni_node := (ni_node demo_node)\<lparr>n_Name := name\<rparr>\<rparr>, rn_request = None\<rparr>"

text \<open>The scores a sequence of comparisons reads through the cache.\<close>

fun cached_scores :: "allocation_request \<Rightarrow> (string, f64) gomap \<Rightarrow> ranked_node list \<Rightarrow> f64 list" where
  "cached_scores req cache [] = []"
| "cached_scores req cache (p # ps) =
     (case cachedNodeScore req cache p of (s, cache') \<Rightarrow> s # cached_scores req cache' ps)"

lemma cached_scores_coherent:
  assumes "\<forall>p \<in> set ps. case map_of cache (rn_name p) of None \<Rightarrow> True | Some s \<Rightarrow> s = node_score req p"
    and "inj_on rn_name (set ps)"
  shows "cached_scores req cache ps = map (node_score req) ps"
  using assms
proof (induction ps arbitrary: cache)
  case (Cons p ps)
  let ?c = "snd (cachedNodeScore req cache p)"
  have c: "cachedNodeScore req cache p = (node_score req p, ?c)"
    using Cons.prems(1) by (auto simp: cachedNodeScore_def Let_def split: option.splits)
  have "case map_of ?c (rn_name q) of None \<Rightarrow> True | Some s \<Rightarrow> s = node_score req q" if "q \<in> set ps" for q
  proof (cases "rn_name q = rn_name p")
    case True
    then have "q = p" using Cons.prems(2) that by (auto simp: inj_on_def)
    then show ?thesis using Cons.prems(1)
      by (auto simp: cachedNodeScore_def Let_def map_of_update split: option.splits)
  next
    case False
    then show ?thesis using Cons.prems(1) that
      by (auto simp: cachedNodeScore_def Let_def map_of_update split: option.splits)
  qed
  then have "cached_scores req ?c ps = map (node_score req) ps"
    using Cons.prems(2) by (intro Cons.IH) (auto simp: inj_on_def)
  then show ?case by (subst cached_scores.simps, subst c) simp
qed simp

text \<open>
  The score cache of a sort is transparent: however often and in whatever order the nodes are
  compared, every score read through the cache is the score computed afresh, as long as no two
  candidates share a name.
\<close>

theorem cachedNodeScore_transparent:
  assumes "inj_on rn_name (set ps)"
  shows "cached_scores req [] ps = map (node_score req) ps"
  using cached_scores_coherent [OF _ assms, where cache = "[]"] by simp

theorem cachedNodeScore_transparent_witness:
  "cached_scores demo_request [] [demo_ranked ''a'', demo_ranked ''b'', demo_ranked ''a'']
   = map (node_score demo_request) [demo_ranked ''a'', demo_ranked ''b'', demo_ranked ''a'']"
  by (rule cachedNodeScore_transparent) (simp add: demo_ranked_def rn_name_def inj_on_def)

section \<open>The direction of the scores\<close>

lemma f_mul_mono: "0 \<le> w \<Longrightarrow> 0 \<le> x \<Longrightarrow> x \<le> y \<Longrightarrow> 0 \<le> f_mul w x \<and> f_mul w x \<le> f_mul w y"
  by (auto simp: f_mul_def intro!: f64.r_mono f64.r_nonneg mult_left_mono)

lemma f_add_mono: "0 \<le> a \<Longrightarrow> 0 \<le> b \<Longrightarrow> a \<le> a' \<Longrightarrow> b \<le> b' \<Longrightarrow> 0 \<le> f_add a b \<and> f_add a b \<le> f_add a' b'"
  by (auto simp: f_add_def intro!: f64.r_mono f64.r_nonneg add_mono)

lemma f_sub_anti: "0 \<le> x \<Longrightarrow> x \<le> y \<Longrightarrow> y \<le> 1 \<Longrightarrow> 0 \<le> f_sub 1 y \<and> f_sub 1 y \<le> f_sub 1 x"
  by (auto simp: f_sub_def intro!: f64.r_mono f64.r_nonneg)

definition fuller :: "resource_utilization \<Rightarrow> resource_utilization \<Rightarrow> bool" where
  "fuller u v \<longleftrightarrow> 0 \<le> ru_Num u \<and> ru_Num u \<le> ru_Num v \<and> ru_Num v \<le> 1 \<and>
     0 \<le> ru_Mem u \<and> ru_Mem u \<le> ru_Mem v \<and> ru_Mem v \<le> 1 \<and> 0 \<le> ru_Core u \<and> ru_Core u \<le> ru_Core v \<and> ru_Core v \<le> 1"

text \<open>
  C25. The score has the direction of the policy, rounding included: of two utilisations of which
  one is at least as full in every resource, binpack never scores the fuller one lower and
  spread never scores it higher, for any non-negative weights.
\<close>

theorem Score_direction:
  assumes "fuller u v" "0 \<le> rp_NumWeight p" "0 \<le> rp_MemWeight p" "0 \<le> rp_CoreWeight p"
  shows "Score u p BinpackPolicy \<le> Score v p BinpackPolicy \<and> Score v p SpreadPolicy \<le> Score u p SpreadPolicy"
proof -
  have ne: "SpreadPolicy \<noteq> BinpackPolicy" by (simp add: SpreadPolicy_def BinpackPolicy_def)
  have sum: "f_add (f_add (f_mul (rp_NumWeight p) a) (f_mul (rp_MemWeight p) b)) (f_mul (rp_CoreWeight p) c)
      \<le> f_add (f_add (f_mul (rp_NumWeight p) a') (f_mul (rp_MemWeight p) b')) (f_mul (rp_CoreWeight p) c')"
    if "0 \<le> a" "a \<le> a'" "0 \<le> b" "b \<le> b'" "0 \<le> c" "c \<le> c'" for a a' b b' c c'
  proof -
    note m = f_mul_mono [OF assms(2) that(1,2)] f_mul_mono [OF assms(3) that(3,4)] f_mul_mono [OF assms(4) that(5,6)]
    have "0 \<le> f_add (f_mul (rp_NumWeight p) a) (f_mul (rp_MemWeight p) b) \<and>
      f_add (f_mul (rp_NumWeight p) a) (f_mul (rp_MemWeight p) b) \<le> f_add (f_mul (rp_NumWeight p) a') (f_mul (rp_MemWeight p) b')"
      using m by (intro f_add_mono) auto
    then show ?thesis using m by (intro f_add_mono [THEN conjunct2]) auto
  qed
  have u: "0 \<le> ru_Num u" "ru_Num u \<le> ru_Num v" "0 \<le> ru_Mem u" "ru_Mem u \<le> ru_Mem v" "0 \<le> ru_Core u" "ru_Core u \<le> ru_Core v"
    using assms(1) by (auto simp: fuller_def)
  have f: "0 \<le> f_sub 1 (ru_Num v)" "f_sub 1 (ru_Num v) \<le> f_sub 1 (ru_Num u)" "0 \<le> f_sub 1 (ru_Mem v)"
    "f_sub 1 (ru_Mem v) \<le> f_sub 1 (ru_Mem u)" "0 \<le> f_sub 1 (ru_Core v)" "f_sub 1 (ru_Core v) \<le> f_sub 1 (ru_Core u)"
    using assms(1) f_sub_anti [of "ru_Num u" "ru_Num v"] f_sub_anti [of "ru_Mem u" "ru_Mem v"]
      f_sub_anti [of "ru_Core u" "ru_Core v"] by (auto simp: fuller_def)
  show ?thesis using sum [OF u] sum [OF f] ne by (simp add: Score_def)
qed

theorem Score_direction_witness:
  "Score \<lparr>ru_Num = 0, ru_Mem = 1 / 4, ru_Core = 1 / 2\<rparr> UniformProfile BinpackPolicy
     \<le> Score \<lparr>ru_Num = 1 / 2, ru_Mem = 1 / 4, ru_Core = 1\<rparr> UniformProfile BinpackPolicy"
proof -
  have "0 \<le> f_div 1 3" by (simp add: f_div_def f64.r_nonneg)
  then show ?thesis
    using Score_direction [of "\<lparr>ru_Num = 0, ru_Mem = 1 / 4, ru_Core = 1 / 2\<rparr>"
        "\<lparr>ru_Num = 1 / 2, ru_Mem = 1 / 4, ru_Core = 1\<rparr>" UniformProfile]
    by (simp add: fuller_def UniformProfile_def)
qed

end
