(* ===== verification/Numa.thy ===== *)
theory Numa
  imports Scoring
begin

text \<open>
  NUMA grouping (\<^verbatim>\<open>pkg/device/allocator/numa.go\<close>): candidate cards by NUMA node, the order the
  nodes are offered in under a device policy, and the callback loop that stops at the first
  node the callback accepts. The order of the association list is the iteration order of the
  map; cards with a negative NUMA id are in no group.
\<close>

type_synonym numa_node_device = "(int, device list) gomap"

definition add_numa :: "numa_node_device \<Rightarrow> device \<Rightarrow> numa_node_device" where
  "add_numa m d =
     (if d_numa d < 0 then m
      else AList.update (d_numa d) ((case map_of m (d_numa d) of None \<Rightarrow> [] | Some ds \<Rightarrow> ds) @ [d]) m)"

definition NewNumaNodeDevice :: "device list \<Rightarrow> numa_node_device" where
  "NewNumaNodeDevice devices = foldl add_numa [] devices"

definition MaxDeviceNumberForNumaNode :: "numa_node_device \<Rightarrow> int" where
  "MaxDeviceNumberForNumaNode n = foldl (\<lambda>maxNum ds. max maxNum (int (length ds))) 0 (vals n)"

definition numa_group :: "numa_node_device \<Rightarrow> int \<Rightarrow> device list" where
  "numa_group n k = (case map_of n k of None \<Rightarrow> [] | Some ds \<Rightarrow> ds)"

definition sortByScoreDesc :: "numa_node_device \<Rightarrow> request_profile \<Rightarrow> scheduler_policy \<Rightarrow> int list" where
  "sortByScoreDesc n profile mode =
     go_sort (\<lambda>a b. Score (NumaUtilization (numa_group n a)) profile mode
                    > Score (NumaUtilization (numa_group n b)) profile mode) (keys n)"

text \<open>A callback threads its state and says whether it is done.\<close>

type_synonym 's callback = "'s \<Rightarrow> int \<Rightarrow> device list \<Rightarrow> 's \<times> bool"

fun visit_numa :: "'s callback \<Rightarrow> numa_node_device \<Rightarrow> int list \<Rightarrow> 's \<Rightarrow> 's" where
  "visit_numa callback n [] s = s"
| "visit_numa callback n (k # ks) s =
     (case callback s k (numa_group n k) of (s', finished) \<Rightarrow> if finished then s' else visit_numa callback n ks s')"

definition DefaultCallback :: "numa_node_device \<Rightarrow> 's callback \<Rightarrow> 's \<Rightarrow> 's" where
  "DefaultCallback n callback s = visit_numa callback n (go_sort (<) (keys n)) s"

definition BinpackCallback :: "numa_node_device \<Rightarrow> request_profile \<Rightarrow> 's callback \<Rightarrow> 's \<Rightarrow> 's" where
  "BinpackCallback n profile callback s = visit_numa callback n (sortByScoreDesc n profile BinpackPolicy) s"

definition SpreadCallback :: "numa_node_device \<Rightarrow> request_profile \<Rightarrow> 's callback \<Rightarrow> 's \<Rightarrow> 's" where
  "SpreadCallback n profile callback s = visit_numa callback n (sortByScoreDesc n profile SpreadPolicy) s"

definition SchedulerPolicyCallback ::
  "numa_node_device \<Rightarrow> request_profile \<Rightarrow> scheduler_policy \<Rightarrow> 's callback \<Rightarrow> 's \<Rightarrow> 's" where
  "SchedulerPolicyCallback n profile policy callback s =
     (if policy = BinpackPolicy then BinpackCallback n profile callback s
      else if policy = SpreadPolicy then SpreadCallback n profile callback s
      else DefaultCallback n callback s)"

definition CanNotCrossNumaNode :: "int \<Rightarrow> device list \<Rightarrow> numa_node_device option" where
  "CanNotCrossNumaNode gpuNumber devices =
     (let numaDevices = NewNumaNodeDevice devices in
      if gpuNumber \<le> MaxDeviceNumberForNumaNode numaDevices then Some numaDevices else None)"

text \<open>The NUMA ids in the order a policy offers them.\<close>

definition numa_order :: "numa_node_device \<Rightarrow> request_profile \<Rightarrow> scheduler_policy \<Rightarrow> int list" where
  "numa_order n profile policy =
     (if policy = BinpackPolicy \<or> policy = SpreadPolicy then sortByScoreDesc n profile policy else go_sort (<) (keys n))"

lemma SchedulerPolicyCallback_order:
  "SchedulerPolicyCallback n profile policy callback s = visit_numa callback n (numa_order n profile policy) s"
  by (auto simp: SchedulerPolicyCallback_def BinpackCallback_def SpreadCallback_def DefaultCallback_def numa_order_def)

lemma set_numa_order [simp]: "set (numa_order n profile policy) = set (keys n)"
  by (simp add: numa_order_def sortByScoreDesc_def)

lemma visit_numa_first:
  "visit_numa (\<lambda>s k ds. if int (length ds) < need then (s, False) else (f ds, True)) n ks s =
     (case find (\<lambda>k. need \<le> int (length (numa_group n k))) ks of None \<Rightarrow> s | Some k \<Rightarrow> f (numa_group n k))"
  by (induction ks) auto

section \<open>The groups\<close>

lemma numa_group_add:
  "numa_group (add_numa m d) k = numa_group m k @ (if k = d_numa d \<and> 0 \<le> k then [d] else [])"
  by (auto simp: numa_group_def add_numa_def map_of_update split: option.split)

lemma numa_group_fold:
  "numa_group (foldl add_numa m ds) k = numa_group m k @ (if 0 \<le> k then filter (\<lambda>d. d_numa d = k) ds else [])"
  by (induction ds arbitrary: m) (auto simp: numa_group_add)

lemma numa_group_eq: "numa_group (NewNumaNodeDevice ds) k = (if 0 \<le> k then filter (\<lambda>d. d_numa d = k) ds else [])"
  using numa_group_fold [of "[]" ds k] by (simp add: NewNumaNodeDevice_def) (simp add: numa_group_def)

lemma distinct_numa_keys: "distinct (keys (NewNumaNodeDevice ds))"
proof -
  have "distinct (keys m) \<Longrightarrow> distinct (keys (foldl add_numa m ds))" for m
    by (induction ds arbitrary: m) (auto simp: add_numa_def intro: distinct_keys_update)
  then show ?thesis by (simp add: NewNumaNodeDevice_def)
qed

lemma numa_max_attained:
  assumes "g \<le> MaxDeviceNumberForNumaNode n" "0 < g"
  shows "\<exists>ds \<in> set (vals n). g \<le> int (length ds)"
proof -
  have "MaxDeviceNumberForNumaNode n = foldl max 0 (map (\<lambda>ds. int (length ds)) (vals n))"
    by (simp add: MaxDeviceNumberForNumaNode_def foldl_map)
  then show ?thesis
    using assms foldl_max_cases [of 0 "map (\<lambda>ds. int (length ds)) (vals n)"] by auto
qed

lemma numa_max_upper: "ds \<in> set (vals n) \<Longrightarrow> int (length ds) \<le> MaxDeviceNumberForNumaNode n"
  using foldl_max_upper [of "int (length ds)" "map (\<lambda>ds. int (length ds)) (vals n)" 0]
  by (simp add: MaxDeviceNumberForNumaNode_def foldl_map)

text \<open>
  A single NUMA node can host a positive request exactly when some known NUMA id is shared by
  at least that many of the candidate cards; cards whose NUMA node is unknown never count.
\<close>

theorem CanNotCrossNumaNode_iff:
  assumes "0 < g"
  shows "CanNotCrossNumaNode g ds \<noteq> None \<longleftrightarrow> (\<exists>k \<ge> 0. g \<le> int (length (filter (\<lambda>d. d_numa d = k) ds)))"
proof
  let ?n = "NewNumaNodeDevice ds"
  assume "CanNotCrossNumaNode g ds \<noteq> None"
  then obtain xs where xs: "xs \<in> set (vals ?n)" "g \<le> int (length xs)"
    using numa_max_attained [OF _ assms] by (auto simp: CanNotCrossNumaNode_def Let_def split: if_splits)
  then obtain k where "map_of ?n k = Some xs" using distinct_numa_keys [of ds] by (auto simp: in_vals_iff keys_def intro: map_of_is_SomeI)
  then have "numa_group ?n k = xs" by (simp add: numa_group_def)
  then show "\<exists>k \<ge> 0. g \<le> int (length (filter (\<lambda>d. d_numa d = k) ds))"
    using xs(2) assms by (auto simp: numa_group_eq split: if_splits)
next
  let ?n = "NewNumaNodeDevice ds"
  assume "\<exists>k \<ge> 0. g \<le> int (length (filter (\<lambda>d. d_numa d = k) ds))"
  then obtain k where "k \<ge> 0" "g \<le> int (length (filter (\<lambda>d. d_numa d = k) ds))" by blast
  then have k: "g \<le> int (length (numa_group ?n k))" by (simp add: numa_group_eq)
  then have "numa_group ?n k \<in> set (vals ?n)"
    using assms map_of_in_vals [of ?n k] by (auto simp: numa_group_def split: option.splits)
  then show "CanNotCrossNumaNode g ds \<noteq> None"
    using k numa_max_upper by (fastforce simp: CanNotCrossNumaNode_def Let_def)
qed

theorem CanNotCrossNumaNode_iff_witness:
  "CanNotCrossNumaNode 2 [demo_device, demo_device\<lparr>d_numa := 1\<rparr>] = None \<and>
   CanNotCrossNumaNode 1 [demo_device, demo_device\<lparr>d_numa := 1\<rparr>] \<noteq> None"
proof -
  have "k \<ge> 0 \<Longrightarrow> \<not> 2 \<le> int (length (filter (\<lambda>d. d_numa d = k) [demo_device, demo_device\<lparr>d_numa := 1\<rparr>]))" for k
    by (simp add: demo_device_def NewDevice_def)
  moreover have "1 \<le> int (length (filter (\<lambda>d. d_numa d = 0) [demo_device, demo_device\<lparr>d_numa := 1\<rparr>]))"
    by (simp add: demo_device_def NewDevice_def)
  ultimately show ?thesis using CanNotCrossNumaNode_iff by (metis order_refl zero_less_numeral zero_less_one)
qed

end
