(* ===== verification/Subset_Search.thy ===== *)
theory Subset_Search
  imports Links Lifecycle
begin

text \<open>
  The in-component search (\<^verbatim>\<open>pkg/device/allocator/subset_search.go\<close> and \<^verbatim>\<open>combinationCount\<close> of
  \<^verbatim>\<open>tiered.go\<close>): the enumeration of index combinations in lexicographic order, the best
  subset by pair scores with its tie-break on the remainder, and the greedy pick. Pair scores
  are bounded by 1800 per link, so the sums are written without wrap-around. The enumeration
  loop carries fuel, the number of combinations, and \<open>combinations_all\<close> shows that it ends
  by its own exit test within it.
\<close>

section \<open>Enumerating combinations\<close>

text \<open>
  One step of the loop: the rightmost position that is not at its limit is increased, and the
  positions after it follow consecutively.
\<close>

definition advance :: "nat \<Rightarrow> nat \<Rightarrow> nat list \<Rightarrow> nat list option" where
  "advance n k idx =
     (case find (\<lambda>i. idx ! i \<noteq> i + n - k) (rev [0..<k]) of
        None \<Rightarrow> None
      | Some i \<Rightarrow> Some (take i idx @ map (\<lambda>j. Suc (idx ! i) + (j - i)) [i..<k]))"

fun visits :: "nat \<Rightarrow> nat \<Rightarrow> nat \<Rightarrow> nat list \<Rightarrow> nat list list" where
  "visits 0 n k idx = []"
| "visits (Suc fuel) n k idx =
     idx # (case advance n k idx of None \<Rightarrow> [] | Some next \<Rightarrow> visits fuel n k next)"

definition combinations :: "nat \<Rightarrow> int \<Rightarrow> nat list list" where
  "combinations n k =
     (if k \<le> 0 \<or> k > int n then [] else visits (n choose nat k) n (nat k) [0..<nat k])"

definition forEachCombination :: "nat \<Rightarrow> int \<Rightarrow> ('s \<Rightarrow> nat list \<Rightarrow> 's) \<Rightarrow> 's \<Rightarrow> 's" where
  "forEachCombination n k fn s = foldl fn s (combinations n k)"

section \<open>Scores of sets\<close>

fun setScore :: "link_device list \<Rightarrow> int" where
  "setScore [] = 0"
| "setScore (a # as) = sum_list (map (PairScore a) as) + setScore as"

definition setScoreWithFixed :: "link_device list \<Rightarrow> link_device list \<Rightarrow> int" where
  "setScoreWithFixed set0 fixed = setScore set0 + sum_list (map (\<lambda>a. sum_list (map (PairScore a) fixed)) set0)"

section \<open>The greedy pick\<close>

definition gain_of :: "link_device list \<Rightarrow> link_device \<Rightarrow> int" where
  "gain_of chosen cand = sum_list (map (\<lambda>c. PairScore c cand) chosen)"

definition greedy_scan :: "link_device list \<Rightarrow> bool list \<Rightarrow> link_device list \<Rightarrow> nat option \<times> int" where
  "greedy_scan chosen used devices =
     foldl (\<lambda>(bestIdx, bestGain) i.
              if used ! i then (bestIdx, bestGain)
              else let gain = gain_of chosen (devices ! i) in
                   if gain > bestGain then (Some i, gain) else (bestIdx, bestGain))
       (None, -1) [0..<length devices]"

fun greedy_loop :: "nat \<Rightarrow> link_device list \<Rightarrow> bool list \<Rightarrow> link_device list \<Rightarrow> link_device list" where
  "greedy_loop 0 chosen used devices = chosen"
| "greedy_loop (Suc rest) chosen used devices =
     (case fst (greedy_scan chosen used devices) of
        None \<Rightarrow> chosen
      | Some i \<Rightarrow> greedy_loop rest (chosen @ [devices ! i]) (used[i := True]) devices)"

definition greedyPick :: "link_device list \<Rightarrow> link_device list \<Rightarrow> int \<Rightarrow> link_device list" where
  "greedyPick devices fixed need =
     (if need \<le> 0 \<or> need > int (length devices) then []
      else drop (length fixed) (greedy_loop (nat need) fixed (replicate (length devices) False) devices))"

section \<open>The exhaustive search\<close>

definition complementScore :: "link_device list \<Rightarrow> nat list \<Rightarrow> int \<Rightarrow> int" where
  "complementScore devices chosen need =
     (let rest = map ((!) devices) (filter (\<lambda>i. i \<notin> set chosen) [0..<length devices]) in
      if int (length rest) < need \<or> need < 2 then 0 else setScore (greedyPick rest [] need))"

text \<open>The state of the search: best score, best remainder, best subset.\<close>

type_synonym search_state = "int \<times> int \<times> link_device list option"

definition search_step :: "link_device list \<Rightarrow> link_device list \<Rightarrow> int \<Rightarrow> search_state \<Rightarrow> nat list \<Rightarrow> search_state" where
  "search_step devices fixed need st idx =
     (case st of (bestScore, bestRemainder, best) \<Rightarrow>
        let current = map ((!) devices) idx;
            score = setScoreWithFixed current fixed
        in if score < bestScore then st
           else let remainder = complementScore devices idx need in
                if score > bestScore \<or> remainder > bestRemainder then (score, remainder, Some current) else st)"

definition searchBestSubsetWithFixed :: "link_device list \<Rightarrow> link_device list \<Rightarrow> int \<Rightarrow> int \<times> link_device list" where
  "searchBestSubsetWithFixed devices fixed need =
     (if need \<le> 0 \<or> need > int (length devices) then (0, [])
      else case forEachCombination (length devices) need (search_step devices fixed need) (-1, -1, None) of
             (bestScore, bestRemainder, best) \<Rightarrow>
               (case best of None \<Rightarrow> (0, []) | Some b \<Rightarrow> (bestScore, b)))"

definition searchBestSubset :: "link_device list \<Rightarrow> int \<Rightarrow> int \<times> link_device list" where
  "searchBestSubset devices need = searchBestSubsetWithFixed devices [] need"

section \<open>Counting combinations\<close>

definition maxCombinationSearch :: int where
  "maxCombinationSearch = 50000"

text \<open>The loop from \<open>i\<close> on, with \<open>rest\<close> rounds left.\<close>

fun count_loop :: "nat \<Rightarrow> int \<Rightarrow> int \<Rightarrow> int \<Rightarrow> int \<Rightarrow> int" where
  "count_loop 0 n k i result = result"
| "count_loop (Suc rest) n k i result =
     (let result' = result * (n - k + i) div i in
      if result' > maxCombinationSearch then maxCombinationSearch + 1 else count_loop rest n k (i + 1) result')"

definition combinationCount :: "int \<Rightarrow> int \<Rightarrow> int" where
  "combinationCount n k =
     (if k < 0 \<or> k > n then 0
      else let k' = (if k > n - k then n - k else k) in count_loop (nat k') n k' 1 1)"

section \<open>The enumeration visits every combination once\<close>

fun combs :: "nat \<Rightarrow> nat \<Rightarrow> nat \<Rightarrow> nat list list" where
  "combs lo n 0 = [[]]"
| "combs lo n (Suc k) = concat (map (\<lambda>i. map ((#) i) (combs (Suc i) n k)) [lo..<n - k])"

definition increasing :: "nat \<Rightarrow> nat \<Rightarrow> nat \<Rightarrow> nat list \<Rightarrow> bool" where
  "increasing lo n k idx \<longleftrightarrow> length idx = k \<and> sorted_wrt (<) idx \<and> set idx \<subseteq> {lo..<n}"

lemma increasing_Cons:
  "increasing lo n (Suc k) (i # is) \<longleftrightarrow> lo \<le> i \<and> i < n - k \<and> increasing (Suc i) n k is"
proof
  assume a: "increasing lo n (Suc k) (i # is)"
  then have s: "increasing (Suc i) n k is" and i: "lo \<le> i" "i < n" by (auto simp: increasing_def Suc_le_eq)
  have "card (set is) = k" using s by (simp add: increasing_def strict_sorted_iff distinct_card)
  moreover have "card (set is) \<le> card {Suc i..<n}" using s by (intro card_mono) (auto simp: increasing_def)
  ultimately show "lo \<le> i \<and> i < n - k \<and> increasing (Suc i) n k is" using s i by simp
next
  assume "lo \<le> i \<and> i < n - k \<and> increasing (Suc i) n k is"
  then show "increasing lo n (Suc k) (i # is)" by (auto simp: increasing_def Suc_le_eq)
qed

lemma combs_iff: "idx \<in> set (combs lo n k) \<longleftrightarrow> increasing lo n k idx"
proof (induction k arbitrary: lo idx)
  case 0
  then show ?case by (auto simp: increasing_def)
next
  case (Suc k)
  show ?case
  proof (cases idx)
    case Nil
    then show ?thesis by (auto simp: increasing_def)
  next
    case (Cons i js)
    then show ?thesis by (auto simp: increasing_Cons Suc.IH image_iff)
  qed
qed

lemma distinct_combs: "distinct (combs lo n k)"
proof (induction k arbitrary: lo)
  case (Suc k)
  have "distinct (concat (map (\<lambda>i. map ((#) i) (combs (Suc i) n k)) is))" if "distinct is" for "is"
    using that by (induction "is") (auto simp: distinct_map Suc.IH)
  then show ?case by simp
qed simp

lemma length_combs: "length (combs 0 n k) = n choose k"
proof -
  have inj: "inj_on set {idx. increasing 0 n k idx}"
    by (auto simp: inj_on_def increasing_def intro: strict_sorted_equal)
  have img: "set ` {idx. increasing 0 n k idx} = {A. A \<subseteq> {0..<n} \<and> card A = k}" (is "?l = ?r")
  proof
    show "?l \<subseteq> ?r" by (auto simp: increasing_def strict_sorted_iff distinct_card)
    show "?r \<subseteq> ?l"
    proof
      fix A assume A: "A \<in> ?r"
      then have f: "finite A" by (auto intro: finite_subset)
      have "increasing 0 n k (sorted_list_of_set A)" using A f by (auto simp: increasing_def)
      then show "A \<in> ?l" using f by (intro image_eqI [of _ _ "sorted_list_of_set A"]) auto
    qed
  qed
  have "length (combs 0 n k) = card (set (combs 0 n k))" by (simp add: distinct_card distinct_combs)
  also have "\<dots> = card {idx. increasing 0 n k idx}" by (intro arg_cong [of _ _ card]) (auto simp: combs_iff)
  also have "\<dots> = card {A. A \<subseteq> {0..<n} \<and> card A = k}" using card_image [OF inj] img by simp
  also have "\<dots> = n choose k" using n_subsets [of "{0..<n}" k] by simp
  finally show ?thesis .
qed

text \<open>The successor of a combination, by recursion on the list.\<close>

fun next_comb :: "nat \<Rightarrow> nat list \<Rightarrow> nat list option" where
  "next_comb n [] = None"
| "next_comb n (x # xs) =
     (case next_comb n xs of
        Some ys \<Rightarrow> Some (x # ys)
      | None \<Rightarrow> if Suc (x + length xs) < n then Some [Suc x..<Suc x + Suc (length xs)] else None)"

lemma advance_Cons:
  assumes "x + Suc (length xs) \<le> n"
  shows "advance n (Suc (length xs)) (x # xs) =
     (case advance n (length xs) xs of
        Some ys \<Rightarrow> Some (x # ys)
      | None \<Rightarrow> if Suc (x + length xs) < n then Some [Suc x..<Suc x + Suc (length xs)] else None)"
proof -
  let ?L = "length xs"
  let ?P = "\<lambda>i. (x # xs) ! i \<noteq> i + n - Suc ?L"
  have up: "rev [0..<Suc ?L] = map Suc (rev [0..<?L]) @ [0]"
    by (simp add: upt_conv_Cons map_Suc_upt rev_map [symmetric] del: upt_Suc)
  have f: "find ?P (map Suc is) = map_option Suc (find (\<lambda>i. xs ! i \<noteq> i + n - ?L) is)" for "is"
    by (induction "is") auto
  have app: "find P (ys @ zs) = (case find P ys of None \<Rightarrow> find P zs | Some y \<Rightarrow> Some y)" for P and ys zs :: "nat list"
    by (induction ys) auto
  have x0: "?P 0 \<longleftrightarrow> Suc (x + ?L) < n" using assms by auto
  have whole: "map (\<lambda>j. Suc x + j) [0..<Suc ?L] = [Suc x..<Suc x + Suc ?L]"
    by (simp add: list_eq_iff_nth_eq del: upt_Suc)
  have tl: "map (\<lambda>j. Suc (xs ! i + (j - Suc i))) [Suc i..<Suc ?L] = map (\<lambda>j. Suc (xs ! i + (j - i))) [i..<?L]" for i
    by (simp add: map_Suc_upt [symmetric] comp_def del: upt_Suc)
  show ?thesis
    unfolding advance_def up app f
    using x0 whole by (auto simp: tl split: option.split simp del: upt_Suc)
qed

lemma advance_next:
  "increasing lo n k idx \<Longrightarrow> advance n k idx = next_comb n idx"
proof (induction idx arbitrary: lo k)
  case Nil
  then show ?case by (simp add: increasing_def advance_def)
next
  case (Cons x xs)
  then obtain k' where k: "k = Suc k'" "k' = length xs" by (auto simp: increasing_def)
  then have "x < n - k'" "increasing (Suc x) n k' xs" using Cons.prems by (auto simp: increasing_Cons)
  then show ?case using advance_Cons [of x xs n] Cons.IH [of "Suc x" k'] k by simp
qed

text \<open>A list of combinations linked by the successor, whose last element has none.\<close>

definition chained :: "nat \<Rightarrow> nat list list \<Rightarrow> bool" where
  "chained n xs \<longleftrightarrow> successively (\<lambda>a b. next_comb n a = Some b) xs"

lemma chained_append:
  assumes "as \<noteq> []" "bs \<noteq> []" "chained n as" "chained n bs" "next_comb n (last as) = Some (hd bs)"
  shows "as @ bs \<noteq> [] \<and> hd (as @ bs) = hd as \<and> chained n (as @ bs) \<and> last (as @ bs) = last bs"
  using assms by (simp add: chained_def successively_append_iff)

lemma combs_chained:
  assumes "lo + k \<le> n"
  shows "combs lo n k \<noteq> [] \<and> hd (combs lo n k) = [lo..<lo + k] \<and> chained n (combs lo n k) \<and>
    next_comb n (last (combs lo n k)) = None"
  using assms
proof (induction k arbitrary: lo)
  case 0
  then show ?case by (simp add: chained_def)
next
  case (Suc k)
  let ?blk = "\<lambda>i. map ((#) i) (combs (Suc i) n k)"
  have blk: "?blk i \<noteq> [] \<and> hd (?blk i) = [i..<i + Suc k] \<and> chained n (?blk i) \<and>
      next_comb n (last (?blk i)) = (if Suc (i + k) < n then Some [Suc i..<Suc i + Suc k] else None)"
    if "i < n - k" for i
  proof -
    have IH: "combs (Suc i) n k \<noteq> []" "hd (combs (Suc i) n k) = [Suc i..<Suc i + k]" "chained n (combs (Suc i) n k)"
      "next_comb n (last (combs (Suc i) n k)) = None" using Suc.IH [of "Suc i"] that by auto
    have "length (last (combs (Suc i) n k)) = k"
      using last_in_set [OF IH(1)] by (simp add: combs_iff increasing_def)
    moreover have "i # [Suc i..<Suc i + k] = [i..<i + Suc k]" by (simp add: upt_conv_Cons del: upt_Suc)
    moreover have "chained n (?blk i)"
      using IH(3) unfolding chained_def successively_map by (rule successively_mono) simp
    ultimately show ?thesis using IH by (simp add: hd_map last_map)
  qed
  have all: "concat (map ?blk [lo..<Suc j]) \<noteq> [] \<and> hd (concat (map ?blk [lo..<Suc j])) = [lo..<lo + Suc k] \<and>
      chained n (concat (map ?blk [lo..<Suc j])) \<and>
      next_comb n (last (concat (map ?blk [lo..<Suc j]))) = (if Suc (j + k) < n then Some [Suc j..<Suc j + Suc k] else None)"
    if "lo \<le> j" "j < n - k" for j
    using that
  proof (induction rule: dec_induct)
    case base
    then show ?case using blk [of lo] by simp
  next
    case (step j)
    let ?A = "concat (map ?blk [lo..<Suc j])"
    have eq: "concat (map ?blk [lo..<Suc (Suc j)]) = ?A @ ?blk (Suc j)" using step.hyps by simp
    have A: "?A \<noteq> []" "hd ?A = [lo..<lo + Suc k]" "chained n ?A" "next_comb n (last ?A) = Some [Suc j..<Suc j + Suc k]"
      using step.IH step.prems by (simp_all del: upt_Suc)
    have B: "?blk (Suc j) \<noteq> []" "hd (?blk (Suc j)) = [Suc j..<Suc j + Suc k]" "chained n (?blk (Suc j))"
      "next_comb n (last (?blk (Suc j))) = (if Suc (Suc j + k) < n then Some [Suc (Suc j)..<Suc (Suc j) + Suc k] else None)"
      using blk [OF step.prems] by (simp_all del: upt_Suc)
    have "next_comb n (last ?A) = Some (hd (?blk (Suc j)))" using A(4) B(2) by simp
    from chained_append [OF A(1) B(1) A(3) B(3) this] show ?case unfolding eq using A(2) B(4) by metis
  qed
  have "lo \<le> n - k - 1" "n - k - 1 < n - k" "Suc (n - k - 1) = n - k" "\<not> Suc (n - k - 1 + k) < n" using Suc.prems by auto
  then show ?case using all [of "n - k - 1"] by simp
qed

lemma visits_chained:
  assumes "chained n (x # xs)" "next_comb n (last (x # xs)) = None" "\<forall>y \<in> set (x # xs). increasing lo n k y"
    and "length (x # xs) \<le> fuel"
  shows "visits fuel n k x = x # xs"
  using assms
proof (induction xs arbitrary: x fuel)
  case Nil
  then obtain f where "fuel = Suc f" by (cases fuel) auto
  then show ?case using Nil advance_next by simp
next
  case (Cons y ys)
  then obtain f where f: "fuel = Suc f" by (cases fuel) auto
  have "advance n k x = Some y" using Cons.prems advance_next [of lo n k x] by (simp add: chained_def)
  moreover have "visits f n k y = y # ys"
    using Cons.prems f by (intro Cons.IH) (auto simp: chained_def)
  ultimately show ?case by (simp add: f)
qed

lemma visits_combs:
  assumes "k \<le> n" "n choose k \<le> fuel"
  shows "visits fuel n k [0..<k] = combs 0 n k"
proof -
  note c = combs_chained [of 0 k n]
  obtain x xs where x: "combs 0 n k = x # xs" using c assms by (cases "combs 0 n k") auto
  then have "x = [0..<k]" using c assms by simp
  moreover have "\<forall>y \<in> set (x # xs). increasing 0 n k y" using combs_iff [of _ 0 n k] x by auto
  ultimately show ?thesis
    using visits_chained [of n x xs 0 k fuel] c assms x length_combs [of n k] by simp
qed

lemma combinations_combs: "0 < k \<Longrightarrow> k \<le> int n \<Longrightarrow> combinations n k = combs 0 n (nat k)"
  by (simp add: combinations_def visits_combs)

text \<open>
  C26. The combination loop visits every k-element subset of the indices exactly once, each as an
  increasing list, C(n,k) of them in all, and it stops by its own exit test: giving it more
  fuel changes nothing.
\<close>

theorem combinations_all:
  assumes "0 < k" "k \<le> int n"
  shows "set (combinations n k) = {idx. length idx = nat k \<and> sorted_wrt (<) idx \<and> set idx \<subseteq> {0..<n}} \<and>
    distinct (combinations n k) \<and> length (combinations n k) = n choose nat k \<and>
    visits ((n choose nat k) + extra) n (nat k) [0..<nat k] = combinations n k"
proof -
  have "visits ((n choose nat k) + extra) n (nat k) [0..<nat k] = combinations n k"
    using assms by (simp add: combinations_combs visits_combs)
  moreover have "set (combs 0 n (nat k)) = {idx. length idx = nat k \<and> sorted_wrt (<) idx \<and> set idx \<subseteq> {0..<n}}"
    by (simp add: set_eq_iff combs_iff increasing_def)
  ultimately show ?thesis using assms by (simp add: combinations_combs distinct_combs length_combs)
qed

theorem combinations_all_witness:
  "length (combinations 4 2) = 6 \<and> combinations 4 2 = [[0, 1], [0, 2], [0, 3], [1, 2], [1, 3], [2, 3]]"
proof -
  have "length (combinations 4 2) = 4 choose nat 2" using combinations_all [of 2 4 0] by simp
  then have "length (combinations 4 2) = 6" by (simp add: choose_two)
  then show ?thesis by (simp add: combinations_combs upt_rec eval_nat_numeral)
qed

section \<open>The search is optimal\<close>

lemma sum_list_map_nonneg: "(\<And>x. 0 \<le> f x) \<Longrightarrow> 0 \<le> sum_list (map f xs)" for f :: "'a \<Rightarrow> int"
  by (induction xs) auto

lemma setScore_nonneg: "0 \<le> setScore ds"
  by (induction ds) (auto intro!: add_nonneg_nonneg sum_list_map_nonneg PairScore_nonneg)

lemma setScoreWithFixed_nonneg: "0 \<le> setScoreWithFixed ds fixed"
  unfolding setScoreWithFixed_def
  by (intro add_nonneg_nonneg setScore_nonneg sum_list_map_nonneg PairScore_nonneg)

definition best_of :: "link_device list \<Rightarrow> link_device list \<Rightarrow> int \<Rightarrow> nat list list \<Rightarrow> nat list \<Rightarrow> bool" where
  "best_of devices fixed need idxs idx \<longleftrightarrow> idx \<in> set idxs \<and>
     (\<forall>j \<in> set idxs. setScoreWithFixed (map ((!) devices) j) fixed \<le> setScoreWithFixed (map ((!) devices) idx) fixed \<and>
        (setScoreWithFixed (map ((!) devices) j) fixed = setScoreWithFixed (map ((!) devices) idx) fixed \<longrightarrow>
           complementScore devices j need \<le> complementScore devices idx need))"

lemma search_fold:
  assumes "idxs \<noteq> []"
  shows "\<exists>idx. best_of devices fixed need idxs idx \<and>
    foldl (search_step devices fixed need) (-1, -1, None) idxs =
      (setScoreWithFixed (map ((!) devices) idx) fixed, complementScore devices idx need, Some (map ((!) devices) idx))"
  using assms
proof (induction idxs rule: rev_induct)
  case (snoc j idxs)
  let ?sc = "\<lambda>idx. setScoreWithFixed (map ((!) devices) idx) fixed"
  let ?rem = "\<lambda>idx. complementScore devices idx need"
  show ?case
  proof (cases "idxs = []")
    case True
    then show ?thesis using setScoreWithFixed_nonneg [of "map ((!) devices) j" fixed]
      by (intro exI [of _ j]) (simp add: best_of_def search_step_def Let_def)
  next
    case False
    then obtain idx where b: "best_of devices fixed need idxs idx"
      and f: "foldl (search_step devices fixed need) (-1, -1, None) idxs = (?sc idx, ?rem idx, Some (map ((!) devices) idx))"
      using snoc.IH by blast
    have step: "foldl (search_step devices fixed need) (-1, -1, None) (idxs @ [j]) =
        (if ?sc j > ?sc idx \<or> (?sc j = ?sc idx \<and> ?rem j > ?rem idx) then (?sc j, ?rem j, Some (map ((!) devices) j))
         else (?sc idx, ?rem idx, Some (map ((!) devices) idx)))"
      using f by (auto simp: search_step_def Let_def)
    show ?thesis
    proof (cases "?sc j > ?sc idx \<or> (?sc j = ?sc idx \<and> ?rem j > ?rem idx)")
      case True
      then have "best_of devices fixed need (idxs @ [j]) j" using b unfolding best_of_def by fastforce
      with True step show ?thesis by (metis (no_types, lifting))
    next
      case False
      then have "best_of devices fixed need (idxs @ [j]) idx" using b unfolding best_of_def by fastforce
      with False step show ?thesis by (metis (no_types, lifting))
    qed
  qed
qed simp

lemma search_result:
  assumes "0 < need" "need \<le> int (length devices)"
  obtains idx where "best_of devices fixed need (combinations (length devices) need) idx"
    "searchBestSubsetWithFixed devices fixed need =
       (setScoreWithFixed (map ((!) devices) idx) fixed, map ((!) devices) idx)"
proof -
  have "combinations (length devices) need \<noteq> []"
    using assms length_combs [of "length devices" "nat need"] binomial_eq_0_iff [of "length devices" "nat need"]
    by (auto simp: combinations_combs)
  from search_fold [OF this, of devices fixed need] obtain idx where
    b: "best_of devices fixed need (combinations (length devices) need) idx"
    and f: "forEachCombination (length devices) need (search_step devices fixed need) (-1, -1, None) =
      (setScoreWithFixed (map ((!) devices) idx) fixed, complementScore devices idx need, Some (map ((!) devices) idx))"
    unfolding forEachCombination_def by blast
  from that [OF b] f assms show thesis by (simp add: searchBestSubsetWithFixed_def)
qed

text \<open>
  C27. The exhaustive search is optimal: the subset it returns is a choice of the requested number
  of devices, at increasing positions, with the reported score; no other choice scores higher
  together with the devices already fixed, and among the equally good ones none leaves a
  remainder with a higher greedy score.
\<close>

theorem searchBestSubset_optimal:
  assumes "0 < need" "need \<le> int (length devices)"
  shows "\<exists>idx. searchBestSubsetWithFixed devices fixed need =
      (setScoreWithFixed (map ((!) devices) idx) fixed, map ((!) devices) idx) \<and>
    length idx = nat need \<and> sorted_wrt (<) idx \<and> set idx \<subseteq> {0..<length devices} \<and>
    (\<forall>j. length j = nat need \<and> sorted_wrt (<) j \<and> set j \<subseteq> {0..<length devices} \<longrightarrow>
       setScoreWithFixed (map ((!) devices) j) fixed \<le> setScoreWithFixed (map ((!) devices) idx) fixed \<and>
       (setScoreWithFixed (map ((!) devices) j) fixed = setScoreWithFixed (map ((!) devices) idx) fixed \<longrightarrow>
          complementScore devices j need \<le> complementScore devices idx need))"
proof -
  obtain idx where b: "best_of devices fixed need (combinations (length devices) need) idx"
    and r: "searchBestSubsetWithFixed devices fixed need =
       (setScoreWithFixed (map ((!) devices) idx) fixed, map ((!) devices) idx)"
    using search_result [OF assms] by blast
  have "set (combinations (length devices) need) =
      {j. length j = nat need \<and> sorted_wrt (<) j \<and> set j \<subseteq> {0..<length devices}}"
    using assms combs_iff [of _ 0 "length devices" "nat need"] by (auto simp: combinations_combs increasing_def)
  with b show ?thesis by (intro exI [of _ idx]) (auto simp: best_of_def r)
qed

definition demo_cards :: "link_device list" where
  "demo_cards =
     [\<lparr>ld_Index = 0, ld_UUID = ''a'', ld_BusID = [], ld_Links = [(1, [7]), (2, [8])]\<rparr>,
      \<lparr>ld_Index = 1, ld_UUID = ''b'', ld_BusID = [], ld_Links = [(0, [7])]\<rparr>,
      \<lparr>ld_Index = 2, ld_UUID = ''c'', ld_BusID = [], ld_Links = [(0, [8])]\<rparr>]"

theorem searchBestSubset_optimal_witness:
  "\<exists>idx. searchBestSubsetWithFixed demo_cards [] 2 =
      (setScoreWithFixed (map ((!) demo_cards) idx) [], map ((!) demo_cards) idx) \<and>
     length idx = 2 \<and> setScoreWithFixed (map ((!) demo_cards) [0, 2]) [] \<le> setScoreWithFixed (map ((!) demo_cards) idx) []"
proof -
  have pair: "length [0 :: nat, 2] = nat 2 \<and> sorted_wrt (<) [0 :: nat, 2] \<and> set [0, 2] \<subseteq> {0..<length demo_cards}"
    by (simp add: demo_cards_def)
  have "0 < (2 :: int)" "2 \<le> int (length demo_cards)" by (simp_all add: demo_cards_def)
  from searchBestSubset_optimal [OF this, of "[]"] obtain idx where
    "searchBestSubsetWithFixed demo_cards [] 2 = (setScoreWithFixed (map ((!) demo_cards) idx) [], map ((!) demo_cards) idx)"
    "length idx = nat 2"
    "\<forall>j. length j = nat 2 \<and> sorted_wrt (<) j \<and> set j \<subseteq> {0..<length demo_cards} \<longrightarrow>
       setScoreWithFixed (map ((!) demo_cards) j) [] \<le> setScoreWithFixed (map ((!) demo_cards) idx) []" by blast
  moreover from this(3) pair have
    "setScoreWithFixed (map ((!) demo_cards) [0, 2]) [] \<le> setScoreWithFixed (map ((!) demo_cards) idx) []" by blast
  ultimately show ?thesis by (intro exI [of _ idx]) simp
qed

section \<open>The greedy pick returns what was asked for\<close>

lemma greedy_scan_unused:
  assumes "i < length devices" "\<not> used ! i"
  shows "\<exists>j. fst (greedy_scan chosen used devices) = Some j \<and> j < length devices \<and> \<not> used ! j"
proof -
  let ?f = "\<lambda>(bestIdx, bestGain) i. if used ! i then (bestIdx, bestGain)
     else let gain = gain_of chosen (devices ! i) in if gain > bestGain then (Some i, gain) else (bestIdx, bestGain)"
  have g: "0 \<le> gain_of chosen d" for d
    unfolding gain_of_def by (intro sum_list_map_nonneg PairScore_nonneg)
  have "case foldl ?f (None, -1) is of (bi, bg) \<Rightarrow>
      (case bi of None \<Rightarrow> bg = -1 \<and> (\<forall>i \<in> set is. used ! i) | Some j \<Rightarrow> j \<in> set is \<and> \<not> used ! j)" for "is"
  proof (induction "is" rule: rev_induct)
    case (snoc x xs)
    then show ?case using g [of "devices ! x"]
      by (auto simp: Let_def split: prod.splits option.splits if_splits)
  qed simp
  from this [of "[0..<length devices]"] show ?thesis using assms
    by (auto simp: greedy_scan_def split: prod.splits option.splits)
qed

lemma greedy_loop_picks:
  assumes "length used = length devices" "\<forall>i < length devices. used ! i \<longleftrightarrow> i \<in> set done" "distinct done"
    and "set done \<subseteq> {0..<length devices}" "rest + length done \<le> length devices"
  shows "\<exists>is. greedy_loop rest (fixed @ map ((!) devices) done) used devices = fixed @ map ((!) devices) (done @ is) \<and>
     length is = rest \<and> distinct (done @ is) \<and> set (done @ is) \<subseteq> {0..<length devices}"
  using assms
proof (induction rest arbitrary: used "done")
  case 0
  then show ?case by (intro exI [of _ "[]"]) simp
next
  case (Suc rest)
  have "card (set done) < card {0..<length devices}" using Suc.prems by (simp add: distinct_card)
  then obtain i where "i < length devices" "i \<notin> set done"
    using Suc.prems(4) by (metis atLeastLessThan_iff card_mono finite_atLeastLessThan finite_subset leD subsetI)
  then obtain j where j: "fst (greedy_scan (fixed @ map ((!) devices) done) used devices) = Some j"
    "j < length devices" "\<not> used ! j" using greedy_scan_unused [of i devices used] Suc.prems(2) by blast
  then have jn: "j \<notin> set done" using Suc.prems(2) by blast
  have "\<exists>is. greedy_loop rest (fixed @ map ((!) devices) (done @ [j])) (used[j := True]) devices
        = fixed @ map ((!) devices) ((done @ [j]) @ is) \<and> length is = rest \<and> distinct ((done @ [j]) @ is) \<and>
       set ((done @ [j]) @ is) \<subseteq> {0..<length devices}"
    using Suc.prems j jn by (intro Suc.IH) (auto simp: nth_list_update)
  then obtain "is" where "greedy_loop rest (fixed @ map ((!) devices) (done @ [j])) (used[j := True]) devices
        = fixed @ map ((!) devices) ((done @ [j]) @ is)" "length is = rest" "distinct ((done @ [j]) @ is)"
       "set ((done @ [j]) @ is) \<subseteq> {0..<length devices}" by blast
  then show ?case using j(1) by (intro exI [of _ "j # is"]) simp
qed

lemma greedyPick_positions:
  assumes "0 < need" "need \<le> int (length devices)"
  obtains "is" where "greedyPick devices fixed need = map ((!) devices) is" "length is = nat need" "distinct is"
    "set is \<subseteq> {0..<length devices}"
proof -
  have "\<exists>is. greedy_loop (nat need) (fixed @ map ((!) devices) []) (replicate (length devices) False) devices
        = fixed @ map ((!) devices) ([] @ is) \<and> length is = nat need \<and> distinct ([] @ is) \<and> set ([] @ is) \<subseteq> {0..<length devices}"
    using assms by (intro greedy_loop_picks) auto
  with that assms show thesis by (auto simp: greedyPick_def)
qed

section \<open>The combination count\<close>

lemma binomial_diagonal_mono: "i \<le> k \<Longrightarrow> (a + i) choose i \<le> (a + k) choose k"
proof (induction rule: dec_induct)
  case (step m)
  have "(a + m) choose m \<le> (a + Suc m) choose Suc m" by simp
  with step.IH show ?case by linarith
qed simp

lemma binomial_step:
  "int (m choose j) * (int m + 1) div (int j + 1) = int (Suc m choose Suc j)"
proof -
  have "int (Suc j) * int (Suc m choose Suc j) = int (Suc m) * int (m choose j)"
    unfolding of_nat_mult [symmetric] Suc_times_binomial ..
  then have "int (m choose j) * (int m + 1) = int (Suc m choose Suc j) * (int j + 1)" by (simp add: algebra_simps)
  then show ?thesis by simp
qed

lemma count_loop_value:
  assumes "int ((a + j) choose j) \<le> maxCombinationSearch"
  shows "count_loop rest (int (a + j + rest)) (int (j + rest)) (int j + 1) (int ((a + j) choose j)) =
    min (int ((a + j + rest) choose (j + rest))) (maxCombinationSearch + 1)"
  using assms
proof (induction rest arbitrary: j)
  case 0
  then show ?case by simp
next
  case (Suc rest)
  have r: "int ((a + j) choose j) * (int (a + j + Suc rest) - int (j + Suc rest) + (int j + 1)) div (int j + 1)
      = int (Suc (a + j) choose Suc j)"
    using binomial_step [of "a + j" j] by (simp add: algebra_simps)
  show ?case
  proof (cases "int (Suc (a + j) choose Suc j) > maxCombinationSearch")
    case True
    have "(a + Suc j) choose Suc j \<le> (a + (j + Suc rest)) choose (j + Suc rest)" by (rule binomial_diagonal_mono) simp
    then have "int (Suc (a + j) choose Suc j) \<le> int ((a + j + Suc rest) choose (j + Suc rest))"
      by (simp only: add_Suc_right add.assoc of_nat_le_iff)
    then show ?thesis using True r by (simp only: count_loop.simps Let_def) auto
  next
    case False
    then show ?thesis using Suc.IH [of "Suc j"] r by (simp add: Let_def add.commute add.left_commute)
  qed
qed

text \<open>
  C28. The combination budget is counted exactly: \<^verbatim>\<open>combinationCount\<close> is the binomial coefficient,
  saturated one above the search budget.
\<close>

theorem combinationCount_binomial:
  "combinationCount (int n) (int k) = (if k > n then 0 else min (int (n choose k)) (maxCombinationSearch + 1))"
proof -
  have base: "count_loop j (int n) (int j) 1 1 = min (int (n choose j)) (maxCombinationSearch + 1)" if "j \<le> n" for j
    using count_loop_value [of "n - j" 0 j] that by (simp add: maxCombinationSearch_def)
  show ?thesis
  proof (cases "k > n")
    case False
    then have "nat (int n - int k) = n - k" "n choose (n - k) = n choose k"
      using binomial_symmetric [of k n] by simp_all
    then show ?thesis using False base [of k] base [of "n - k"] by (simp add: combinationCount_def Let_def)
  qed (simp add: combinationCount_def)
qed

end
