(* ===== verification/Tiered.thy ===== *)
theory Tiered
  imports Numa Subset_Search
begin

text \<open>
  Tiered link allocation (\<^verbatim>\<open>pkg/device/allocator/tiered.go\<close>): candidates are grouped into the
  connectivity components they form among themselves, the tier ladder is walked from the
  tightest level, one component is chosen by device policy and link score, its members run by
  run of equal policy score, and only at the loosest tier may a set span components. Nil
  devices cannot occur in the model; the search counters of the metrics are not modelled.
\<close>

definition tierLadder :: "link_tier list" where
  "tierLadder = [TierNVLink, TierSwitch, TierNUMA, TierAny]"

definition topologyProfile :: request_profile where
  "topologyProfile = UniformProfile"

record link_plan =
  lp_Devices :: "device list"
  lp_Tier :: link_tier
  lp_Spanned :: bool

record component_group =
  cg_root :: nat
  cg_devices :: "device list"

section \<open>Components of the candidates\<close>

definition index_pairs :: "nat \<Rightarrow> (nat \<times> nat) list" where
  "index_pairs m = concat (map (\<lambda>i. map (Pair i) [Suc i..<m]) [0..<m])"

definition join_candidates :: "node_info \<Rightarrow> link_tier \<Rightarrow> device list \<Rightarrow> nat list" where
  "join_candidates n tier candidates =
     foldl (\<lambda>parent (i, j).
              if \<not> ConnectedAtTier n (d_uuid (candidates ! i)) (d_uuid (candidates ! j)) tier then parent
              else plain_union i j parent)
       [0..<length candidates] (index_pairs (length candidates))"

definition bucket_root ::
  "(nat, device list) gomap \<times> nat list \<Rightarrow> nat \<times> device \<Rightarrow> (nat, device list) gomap \<times> nat list" where
  "bucket_root st rd =
     (case st of (byRoot, rootOrder) \<Rightarrow> case rd of (rootId, d) \<Rightarrow>
        (AList.update rootId ((case map_of byRoot rootId of None \<Rightarrow> [] | Some ds \<Rightarrow> ds) @ [d]) byRoot,
         if map_of byRoot rootId = None then rootOrder @ [rootId] else rootOrder))"

definition groupByComponent :: "node_info \<Rightarrow> link_tier \<Rightarrow> device list \<Rightarrow> component_group list" where
  "groupByComponent n tier candidates =
     (if candidates = [] then []
      else let parent = join_candidates n tier candidates;
               roots = snd (find_all parent [0..<length candidates])
           in case foldl bucket_root ([], []) (zip roots candidates) of
                (byRoot, rootOrder) \<Rightarrow>
                  map (\<lambda>rootId. \<lparr>cg_root = rootId, cg_devices = (case map_of byRoot rootId of None \<Rightarrow> [] | Some ds \<Rightarrow> ds)\<rparr>)
                    (go_sort (<) rootOrder))"

definition groupsWithAtLeast :: "component_group list \<Rightarrow> int \<Rightarrow> component_group list" where
  "groupsWithAtLeast groups n = filter (\<lambda>g. int (length (cg_devices g)) \<ge> n) groups"

definition groupsFittingAtTier :: "node_info \<Rightarrow> component_group list \<Rightarrow> link_tier \<Rightarrow> int \<Rightarrow> component_group list" where
  "groupsFittingAtTier n groups tier needNumber =
     (let fitting = groupsWithAtLeast groups needNumber in
      if needNumber > 1 then fitting
      else filter (\<lambda>g. length (cg_devices g) > 1 \<or> HasLinkPeerAtTier n (d_uuid (hd (cg_devices g))) tier) fitting)"

section \<open>Link devices\<close>

definition link_by_uuid :: "device_list \<Rightarrow> (string, link_device) gomap" where
  "link_by_uuid ds = foldl (\<lambda>m d. case d of None \<Rightarrow> m | Some l \<Rightarrow> AList.update (ld_UUID l) l m) [] ds"

definition toLinkDevices :: "node_info \<Rightarrow> device list \<Rightarrow> link_device list" where
  "toLinkDevices n devices =
     List.map_filter (\<lambda>d. map_of (link_by_uuid (ni_deviceList n)) (d_uuid d)) devices"

definition fromLinkDevices :: "link_device list \<Rightarrow> device list \<Rightarrow> device list" where
  "fromLinkDevices picked store = filter (\<lambda>d. d_uuid d \<in> set (map ld_UUID picked)) store"

definition inStoreOrder :: "device list \<Rightarrow> device list \<Rightarrow> device list" where
  "inStoreOrder picked store = filter (\<lambda>d. d_uuid d \<in> set (map d_uuid picked)) store"

section \<open>Choosing a component\<close>

definition bestLinkScore :: "node_info \<Rightarrow> device list \<Rightarrow> link_tier \<Rightarrow> int \<Rightarrow> int" where
  "bestLinkScore n devices tier needNumber =
     (if int (length devices) < needNumber \<or> needNumber < 2 then 0
      else let linked = toLinkDevices n devices in
        if int (length linked) < needNumber then 0
        else if LinkTierIsUniform n tier
        then PairScore (linked ! 0) (linked ! 1) * needNumber * (needNumber - 1) div 2
        else fst (searchBestSubset linked needNumber))"

definition group_score :: "allocation_request \<Rightarrow> device list \<Rightarrow> f64" where
  "group_score req devices = Score (NumaUtilization devices) topologyProfile (ar_DevicePolicy req)"

definition pick_group_less ::
  "component_group \<times> f64 \<times> int \<Rightarrow> component_group \<times> f64 \<times> int \<Rightarrow> bool" where
  "pick_group_less a b =
     (case a of (ga, pa, la) \<Rightarrow> case b of (gb, pb, lb) \<Rightarrow>
        if pa \<noteq> pb then pa > pb else if la \<noteq> lb then la > lb else cg_root ga < cg_root gb)"

definition pickGroup :: "node_info \<Rightarrow> allocation_request \<Rightarrow> component_group list \<Rightarrow> link_tier \<Rightarrow> int \<Rightarrow> component_group" where
  "pickGroup n req groups tier needNumber =
     (if length groups = 1 then hd groups
      else fst (hd (go_sort pick_group_less
             (map (\<lambda>g. (g, group_score req (cg_devices g), bestLinkScore n (cg_devices g) tier needNumber)) groups))))"

section \<open>Choosing members\<close>

text \<open>The runs from the current one on, with the score it has and the members seen so far.\<close>

fun split_runs :: "(device \<Rightarrow> f64) \<Rightarrow> f64 \<Rightarrow> device list \<Rightarrow> device list \<Rightarrow> device list list" where
  "split_runs score cur run [] = [run]"
| "split_runs score cur run (d # ds) =
     (if score d \<noteq> cur then run # split_runs score (score d) [d] ds else split_runs score cur (run @ [d]) ds)"

definition policyRuns :: "allocation_request \<Rightarrow> device list \<Rightarrow> device list list" where
  "policyRuns req devices =
     (case devices of
        [] \<Rightarrow> []
      | d # ds \<Rightarrow>
          if ar_DevicePolicy req \<noteq> BinpackPolicy \<and> ar_DevicePolicy req \<noteq> SpreadPolicy then [devices]
          else let score = (\<lambda>d. Score (DeviceUtilization d) topologyProfile (ar_DevicePolicy req))
               in split_runs score (score d) [d] ds)"

definition pickWithinRun :: "node_info \<Rightarrow> device list \<Rightarrow> link_tier \<Rightarrow> int \<Rightarrow> device list \<Rightarrow> device list" where
  "pickWithinRun n run tier need alreadyPicked =
     (if need \<ge> int (length run) then run
      else if LinkTierIsUniform n tier then take (nat need) run
      else let linkedRun = toLinkDevices n run;
               linkedFixed = toLinkDevices n alreadyPicked
           in if combinationCount (int (length run)) need > maxCombinationSearch
              then fromLinkDevices (greedyPick linkedRun linkedFixed need) run
              else fromLinkDevices (snd (searchBestSubsetWithFixed linkedRun linkedFixed need)) run)"

fun pick_runs :: "node_info \<Rightarrow> link_tier \<Rightarrow> int \<Rightarrow> device list \<Rightarrow> device list list \<Rightarrow> device list" where
  "pick_runs n tier needNumber picked [] = picked"
| "pick_runs n tier needNumber picked (run # runs) =
     (let remaining = needNumber - int (length picked) in
      if remaining = 0 then picked
      else if int (length run) \<le> remaining then pick_runs n tier needNumber (picked @ run) runs
      else picked @ pickWithinRun n run tier remaining picked)"

definition pickMembers :: "node_info \<Rightarrow> allocation_request \<Rightarrow> device list \<Rightarrow> link_tier \<Rightarrow> int \<Rightarrow> device list" where
  "pickMembers n req devices tier needNumber =
     (if int (length devices) < needNumber then []
      else let picked = pick_runs n tier needNumber [] (policyRuns req devices) in
           if int (length picked) \<noteq> needNumber then [] else inStoreOrder picked devices)"

section \<open>Spanning components\<close>

definition span_less :: "allocation_request \<Rightarrow> component_group \<Rightarrow> component_group \<Rightarrow> bool" where
  "span_less req a b =
     (if length (cg_devices a) \<noteq> length (cg_devices b) then length (cg_devices a) > length (cg_devices b)
      else let sa = group_score req (cg_devices a); sb = group_score req (cg_devices b) in
           if sa \<noteq> sb then sa > sb else cg_root a < cg_root b)"

fun span_loop :: "node_info \<Rightarrow> allocation_request \<Rightarrow> link_tier \<Rightarrow> int \<Rightarrow> device list \<Rightarrow> component_group list \<Rightarrow> device list" where
  "span_loop n req tier needNumber picked [] = picked"
| "span_loop n req tier needNumber picked (g # gs) =
     (let remaining = needNumber - int (length picked) in
      if remaining \<le> 0 then picked
      else let count = (if int (length (cg_devices g)) < remaining then int (length (cg_devices g)) else remaining)
           in span_loop n req tier needNumber (picked @ pickMembers n req (cg_devices g) tier count) gs)"

definition spanGroups ::
  "node_info \<Rightarrow> allocation_request \<Rightarrow> device list \<Rightarrow> component_group list \<Rightarrow> link_tier \<Rightarrow> int \<Rightarrow> device list" where
  "spanGroups n req candidates groups tier needNumber =
     (let picked = span_loop n req tier needNumber [] (go_sort (span_less req) groups) in
      if int (length picked) \<noteq> needNumber then [] else inStoreOrder picked candidates)"

section \<open>The tier walk\<close>

definition plan_at_tier ::
  "node_info \<Rightarrow> allocation_request \<Rightarrow> device list \<Rightarrow> int \<Rightarrow> link_tier \<Rightarrow> link_plan option" where
  "plan_at_tier n req candidates needNumber tier =
     (let groups = groupByComponent n tier candidates in
      if groups = [] then None
      else
        let fitting = groupsFittingAtTier n groups tier needNumber;
            picked = (if fitting = [] then []
                      else pickMembers n req (cg_devices (pickGroup n req fitting tier needNumber)) tier needNumber)
        in if fitting \<noteq> [] \<and> int (length picked) = needNumber
           then Some \<lparr>lp_Devices = picked, lp_Tier = tier, lp_Spanned = False\<rparr>
           else if tier = TierAny \<and> needNumber > 1
           then let spanned = spanGroups n req candidates groups tier needNumber in
                if int (length spanned) = needNumber
                then Some \<lparr>lp_Devices = spanned, lp_Tier = tier, lp_Spanned = True\<rparr> else None
           else None)"

fun plan_walk :: "node_info \<Rightarrow> allocation_request \<Rightarrow> device list \<Rightarrow> int \<Rightarrow> link_tier list \<Rightarrow> link_plan option" where
  "plan_walk n req candidates needNumber [] = None"
| "plan_walk n req candidates needNumber (tier # tiers) =
     (case plan_at_tier n req candidates needNumber tier of
        Some plan \<Rightarrow> Some plan
      | None \<Rightarrow> plan_walk n req candidates needNumber tiers)"

definition allocateTiered ::
  "node_info \<Rightarrow> allocation_request \<Rightarrow> device list \<Rightarrow> int \<Rightarrow> string set option \<Rightarrow> link_plan option" where
  "allocateTiered n req deviceStore needNumber restrictUUIDs =
     (if needNumber \<le> 0 \<or> \<not> ni_gpuTopology n then None
      else
        let candidates = filter (\<lambda>d. case restrictUUIDs of None \<Rightarrow> True | Some w \<Rightarrow> d_uuid d \<in> w) deviceStore in
        if int (length candidates) < needNumber then None
        else plan_walk n req candidates needNumber tierLadder)"

end
