(* ===== verification/Tiered_Plan.thy ===== *)
theory Tiered_Plan
  imports Tiered
begin

text \<open>
  What the tiered allocation guarantees. A selector picks the requested number of cards as a
  subsequence of what it is given; the member pick of a component is one. Plans are
  subsequences of the card store, lie in one component of the candidates unless they are
  marked as spanning, use the tightest tier that can host the request, and exist whenever
  there are enough candidates.
\<close>

section \<open>Selectors\<close>

lemma subseq_distinct_map: "subseq xs ys \<Longrightarrow> distinct (map f ys) \<Longrightarrow> distinct (map f xs)"
  by (induction rule: list_emb.induct) (auto dest: list_emb_set)

lemma subseq_set: "subseq xs ys \<Longrightarrow> set xs \<subseteq> set ys"
  by (auto dest: list_emb_set)

locale selector =
  fixes valid :: "device list \<Rightarrow> bool"
    and sel :: "device list \<Rightarrow> int \<Rightarrow> device list"
  assumes sel_subseq: "valid ds \<Longrightarrow> 0 < k \<Longrightarrow> k \<le> int (length ds) \<Longrightarrow> subseq (sel ds k) ds"
    and sel_length: "valid ds \<Longrightarrow> 0 < k \<Longrightarrow> k \<le> int (length ds) \<Longrightarrow> int (length (sel ds k)) = k"
begin

lemma sel_set: "valid ds \<Longrightarrow> 0 < k \<Longrightarrow> k \<le> int (length ds) \<Longrightarrow> set (sel ds k) \<subseteq> set ds"
  using sel_subseq subseq_set by blast

lemma sel_distinct:
  "valid ds \<Longrightarrow> 0 < k \<Longrightarrow> k \<le> int (length ds) \<Longrightarrow> distinct (map f ds) \<Longrightarrow> distinct (map f (sel ds k))"
  using sel_subseq subseq_distinct_map by blast

end

interpretation prefix_pick: selector "\<lambda>_. True" "\<lambda>ds k. take (nat k) ds"
  by unfold_locales (auto intro: prefix_imp_subseq take_is_prefix)

lemma length_filter_keyed:
  assumes "distinct (map f xs)" "U \<subseteq> f ` set xs"
  shows "length (filter (\<lambda>x. f x \<in> U) xs) = card U"
proof -
  have "length (filter (\<lambda>x. f x \<in> U) xs) = card (f ` set (filter (\<lambda>x. f x \<in> U) xs))"
    using assms(1) by (metis distinct_card distinct_filter distinct_map_filter length_map set_map)
  also have "f ` set (filter (\<lambda>x. f x \<in> U) xs) = U" using assms(2) by auto
  finally show ?thesis .
qed

lemma inStoreOrder_pick:
  assumes "distinct (map d_uuid store)" "set picked \<subseteq> set store" "distinct (map d_uuid picked)"
  shows "subseq (inStoreOrder picked store) store" "length (inStoreOrder picked store) = length picked"
    "set (inStoreOrder picked store) = set picked"
proof -
  show "subseq (inStoreOrder picked store) store" by (simp add: inStoreOrder_def)
  have "length (inStoreOrder picked store) = card (set (map d_uuid picked))"
    unfolding inStoreOrder_def using assms(1,2) by (intro length_filter_keyed) auto
  then show "length (inStoreOrder picked store) = length picked" using assms(3) by (metis distinct_card length_map)
  have "inj_on d_uuid (set store)" using assms(1) by (simp add: distinct_map)
  then show "set (inStoreOrder picked store) = set picked"
    using assms(2) by (auto simp: inStoreOrder_def inj_on_def)
qed

section \<open>Cards and link devices\<close>

definition linkable :: "node_info \<Rightarrow> device list \<Rightarrow> bool" where
  "linkable n ds \<longleftrightarrow> distinct (map d_uuid ds) \<and>
     (\<forall>d \<in> set ds. map_of (link_by_uuid (ni_deviceList n)) (d_uuid d) \<noteq> None)"

lemma link_by_uuid_uuid: "map_of (link_by_uuid ds) u = Some l \<Longrightarrow> ld_UUID l = u"
proof (induction ds rule: rev_induct)
  case (snoc d ds)
  then show ?case by (auto simp: link_by_uuid_def map_of_update split: option.splits if_splits)
qed (simp add: link_by_uuid_def)

lemma toLink_uuids: "linkable n ds \<Longrightarrow> map ld_UUID (toLinkDevices n ds) = map d_uuid ds"
proof (induction ds)
  case (Cons d ds)
  then obtain l where l: "map_of (link_by_uuid (ni_deviceList n)) (d_uuid d) = Some l" by (auto simp: linkable_def)
  then have "ld_UUID l = d_uuid d" by (rule link_by_uuid_uuid)
  then show ?case using Cons l by (simp add: toLinkDevices_def linkable_def map_filter_simps)
qed (simp add: toLinkDevices_def map_filter_simps)

lemma linkable_subseq: "linkable n ds \<Longrightarrow> subseq xs ds \<Longrightarrow> linkable n xs"
  using subseq_distinct_map [of xs ds d_uuid] subseq_set [of xs ds] by (auto simp: linkable_def)

lemma linkable_append: "linkable n (xs @ ys) \<Longrightarrow> linkable n xs \<and> linkable n ys"
  by (auto simp: linkable_def)

lemma fromLink_positions:
  assumes "linkable n run" "distinct is" "set is \<subseteq> {0..<length run}"
  defines "picked \<equiv> map ((!) (toLinkDevices n run)) is"
  shows "length (fromLinkDevices picked run) = length is" "subseq (fromLinkDevices picked run) run"
proof -
  have u: "map ld_UUID (toLinkDevices n run) = map d_uuid run" by (rule toLink_uuids [OF assms(1)])
  then have len: "length (toLinkDevices n run) = length run" by (metis length_map)
  have nth: "ld_UUID (toLinkDevices n run ! i) = d_uuid (run ! i)" if "i < length run" for i
    using u that len by (metis nth_map)
  then have pk: "map ld_UUID picked = map (\<lambda>i. d_uuid (run ! i)) is"
    using assms(3) by (auto simp: picked_def subset_iff)
  have d: "distinct (map d_uuid run)" using assms(1) by (simp add: linkable_def)
  have "inj_on (\<lambda>i. d_uuid (run ! i)) (set is)"
  proof (rule inj_onI)
    fix i j assume ij: "i \<in> set is" "j \<in> set is" "d_uuid (run ! i) = d_uuid (run ! j)"
    then have "i < length run" "j < length run" using assms(3) by auto
    then show "i = j" using ij(3) nth_eq_iff_index_eq [OF d, of i j] by simp
  qed
  then have "card (set (map ld_UUID picked)) = length is" unfolding pk using assms(2) by (simp add: card_image distinct_card)
  moreover have "set (map ld_UUID picked) \<subseteq> d_uuid ` set run" unfolding pk using assms(3) by auto
  ultimately show "length (fromLinkDevices picked run) = length is"
    unfolding fromLinkDevices_def using length_filter_keyed [OF d, of "set (map ld_UUID picked)"] by simp
  show "subseq (fromLinkDevices picked run) run" by (simp add: fromLinkDevices_def)
qed

section \<open>The member pick is a selector\<close>

lemma pickWithinRun_pick:
  assumes "linkable n run" "0 < need" "need \<le> int (length run)"
  shows "subseq (pickWithinRun n run tier need already) run \<and> int (length (pickWithinRun n run tier need already)) = need"
proof (cases "need = int (length run) \<or> LinkTierIsUniform n tier")
  case True
  then show ?thesis using assms by (auto simp: pickWithinRun_def intro: prefix_imp_subseq take_is_prefix)
next
  case False
  let ?l = "toLinkDevices n run" and ?f = "toLinkDevices n already"
  have len: "length ?l = length run" using toLink_uuids [OF assms(1)] by (metis length_map)
  obtain "is" where g: "greedyPick ?l ?f need = map ((!) ?l) is" "length is = nat need" "distinct is" "set is \<subseteq> {0..<length run}"
    using greedyPick_positions [of need ?l ?f] assms len by metis
  obtain js where s: "snd (searchBestSubsetWithFixed ?l ?f need) = map ((!) ?l) js"
    and b: "best_of ?l ?f need (combinations (length ?l) need) js"
    using search_result [of need ?l ?f] assms len by (metis snd_conv)
  have js: "length js = nat need" "distinct js" "set js \<subseteq> {0..<length run}"
    using b assms len combs_iff [of js 0 "length run" "nat need"]
    by (auto simp: best_of_def combinations_combs increasing_def strict_sorted_iff)
  show ?thesis
    using False assms fromLink_positions [OF assms(1) g(3,4)] fromLink_positions [OF assms(1) js(2,3)] g(1,2) s js(1)
    by (auto simp: pickWithinRun_def Let_def)
qed

lemma concat_split_runs: "concat (split_runs score cur run ds) = run @ ds"
  by (induction ds arbitrary: cur run) auto

lemma concat_policyRuns: "concat (policyRuns req ds) = ds"
  by (simp add: policyRuns_def concat_split_runs Let_def split: list.split)

lemma pick_runs_pick:
  assumes "linkable n (picked @ concat runs)" "int (length picked) \<le> need" "need \<le> int (length (picked @ concat runs))"
  shows "\<exists>ys. pick_runs n tier need picked runs = picked @ ys \<and> subseq ys (concat runs) \<and> int (length (picked @ ys)) = need"
  using assms
proof (induction runs arbitrary: picked)
  case Nil
  then show ?case by simp
next
  case (Cons run runs)
  let ?r = "need - int (length picked)"
  consider "?r = 0" | "?r > 0" "int (length run) \<le> ?r" | "?r > 0" "\<not> int (length run) \<le> ?r" using Cons.prems(2) by linarith
  then show ?case
  proof cases
    case 1
    then show ?thesis by (intro exI [of _ "[]"]) simp
  next
    case 2
    have "\<exists>ys. pick_runs n tier need (picked @ run) runs = (picked @ run) @ ys \<and> subseq ys (concat runs) \<and>
        int (length ((picked @ run) @ ys)) = need"
      using Cons.prems 2 by (intro Cons.IH) auto
    then obtain ys where "pick_runs n tier need (picked @ run) runs = picked @ run @ ys" "subseq ys (concat runs)"
      "int (length (picked @ run @ ys)) = need" by auto
    then show ?thesis using 2 by (intro exI [of _ "run @ ys"]) (simp add: Let_def list_emb_append_mono)
  next
    case 3
    let ?p = "pickWithinRun n run tier ?r picked"
    have "linkable n run"
      using linkable_append [of n picked "run @ concat runs"] linkable_append [of n run "concat runs"] Cons.prems(1) by simp
    then have p: "subseq ?p run" "int (length ?p) = ?r" using pickWithinRun_pick [of n run ?r tier picked] 3 by auto
    have "subseq (?p @ []) (run @ concat runs)" by (rule list_emb_append_mono [OF p(1) list_emb_Nil])
    then show ?thesis using 3 p(2) by (intro exI [of _ ?p]) (simp add: Let_def)
  qed
qed

interpretation members: selector "linkable n" "\<lambda>ds k. pickMembers n req ds tier k" for n req tier
proof -
  have main: "subseq (pickMembers n req ds tier k) ds \<and> int (length (pickMembers n req ds tier k)) = k"
    if ds: "linkable n ds" and k: "0 < k" "k \<le> int (length ds)" for ds k
  proof -
    obtain ys where y: "pick_runs n tier k [] (policyRuns req ds) = ys" "subseq ys ds" "int (length ys) = k"
      using pick_runs_pick [of n "[]" "policyRuns req ds" k tier] ds k by (auto simp: concat_policyRuns)
    have d: "distinct (map d_uuid ds)" using ds by (simp add: linkable_def)
    then have "distinct (map d_uuid ys)" "set ys \<subseteq> set ds"
      using subseq_distinct_map [OF y(2)] subseq_set [OF y(2)] by auto
    then show ?thesis using inStoreOrder_pick [OF d, of ys] y k by (simp add: pickMembers_def Let_def)
  qed
  show "selector (linkable n) (\<lambda>ds k. pickMembers n req ds tier k)"
    by unfold_locales (use main in blast)+
qed

section \<open>The groups are the components of the candidates\<close>

text \<open>The direct links among the candidates at a tier, by position.\<close>

definition cand_pairs :: "node_info \<Rightarrow> link_tier \<Rightarrow> device list \<Rightarrow> (nat \<times> nat) set" where
  "cand_pairs n tier cs =
     {(i, j). i < j \<and> j < length cs \<and> ConnectedAtTier n (d_uuid (cs ! i)) (d_uuid (cs ! j)) tier}"

definition comp_of :: "node_info \<Rightarrow> link_tier \<Rightarrow> device list \<Rightarrow> nat \<Rightarrow> nat" where
  "comp_of n tier cs i = rep_of (join_candidates n tier cs) i"

lemma set_index_pairs: "set (index_pairs m) = {(i, j). i < j \<and> j < m}"
  by (auto simp: index_pairs_def image_iff)

lemma foldl_filter_pairs:
  "foldl (\<lambda>p (i, j). if \<not> Q i j then p else f i j p) s es = fold (\<lambda>(i, j). f i j) (filter (\<lambda>(i, j). Q i j) es) s"
  by (induction es arbitrary: s) auto

lemma join_candidates_represents:
  assumes "cs \<noteq> []"
  shows "plain.represents (length cs) (join_candidates n tier cs) (cand_pairs n tier cs)"
proof -
  let ?es = "filter (\<lambda>(i, j). ConnectedAtTier n (d_uuid (cs ! i)) (d_uuid (cs ! j)) tier) (index_pairs (length cs))"
  have "join_candidates n tier cs = fold (\<lambda>(a, b). plain_union a b) ?es [0..<length cs]"
    unfolding join_candidates_def by (rule foldl_filter_pairs)
  moreover have "plain.represents (length cs) (fold (\<lambda>(a, b). plain_union a b) ?es [0..<length cs]) (set ?es \<union> {})"
    using assms by (intro plain.represents_merges plain.represents_init) (auto simp: set_index_pairs)
  moreover have "set ?es \<union> {} = cand_pairs n tier cs" by (auto simp: cand_pairs_def set_index_pairs)
  ultimately show ?thesis by simp
qed

lemma comp_of_conn:
  "i < length cs \<Longrightarrow> j < length cs \<Longrightarrow> comp_of n tier cs i = comp_of n tier cs j \<longleftrightarrow> (i, j) \<in> conn (cand_pairs n tier cs)"
  unfolding comp_of_def using plain.represents_rep [OF join_candidates_represents] by (cases "cs = []") auto

lemma bucket_fold:
  "case foldl bucket_root ([], []) rds of (byRoot, rs) \<Rightarrow>
     (\<forall>r. map_of byRoot r = (let ds = map snd (filter (\<lambda>rd. fst rd = r) rds) in if ds = [] then None else Some ds)) \<and>
     distinct rs \<and> set rs = fst ` set rds"
proof (induction rds rule: rev_induct)
  case (snoc rd rds)
  obtain byRoot rs where f: "foldl bucket_root ([], []) rds = (byRoot, rs)" by fastforce
  obtain r d where rd: "rd = (r, d)" by fastforce
  have IH: "map_of byRoot r' = (let ds = map snd (filter (\<lambda>rd. fst rd = r') rds) in if ds = [] then None else Some ds)"
    "distinct rs" "set rs = fst ` set rds" for r' using snoc.IH f by auto
  have "map_of byRoot r = None \<longleftrightarrow> r \<notin> set rs" unfolding IH(1,3) by (force simp: Let_def filter_empty_conv)
  then have step: "foldl bucket_root ([], []) (rds @ [rd]) =
      (AList.update r (map snd (filter (\<lambda>rd. fst rd = r) rds) @ [d]) byRoot, if r \<notin> set rs then rs @ [r] else rs)"
    using f IH(1) [of r] by (simp add: rd bucket_root_def Let_def)
  show ?case unfolding step prod.case map_of_update IH(1)
    using IH(2,3) by (auto simp: rd Let_def)
qed simp

lemma groups_eq:
  assumes "cs \<noteq> []"
  shows "groupByComponent n tier cs =
    map (\<lambda>r. \<lparr>cg_root = r, cg_devices = map ((!) cs) (filter (\<lambda>i. comp_of n tier cs i = r) [0..<length cs])\<rparr>)
      (go_sort (<) (remdups (map (comp_of n tier cs) [0..<length cs])))"
proof -
  let ?m = "length cs"
  let ?p = "join_candidates n tier cs"
  have ok: "uf_ok ?m ?p" using join_candidates_represents [OF assms, of n tier] by (simp add: plain.represents_def)
  have "snd (find_all ?p [0..<?m]) = map (comp_of n tier cs) [0..<?m]"
    using find_all_correct [OF ok, of "[0..<?m]"] by (auto simp: comp_of_def [abs_def])
  moreover have "zip (map f [0..<?m]) cs = map (\<lambda>i. (f i, cs ! i)) [0..<?m]" for f :: "nat \<Rightarrow> nat"
    by (rule nth_equalityI) simp_all
  ultimately have z: "zip (snd (find_all ?p [0..<?m])) cs = map (\<lambda>i. (comp_of n tier cs i, cs ! i)) [0..<?m]" by simp
  obtain byRoot rs where f: "foldl bucket_root ([], []) (map (\<lambda>i. (comp_of n tier cs i, cs ! i)) [0..<?m]) = (byRoot, rs)"
    by fastforce
  have b: "map_of byRoot r = (let ds = map ((!) cs) (filter (\<lambda>i. comp_of n tier cs i = r) [0..<?m]) in if ds = [] then None else Some ds)"
    "distinct rs" "set rs = set (map (comp_of n tier cs) [0..<?m])" for r
    using bucket_fold [of "map (\<lambda>i. (comp_of n tier cs i, cs ! i)) [0..<?m]"]
    by (auto simp: f filter_map comp_def image_image)
  have "go_sort (<) rs = go_sort (<) (remdups (map (comp_of n tier cs) [0..<?m]))"
  proof (rule go_sort_order_independent)
    show "comparator ((<) :: nat \<Rightarrow> nat \<Rightarrow> bool)" using comparator_key [of "\<lambda>x. x"] by simp
    show "mset rs = mset (remdups (map (comp_of n tier cs) [0..<?m]))"
      using b(2,3) by (metis distinct_remdups set_eq_iff_mset_eq_distinct set_remdups)
  qed auto
  then show ?thesis using assms b(1)
    by (simp add: groupByComponent_def z f Let_def option.case_eq_if)
qed

text \<open>Every group: a non-empty subsequence of the candidates, exactly one component of them.\<close>

lemma subseq_nths: "subseq (map ((!) cs) (filter P [0..<length cs])) cs"
  using subseq_map [OF subseq_filter_left, of "(!) cs" P "[0..<length cs]"] by (simp add: map_nth)

lemma groups_set:
  "cs \<noteq> [] \<Longrightarrow> g \<in> set (groupByComponent n tier cs) \<Longrightarrow>
   \<exists>k < length cs. g = \<lparr>cg_root = comp_of n tier cs k,
     cg_devices = map ((!) cs) (filter (\<lambda>i. comp_of n tier cs i = comp_of n tier cs k) [0..<length cs])\<rparr>"
  by (auto simp: groups_eq)

definition one_component :: "node_info \<Rightarrow> link_tier \<Rightarrow> device list \<Rightarrow> device list \<Rightarrow> bool" where
  "one_component n tier cs ds \<longleftrightarrow>
     (\<forall>i < length cs. \<forall>j < length cs. cs ! i \<in> set ds \<and> cs ! j \<in> set ds \<longrightarrow> (i, j) \<in> conn (cand_pairs n tier cs))"

lemma group_component:
  assumes "distinct (map d_uuid cs)" "g \<in> set (groupByComponent n tier cs)"
  shows "subseq (cg_devices g) cs" "cg_devices g \<noteq> []" "one_component n tier cs (cg_devices g)"
proof -
  have ne: "cs \<noteq> []" using assms(2) by (auto simp: groupByComponent_def)
  obtain k where k: "k < length cs" "cg_devices g = map ((!) cs) (filter (\<lambda>i. comp_of n tier cs i = comp_of n tier cs k) [0..<length cs])"
    using groups_set [OF ne assms(2)] by auto
  show "subseq (cg_devices g) cs" unfolding k by (rule subseq_nths)
  show "cg_devices g \<noteq> []" unfolding k(2) using k(1) by (auto simp: filter_empty_conv)
  have d: "distinct cs" using assms(1) by (simp add: distinct_map)
  have "comp_of n tier cs i = comp_of n tier cs k" if "i < length cs" "cs ! i \<in> set (cg_devices g)" for i
    using that nth_eq_iff_index_eq [OF d] unfolding k(2) by auto
  then show "one_component n tier cs (cg_devices g)"
    by (auto simp: one_component_def comp_of_conn [symmetric])
qed

lemma mset_filter_split:
  "distinct rs \<Longrightarrow> mset (concat (map (\<lambda>r. filter (\<lambda>i. f i = r) is) rs)) = mset (filter (\<lambda>i. f i \<in> set rs) is)"
proof (induction rs)
  case (Cons r rs)
  have "r \<notin> set rs" using Cons.prems by simp
  then have "mset (filter (\<lambda>i. f i = r) is) + mset (filter (\<lambda>i. f i \<in> set rs) is) = mset (filter (\<lambda>i. f i \<in> set (r # rs)) is)"
    by (induction "is") auto
  then show ?case using Cons by simp
qed simp

lemma groups_partition: "mset (concat (map cg_devices (groupByComponent n tier cs))) = mset cs"
proof (cases "cs = []")
  case False
  let ?rs = "go_sort (<) (remdups (map (comp_of n tier cs) [0..<length cs]))"
  have "concat (map cg_devices (groupByComponent n tier cs)) =
      map ((!) cs) (concat (map (\<lambda>r. filter (\<lambda>i. comp_of n tier cs i = r) [0..<length cs]) ?rs))"
    by (simp add: groups_eq [OF False] map_concat comp_def)
  then have "mset (concat (map cg_devices (groupByComponent n tier cs))) =
      image_mset ((!) cs) (mset (filter (\<lambda>i. comp_of n tier cs i \<in> set ?rs) [0..<length cs]))"
    using mset_filter_split [of ?rs "comp_of n tier cs" "[0..<length cs]"] by simp
  moreover have "filter (\<lambda>i. comp_of n tier cs i \<in> set ?rs) [0..<length cs] = [0..<length cs]" by (simp add: filter_id_conv)
  ultimately show ?thesis by (metis map_nth mset_map)
qed (simp add: groupByComponent_def)

section \<open>Plans\<close>

lemma span_loop_pick:
  assumes "linkable n (picked @ concat (map cg_devices gs))" "\<forall>g \<in> set gs. cg_devices g \<noteq> []"
    and "int (length picked) \<le> need" "need \<le> int (length (picked @ concat (map cg_devices gs)))"
  shows "\<exists>ys. span_loop n req tier need picked gs = picked @ ys \<and> subseq ys (concat (map cg_devices gs)) \<and>
     int (length (picked @ ys)) = need"
  using assms
proof (induction gs arbitrary: picked)
  case (Cons g gs)
  let ?r = "need - int (length picked)" and ?ds = "cg_devices g"
  let ?c = "if int (length ?ds) < ?r then int (length ?ds) else ?r"
  let ?p = "pickMembers n req ?ds tier ?c"
  show ?case
  proof (cases "?r \<le> 0")
    case True
    then show ?thesis using Cons.prems by (intro exI [of _ "[]"]) simp
  next
    case False
    have "?ds \<noteq> []" using Cons.prems(2) by simp
    then have c: "0 < ?c" "?c \<le> int (length ?ds)" using False by auto
    have lk: "linkable n ?ds"
      using linkable_append [of n picked "?ds @ concat (map cg_devices gs)"] linkable_append [of n ?ds] Cons.prems(1) by auto
    note p = members.sel_subseq [OF lk c, of req tier] members.sel_length [OF lk c, of req tier]
    have sub: "subseq (picked @ ?p @ concat (map cg_devices gs)) (picked @ ?ds @ concat (map cg_devices gs))"
      using p(1) by (intro list_emb_append_mono) auto
    have "\<exists>ys. span_loop n req tier need (picked @ ?p) gs = (picked @ ?p) @ ys \<and> subseq ys (concat (map cg_devices gs)) \<and>
        int (length ((picked @ ?p) @ ys)) = need"
      using Cons.prems p(2) False linkable_subseq [OF _ sub] by (intro Cons.IH) (auto split: if_splits)
    then obtain ys where y: "span_loop n req tier need (picked @ ?p) gs = picked @ ?p @ ys" "subseq ys (concat (map cg_devices gs))"
      "int (length (picked @ ?p @ ys)) = need" by auto
    have "subseq (?p @ ys) (?ds @ concat (map cg_devices gs))" using p(1) y(2) by (rule list_emb_append_mono)
    then show ?thesis using y False by (intro exI [of _ "?p @ ys"]) (auto simp: Let_def)
  qed
qed simp

lemma spanGroups_pick:
  fixes req :: allocation_request and tier :: link_tier
  assumes "linkable n cs" "0 < need" "need \<le> int (length cs)"
  defines "ds \<equiv> spanGroups n req cs (groupByComponent n tier cs) tier need"
  shows "subseq ds cs" "int (length ds) = need"
proof -
  let ?gs = "go_sort (span_less req) (groupByComponent n tier cs)"
  let ?all = "concat (map cg_devices ?gs)"
  have "mset ?all = mset (concat (map cg_devices (groupByComponent n tier cs)))"
    unfolding mset_concat sum_mset_sum_list [symmetric] mset_map mset_go_sort ..
  then have ms: "mset ?all = mset cs" by (simp add: groups_partition)
  then have len: "length ?all = length cs" and st: "set ?all = set cs" by (metis size_mset, metis set_mset_mset)
  have "mset (map d_uuid ?all) = mset (map d_uuid cs)" using ms by (simp add: mset_map)
  then have "distinct (map d_uuid ?all)" using assms(1) unfolding linkable_def by (metis mset_eq_imp_distinct_iff)
  then have lk: "linkable n ?all" using assms(1) st by (auto simp: linkable_def)
  have d: "distinct (map d_uuid cs)" using assms(1) by (simp add: linkable_def)
  have ne: "\<forall>g \<in> set ?gs. cg_devices g \<noteq> []" using group_component(2) [OF d] by simp
  obtain ys where y: "span_loop n req tier need [] ?gs = ys" "subseq ys ?all" "int (length ys) = need"
    using span_loop_pick [of n "[]" ?gs need req tier] lk ne assms(2,3) len by auto
  have "set ys \<subseteq> set cs" "distinct (map d_uuid ys)"
    using subseq_set [OF y(2)] subseq_distinct_map [OF y(2) \<open>distinct (map d_uuid ?all)\<close>] st by auto
  then show "subseq ds cs" "int (length ds) = need"
    using inStoreOrder_pick [OF d, of ys] y by (auto simp: ds_def spanGroups_def Let_def)
qed

lemma pickGroup_in: "groups \<noteq> [] \<Longrightarrow> pickGroup n req groups tier need \<in> set groups"
proof -
  assume ne: "groups \<noteq> []"
  let ?xs = "map (\<lambda>g. (g, group_score req (cg_devices g), bestLinkScore n (cg_devices g) tier need)) groups"
  have "set (go_sort pick_group_less ?xs) = set ?xs" by (rule set_go_sort)
  moreover have "length (go_sort pick_group_less ?xs) = length groups" by simp
  then have "go_sort pick_group_less ?xs \<noteq> []" using ne by (metis list.size(3) length_0_conv)
  ultimately have "hd (go_sort pick_group_less ?xs) \<in> set ?xs" using hd_in_set [of "go_sort pick_group_less ?xs"] by simp
  then have "fst (hd (go_sort pick_group_less ?xs)) \<in> fst ` set ?xs" by (rule imageI)
  also have "fst ` set ?xs = set groups" by (simp add: image_image)
  finally show ?thesis using ne by (simp add: pickGroup_def)
qed

lemma fitting_subset: "set (groupsFittingAtTier n groups tier need) \<subseteq> set (groupsWithAtLeast groups need)"
  by (auto simp: groupsFittingAtTier_def Let_def)

text \<open>A component that is picked always yields the requested number of members.\<close>

lemma fitting_pick:
  fixes req :: allocation_request
  assumes "linkable n cs" "0 < need" "groupsFittingAtTier n (groupByComponent n tier cs) tier need \<noteq> []"
  defines "ds \<equiv> pickMembers n req (cg_devices (pickGroup n req (groupsFittingAtTier n (groupByComponent n tier cs) tier need) tier need)) tier need"
  shows "subseq ds cs" "int (length ds) = need" "one_component n tier cs ds"
proof -
  let ?f = "groupsFittingAtTier n (groupByComponent n tier cs) tier need"
  let ?g = "pickGroup n req ?f tier need"
  have d: "distinct (map d_uuid cs)" using assms(1) by (simp add: linkable_def)
  have "?g \<in> set (groupsWithAtLeast (groupByComponent n tier cs) need)"
    using pickGroup_in [OF assms(3)] fitting_subset by blast
  then have g: "?g \<in> set (groupByComponent n tier cs)" "need \<le> int (length (cg_devices ?g))"
    by (auto simp: groupsWithAtLeast_def)
  note c = group_component [OF d g(1)]
  have lk: "linkable n (cg_devices ?g)" by (rule linkable_subseq [OF assms(1) c(1)])
  note m = members.sel_subseq [OF lk assms(2) g(2), of req tier] members.sel_length [OF lk assms(2) g(2), of req tier]
  show "subseq ds cs" unfolding ds_def using m(1) c(1) by (rule subseq_order.order_trans)
  show "int (length ds) = need" unfolding ds_def by (rule m(2))
  have "set ds \<subseteq> set (cg_devices ?g)" unfolding ds_def by (rule subseq_set [OF m(1)])
  then show "one_component n tier cs ds" using c(3) unfolding one_component_def by blast
qed

lemma plan_at_tier_cases:
  assumes "linkable n cs" "0 < need" "need \<le> int (length cs)"
  shows "plan_at_tier n req cs need tier =
    (if groupsFittingAtTier n (groupByComponent n tier cs) tier need \<noteq> []
     then Some \<lparr>lp_Devices = pickMembers n req (cg_devices (pickGroup n req (groupsFittingAtTier n (groupByComponent n tier cs) tier need) tier need)) tier need,
            lp_Tier = tier, lp_Spanned = False\<rparr>
     else if tier = TierAny \<and> need > 1
     then Some \<lparr>lp_Devices = spanGroups n req cs (groupByComponent n tier cs) tier need, lp_Tier = tier, lp_Spanned = True\<rparr>
     else None)"
proof -
  have "cs \<noteq> []" using assms by auto
  then have "groupByComponent n tier cs \<noteq> []"
    using groups_partition [of n tier cs] by (metis concat.simps(1) list.map_disc_iff mset.simps(1) mset_zero_iff)
  then show ?thesis
    using fitting_pick(2) [OF assms(1,2)] spanGroups_pick(2) [OF assms] by (auto simp: plan_at_tier_def Let_def)
qed

lemma plan_at_tier_sound:
  assumes "linkable n cs" "0 < need" "need \<le> int (length cs)" "plan_at_tier n req cs need t = Some plan"
  shows "subseq (lp_Devices plan) cs \<and> int (length (lp_Devices plan)) = need \<and>
    (if lp_Spanned plan then t = TierAny \<and> 1 < need else one_component n t cs (lp_Devices plan))"
  using assms(4) fitting_pick [OF assms(1,2), of t req] spanGroups_pick [OF assms(1-3), of req t]
  unfolding plan_at_tier_cases [OF assms(1-3)] by (auto split: if_splits)

lemma plan_at_tier_spanned:
  assumes "linkable n cs" "0 < need" "need \<le> int (length cs)" "plan_at_tier n req cs need t = Some plan" "lp_Spanned plan"
  shows "t = TierAny" "groupsFittingAtTier n (groupByComponent n t cs) t need = []"
  using assms(4,5) unfolding plan_at_tier_cases [OF assms(1-3)] by (auto split: if_splits)

text \<open>A connected set of the requested size makes its tier fit, for a request of several cards.\<close>

lemma connected_fits:
  assumes "distinct (map d_uuid cs)" "1 < need" "subseq ds cs" "int (length ds) = need" "one_component n tier cs ds"
  shows "groupsFittingAtTier n (groupByComponent n tier cs) tier need \<noteq> []"
proof -
  have dcs: "distinct cs" using assms(1) by (simp add: distinct_map)
  have ds: "ds \<noteq> []" "set ds \<subseteq> set cs" "distinct ds" using assms(2,4) subseq_set [OF assms(3)]
      subseq_distinct_map [OF assms(3), of "\<lambda>x. x"] dcs by auto
  then obtain k where k: "k < length cs" "cs ! k \<in> set ds" by (metis hd_in_set in_set_conv_nth subsetD)
  let ?g = "\<lparr>cg_root = comp_of n tier cs k,
     cg_devices = map ((!) cs) (filter (\<lambda>i. comp_of n tier cs i = comp_of n tier cs k) [0..<length cs])\<rparr>"
  have "cs \<noteq> []" using k by auto
  then have "?g \<in> set (groupByComponent n tier cs)" using k(1) by (auto simp: groups_eq)
  moreover have "set ds \<subseteq> set (cg_devices ?g)"
  proof
    fix x assume "x \<in> set ds"
    then obtain i where "i < length cs" "cs ! i = x" "x \<in> set ds" using ds(2) by (metis in_set_conv_nth subsetD)
    moreover from this have "comp_of n tier cs i = comp_of n tier cs k"
      using assms(5) k by (simp add: one_component_def comp_of_conn)
    ultimately show "x \<in> set (cg_devices ?g)" by auto
  qed
  then have "card (set ds) \<le> length (cg_devices ?g)" by (meson List.finite_set card_length card_mono order_trans)
  then have "need \<le> int (length (cg_devices ?g))" using assms(4) ds(3) by (simp add: distinct_card)
  ultimately have "\<exists>g \<in> set (groupByComponent n tier cs). need \<le> int (length (cg_devices g))" by blast
  then show ?thesis using assms(2) by (auto simp: groupsFittingAtTier_def groupsWithAtLeast_def filter_empty_conv Let_def)
qed

definition candidates_of :: "string set option \<Rightarrow> device list \<Rightarrow> device list" where
  "candidates_of w store = filter (\<lambda>d. case w of None \<Rightarrow> True | Some u \<Rightarrow> d_uuid d \<in> u) store"

lemma plan_walk_ladder:
  "plan_walk n req cs need tierLadder =
     (case plan_at_tier n req cs need TierNVLink of Some p \<Rightarrow> Some p | None \<Rightarrow>
        case plan_at_tier n req cs need TierSwitch of Some p \<Rightarrow> Some p | None \<Rightarrow>
          case plan_at_tier n req cs need TierNUMA of Some p \<Rightarrow> Some p | None \<Rightarrow> plan_at_tier n req cs need TierAny)"
  by (simp add: tierLadder_def split: option.split)

lemma plan_walk_first:
  assumes "plan_walk n req cs need tierLadder = Some plan"
    and tier: "\<And>t p. plan_at_tier n req cs need t = Some p \<Longrightarrow> lp_Tier p = t"
  shows "plan_at_tier n req cs need (lp_Tier plan) = Some plan" "t < lp_Tier plan \<Longrightarrow> plan_at_tier n req cs need t = None"
proof -
  have lt: "\<And>t. \<not> t < TierNVLink" "\<And>t. t < TierSwitch \<Longrightarrow> t = TierNVLink"
    "\<And>t. t < TierNUMA \<Longrightarrow> t = TierNVLink \<or> t = TierSwitch" "\<And>t. t < TierAny \<Longrightarrow> t = TierNVLink \<or> t = TierSwitch \<or> t = TierNUMA"
    by (case_tac t; simp add: less_link_tier_def)+
  show "plan_at_tier n req cs need (lp_Tier plan) = Some plan"
    using assms(1) tier by (auto simp: plan_walk_ladder split: option.splits)
  show "plan_at_tier n req cs need t = None" if "t < lp_Tier plan"
    using assms(1) that tier lt(1) [of t] lt(2) [of t] lt(3) [of t] lt(4) [of t]
    by (auto simp: plan_walk_ladder split: option.splits)
qed

lemma plan_tier: "plan_at_tier n req cs need t = Some p \<Longrightarrow> lp_Tier p = t"
  by (auto simp: plan_at_tier_def Let_def split: if_splits)

lemma tiered_plan_sound:
  assumes "linkable n store" "allocateTiered n req store need w = Some plan"
  shows "subseq (lp_Devices plan) (candidates_of w store)" "int (length (lp_Devices plan)) = need" "0 < need"
    "if lp_Spanned plan then lp_Tier plan = TierAny \<and> 1 < need
     else one_component n (lp_Tier plan) (candidates_of w store) (lp_Devices plan)"
proof -
  let ?cs = "candidates_of w store"
  have sub: "subseq ?cs store" by (simp add: candidates_of_def)
  have lk: "linkable n ?cs" by (rule linkable_subseq [OF assms(1) sub])
  show need: "0 < need" using assms(2) by (auto simp: allocateTiered_def split: if_splits)
  have le: "need \<le> int (length ?cs)" and walk: "plan_walk n req ?cs need tierLadder = Some plan"
    using assms(2) by (auto simp: allocateTiered_def candidates_of_def Let_def split: if_splits)
  have p: "plan_at_tier n req ?cs need (lp_Tier plan) = Some plan" by (rule plan_walk_first(1) [OF walk plan_tier])
  note sound = plan_at_tier_sound [OF lk need le p]
  show "subseq (lp_Devices plan) ?cs" "int (length (lp_Devices plan)) = need"
    "if lp_Spanned plan then lp_Tier plan = TierAny \<and> 1 < need
     else one_component n (lp_Tier plan) ?cs (lp_Devices plan)" using sound by blast+
qed

text \<open>
  C29. A link plan keeps its promises. Its cards are a subsequence of the card store (the policy
  order survives), exactly as many as asked for, all inside the alignment window; unless the
  plan is marked as spanning they lie in one component that the candidates form among
  themselves at the plan's tier, and only a plan of several cards at the loosest tier is ever
  marked as spanning.
\<close>

theorem allocateTiered_sound:
  assumes "linkable n store" "allocateTiered n req store need w = Some plan"
  shows "subseq (lp_Devices plan) store \<and> int (length (lp_Devices plan)) = need \<and>
    set (lp_Devices plan) \<subseteq> set (candidates_of w store) \<and>
    (if lp_Spanned plan then lp_Tier plan = TierAny \<and> 1 < need
     else one_component n (lp_Tier plan) (candidates_of w store) (lp_Devices plan))"
proof -
  have "subseq (candidates_of w store) store" by (simp add: candidates_of_def)
  then show ?thesis
    using tiered_plan_sound [OF assms] subseq_order.order_trans subseq_set by blast
qed

lemma tiered_plan_exists:
  assumes "linkable n store" "ni_gpuTopology n" "1 < need" "need \<le> int (length (candidates_of w store))"
  shows "\<exists>plan. allocateTiered n req store need w = Some plan \<and>
    (\<forall>t ds. (t < lp_Tier plan \<or> lp_Spanned plan) \<and> subseq ds (candidates_of w store) \<and> int (length ds) = need \<longrightarrow>
       \<not> one_component n t (candidates_of w store) ds)"
proof -
  let ?cs = "candidates_of w store"
  have lk: "linkable n ?cs" by (rule linkable_subseq [OF assms(1)]) (simp add: candidates_of_def)
  then have d: "distinct (map d_uuid ?cs)" by (simp add: linkable_def)
  have need: "0 < need" using assms(3) by simp
  note cases = plan_at_tier_cases [OF lk need assms(4)]
  have "plan_at_tier n req ?cs need TierAny \<noteq> None" unfolding cases using assms(3) by simp
  then have "plan_walk n req ?cs need tierLadder \<noteq> None" by (auto simp: plan_walk_ladder split: option.split)
  then obtain plan where walk: "plan_walk n req ?cs need tierLadder = Some plan" by blast
  have al: "allocateTiered n req store need w = Some plan"
    using walk assms need by (simp add: allocateTiered_def candidates_of_def Let_def)
  have no: "groupsFittingAtTier n (groupByComponent n t ?cs) t need = []" if "t < lp_Tier plan \<or> lp_Spanned plan" for t
  proof (cases "t < lp_Tier plan")
    case True
    have "plan_at_tier n req ?cs need t = None" by (rule plan_walk_first(2) [OF walk plan_tier True])
    then show ?thesis unfolding cases by (auto split: if_splits)
  next
    case False
    then have sp: "lp_Spanned plan" using that by simp
    have "plan_at_tier n req ?cs need (lp_Tier plan) = Some plan" by (rule plan_walk_first(1) [OF walk plan_tier])
    note s = plan_at_tier_spanned [OF lk need assms(4) this sp]
    have f: "groupsFittingAtTier n (groupByComponent n TierAny ?cs) TierAny need = []" "lp_Tier plan = TierAny"
      using s by simp_all
    have "t = TierAny" using False f(2) by (cases t) (simp_all add: less_link_tier_def)
    then show ?thesis using f(1) by simp
  qed
  show ?thesis using al no connected_fits [OF d assms(3)] by blast
qed

definition demo_topo_node :: node_info where
  "demo_topo_node = demo_node\<lparr>ni_gpuTopology := True, ni_deviceList :=
     [Some \<lparr>ld_Index = 0, ld_UUID = ''GPU-0'', ld_BusID = [], ld_Links = [(1, [7])]\<rparr>,
      Some \<lparr>ld_Index = 1, ld_UUID = ''GPU-1'', ld_BusID = [], ld_Links = [(0, [7])]\<rparr>]\<rparr>"

definition demo_store :: "device list" where
  "demo_store = vals (ni_deviceMap demo_node)"

lemma demo_store_linkable: "linkable demo_topo_node demo_store"
  by (simp add: linkable_def demo_topo_node_def demo_store_def demo_node_simps link_by_uuid_def)

lemma demo_plan: "\<exists>plan. allocateTiered demo_topo_node demo_request demo_store 2 None = Some plan"
proof -
  have "ni_gpuTopology demo_topo_node" "1 < (2 :: int)" "2 \<le> int (length (candidates_of None demo_store))"
    by (simp_all add: demo_topo_node_def candidates_of_def demo_store_def demo_node_simps)
  from tiered_plan_exists [OF demo_store_linkable this] show ?thesis by blast
qed

theorem allocateTiered_sound_witness:
  "case allocateTiered demo_topo_node demo_request demo_store 2 None of
     None \<Rightarrow> False | Some plan \<Rightarrow> int (length (lp_Devices plan)) = 2"
proof -
  obtain plan where "allocateTiered demo_topo_node demo_request demo_store 2 None = Some plan" using demo_plan by blast
  with allocateTiered_sound [OF demo_store_linkable this] show ?thesis by simp
qed



end
