(* ===== verification/Allocator.thy ===== *)
theory Allocator
  imports Tiered_Plan
begin

text \<open>
  The allocator (\<^verbatim>\<open>pkg/device/allocator/allocator.go\<close>): the device gates, the topology modes,
  the pick of one container and the two passes over a pod's containers. The state is the node
  whose usage is charged, the request whose topology outcome is recorded, and the trace of what
  an operator sees (the events, and the counter of strict rejections); log lines have no
  definition. The three-valued return of the Go code (a result, a rejection of the node, an
  internal error) is a datatype.
\<close>

section \<open>State and results\<close>

text \<open>An event is its message format with the arguments that fill it.\<close>

datatype observation =
    DevicePolicyInvalid scheduler_policy
  | TopologyModeInvalid topology_mode
  | TopologyFallback string string string string
  | TopologyDowngraded string string int string string topology_mode
  | StrictReject topology_mode

record alloc_state =
  as_nodeInfo :: node_info
  as_request :: allocation_request
  as_trace :: "observation list"

record alloc_options =
  ao_recorder :: bool
  ao_simulate :: bool

text \<open>
  The internal errors: \<^verbatim>\<open>internal device scheduling error\<close> when a claim cannot be charged, and
  the nil dereference of a container without a claim. Encoding a claim never fails.
\<close>

datatype alloc_error = AccountingError add_error | NilClaim

datatype 'a outcome = Placed 'a | Refused filter_reason | Failed alloc_error

definition and_then :: "'a outcome \<times> 's \<Rightarrow> ('a \<Rightarrow> 's \<Rightarrow> 'b outcome \<times> 's) \<Rightarrow> 'b outcome \<times> 's" where
  "and_then r f =
     (case fst r of Placed x \<Rightarrow> f x (snd r) | Refused rsn \<Rightarrow> (Refused rsn, snd r) | Failed err \<Rightarrow> (Failed err, snd r))"

definition sendEventf :: "alloc_options \<Rightarrow> observation \<Rightarrow> alloc_state \<Rightarrow> alloc_state" where
  "sendEventf opts ev s =
     (if ao_recorder opts \<and> \<not> ao_simulate opts then s\<lparr>as_trace := as_trace s @ [ev]\<rparr> else s)"

text \<open>On an error the claims before the failing one stay charged.\<close>

fun addContainerAllocate :: "device_claim list \<Rightarrow> node_info \<Rightarrow> add_error option \<times> node_info" where
  "addContainerAllocate [] n = (None, n)"
| "addContainerAllocate (claim # claims) n =
     (case AddUsedResources n claim of Inl err \<Rightarrow> (Some err, n) | Inr n' \<Rightarrow> addContainerAllocate claims n')"

section \<open>The device gates\<close>

definition device_gate :: "allocation_request \<Rightarrow> int \<Rightarrow> int \<Rightarrow> device \<Rightarrow> code option" where
  "device_gate req needCores needMemory d =
     (if \<not> d_healthy d then Some DeviceUnhealthy
      else if d_mig d then Some DeviceMIGEnabled
      else if AllocatableNumber d = 0 then Some InsufficientVGPUSlot
      else let reqMemory = (if needMemory = 0 then GetTotalMemory d else needMemory) in
        if reqMemory > AllocatableMemory d then Some InsufficientVGPUMemory
        else if needCores > AllocatableCores d \<or> AllocatableCores d = 0 then Some InsufficientVGPUCore
        else if ar_CheckDeviceType req \<and> \<not> CheckDeviceType (p_Annotations (ar_Pod req)) (d_deviceType d)
        then Some DeviceTypeMismatch
        else if ar_CheckDeviceUuid req \<and> \<not> CheckDeviceUuid (p_Annotations (ar_Pod req)) (d_uuid d)
        then Some DeviceUUIDMismatch
        else None)"

definition filter_device ::
  "allocation_request \<Rightarrow> int \<Rightarrow> int \<Rightarrow> string set option \<Rightarrow> device list \<times> (code, int) gomap \<Rightarrow> device \<Rightarrow>
   device list \<times> (code, int) gomap" where
  "filter_device req needCores needMemory restrictUUIDs acc d =
     (case acc of (devices, counts) \<Rightarrow>
        if (case restrictUUIDs of None \<Rightarrow> False | Some us \<Rightarrow> d_uuid d \<notin> us) then (devices, counts)
        else (case device_gate req needCores needMemory d of
                Some c \<Rightarrow> (devices, vote counts c)
              | None \<Rightarrow> (devices @ [d], counts)))"

definition filterDevices ::
  "node_info \<Rightarrow> allocation_request \<Rightarrow> int \<Rightarrow> int \<Rightarrow> string set option \<Rightarrow> device list \<times> (code, int) gomap" where
  "filterDevices n req needCores needMemory restrictUUIDs =
     foldl (filter_device req needCores needMemory restrictUUIDs) ([], []) (vals (ni_deviceMap n))"

definition buildClaims :: "device list \<Rightarrow> int \<Rightarrow> int \<Rightarrow> device_claim list" where
  "buildClaims picked needCores needMemory =
     map (\<lambda>d. \<lparr>dc_Id = d_id d, dc_Uuid = d_uuid d, dc_Cores = needCores,
               dc_Memory = (if needMemory = 0 then GetTotalMemory d else needMemory)\<rparr>) picked"

section \<open>Topology modes\<close>

definition topologyFloor :: "topology_mode \<Rightarrow> link_tier" where
  "topologyFloor mode = (if mode = PCIeTopology then TierSwitch else TierNVLink)"

definition topologyUnsatisfiedCode :: "topology_mode \<Rightarrow> code" where
  "topologyUnsatisfiedCode mode = (if mode = PCIeTopology then PCIeTopologyUnsatisfied else LinkTopologyUnsatisfied)"

definition topologyAttemptKind :: "topology_mode \<Rightarrow> string" where
  "topologyAttemptKind mode = (if mode = PCIeTopology then ''PCIe topology'' else ''Link topology'')"

definition linkResult :: "link_plan \<Rightarrow> string" where
  "linkResult plan =
     (if lp_Spanned plan then ''spanned''
      else case lp_Tier plan of
        TierNVLink \<Rightarrow> ''nvlink'' | TierSwitch \<Rightarrow> ''switch'' | TierNUMA \<Rightarrow> ''numa'' | TierAny \<Rightarrow> ''any'')"

definition alignmentOf :: "allocation_request \<Rightarrow> int \<Rightarrow> string" where
  "alignmentOf req anchorRoot =
     (if \<not> ar_CrossPodTopology req \<or> BaseTopology (ar_Topology req) \<noteq> LinkTopology then []
      else if ar_GangRailKey req \<noteq> [] then ''rail''
      else if anchorRoot \<ge> 0 then ''component''
      else ''none'')"

definition recordOutcome :: "alloc_options \<Rightarrow> string \<Rightarrow> string \<Rightarrow> alloc_state \<Rightarrow> alloc_state" where
  "recordOutcome opts result alignment s =
     (if ao_simulate opts then s else s\<lparr>as_request := recordTopologyOutcome result alignment (as_request s)\<rparr>)"

definition reportLinkDowngrade ::
  "alloc_options \<Rightarrow> link_plan \<Rightarrow> int \<Rightarrow> topology_mode \<Rightarrow> link_tier \<Rightarrow> alloc_state \<Rightarrow> alloc_state" where
  "reportLinkDowngrade opts plan needNumber mode lowest s =
     (let achieved = LinkTier_String (lp_Tier plan) @ (if lp_Spanned plan then '' (spanning multiple components)'' else [])
      in sendEventf opts (TopologyDowngraded (topologyAttemptKind mode) (n_Name (ni_node (as_nodeInfo s))) needNumber
           achieved (LinkTier_String lowest) mode) s)"

definition handleTopologyFallback ::
  "alloc_options \<Rightarrow> bool \<Rightarrow> code \<Rightarrow> topology_mode \<Rightarrow> string \<Rightarrow> string \<Rightarrow> string \<Rightarrow> alloc_state \<Rightarrow>
   filter_reason option \<times> alloc_state" where
  "handleTopologyFallback opts strict strictCode mode attemptKind fallbackKind detail s =
     (if strict
      then (WithDetail (Some (New_reason strictCode)) detail,
            if ao_simulate opts then s else s\<lparr>as_trace := as_trace s @ [StrictReject mode]\<rparr>)
      else (None, sendEventf opts (TopologyFallback attemptKind (n_Name (ni_node (as_nodeInfo s))) detail fallbackKind) s))"

definition linkFallbackReason :: "node_info \<Rightarrow> int \<Rightarrow> link_tier \<Rightarrow> string" where
  "linkFallbackReason n needNumber lowest =
     (if \<not> ni_gpuTopology n then ''node has no GPU link topology''
      else ''no '' @ LinkTier_String lowest @ ''-connected set of '' @ itoa needNumber @ '' GPUs (largest ''
           @ LinkTier_String lowest @ '' component '' @ itoa (int (largest (ni_tiers n) lowest)) @ '')'')"

definition numaFallbackReason :: "node_info \<Rightarrow> int \<Rightarrow> device list \<Rightarrow> string" where
  "numaFallbackReason n needNumber deviceStore =
     (if \<not> ni_numaTopology n then ''node has no NUMA topology''
      else ''no NUMA node has '' @ itoa needNumber @ '' GPUs (max single-NUMA capacity ''
           @ itoa (MaxDeviceNumberForNumaNode (NewNumaNodeDevice deviceStore)) @ '')'')"

section \<open>NUMA and link placement\<close>

definition allocateNUMA ::
  "node_info \<Rightarrow> device list \<Rightarrow> request_profile \<Rightarrow> scheduler_policy \<Rightarrow> int \<Rightarrow> int \<Rightarrow> int \<Rightarrow> device_claim list option" where
  "allocateNUMA n deviceStore profile policy needNumber needCores needMemory =
     (if \<not> ni_numaTopology n then None
      else case CanNotCrossNumaNode needNumber deviceStore of
        None \<Rightarrow> None
      | Some numaNode \<Rightarrow>
          let claims = SchedulerPolicyCallback numaNode profile policy
                (\<lambda>claims _ devices. if needNumber > int (length devices) then (claims, False)
                   else (buildClaims (take (nat needNumber) devices) needCores needMemory, True)) []
          in if int (length claims) \<noteq> needNumber then None else Some claims)"

text \<open>The windows of the attempts, finest first: a missing window is left out, None is no window.\<close>

definition rail_window :: "node_info \<Rightarrow> allocation_request \<Rightarrow> int \<Rightarrow> string set option" where
  "rail_window n req needNumber =
     (let w = set (UUIDsMatchingRailSignature n (ar_GangRailKey req)) in
      if ar_GangRailKey req \<noteq> [] \<and> int (card w) \<ge> needNumber then Some w else None)"

definition ComponentUUIDs :: "node_info \<Rightarrow> int \<Rightarrow> string list" where
  "ComponentUUIDs n componentRoot =
     (case map_of (ni_nvlinkComponentToUUIDs n) componentRoot of None \<Rightarrow> [] | Some us \<Rightarrow> us)"

definition component_window :: "node_info \<Rightarrow> int \<Rightarrow> int \<Rightarrow> string set option" where
  "component_window n anchorRoot needNumber =
     (let w = set (ComponentUUIDs n anchorRoot) in
      if anchorRoot \<ge> 0 \<and> int (card w) \<ge> needNumber then Some w else None)"

definition link_attempts :: "node_info \<Rightarrow> allocation_request \<Rightarrow> int \<Rightarrow> int \<Rightarrow> string set option list" where
  "link_attempts n req anchorRoot needNumber =
     (case rail_window n req needNumber of None \<Rightarrow> [] | Some w \<Rightarrow> [Some w]) @
     (case component_window n anchorRoot needNumber of None \<Rightarrow> [] | Some w \<Rightarrow> [Some w]) @
     (if ar_TopologyStrict req \<and> anchorRoot \<ge> 0 then [] else [None])"

definition acceptable :: "allocation_request \<Rightarrow> link_tier \<Rightarrow> link_plan option \<Rightarrow> bool" where
  "acceptable req lowest p =
     (case p of None \<Rightarrow> False
      | Some plan \<Rightarrow> \<not> ar_TopologyStrict req \<or> (lp_Tier plan \<le> lowest \<and> \<not> lp_Spanned plan))"

fun try_windows ::
  "node_info \<Rightarrow> allocation_request \<Rightarrow> device list \<Rightarrow> int \<Rightarrow> link_tier \<Rightarrow> link_plan option \<Rightarrow> string set option list \<Rightarrow>
   link_plan option" where
  "try_windows n req deviceStore needNumber lowest plan [] = plan"
| "try_windows n req deviceStore needNumber lowest plan (window # windows) =
     (let got = allocateTiered n req deviceStore needNumber window in
      if acceptable req lowest got then got
      else try_windows n req deviceStore needNumber lowest (case plan of None \<Rightarrow> got | Some p \<Rightarrow> Some p) windows)"

definition allocateLink ::
  "node_info \<Rightarrow> device list \<Rightarrow> allocation_request \<Rightarrow> int \<Rightarrow> int \<Rightarrow> link_tier \<Rightarrow> link_plan option" where
  "allocateLink n deviceStore req anchorRoot needNumber lowest =
     (if \<not> ni_gpuTopology n then None
      else if anchorRoot \<ge> 0 \<and> component_window n anchorRoot needNumber = None \<and> ar_TopologyStrict req then None
      else let plan = try_windows n req deviceStore needNumber lowest None (link_attempts n req anchorRoot needNumber)
           in if acceptable req lowest plan then plan else None)"

section \<open>One container\<close>

definition anchor_root :: "env \<Rightarrow> node_info \<Rightarrow> allocation_request \<Rightarrow> topology_mode \<Rightarrow> int" where
  "anchor_root e n req mode =
     (if mode = LinkTopology \<and> ar_CrossPodTopology req \<and> (ar_GangName req \<noteq> [] \<or> ar_ControllerOwner req \<noteq> None)
      then (case GangAnchorComponent e n (ar_GangName req) (ar_ControllerOwner req) {p_UID (ar_Pod req)} of
              Some r \<Rightarrow> r
            | None \<Rightarrow> (case ComponentByDomain n (ar_GangDomainKey req) of Some r \<Rightarrow> r | None \<Rightarrow> -1))
      else -1)"

text \<open>
  A request built from a pod asks for at least one device per container, so the prefix slice of
  the store is a plain take.
\<close>

definition allocateByTopologyMode ::
  "env \<Rightarrow> alloc_options \<Rightarrow> device list \<Rightarrow> int \<Rightarrow> int \<Rightarrow> int \<Rightarrow> alloc_state \<Rightarrow> device_claim list outcome \<times> alloc_state" where
  "allocateByTopologyMode e opts deviceStore needNumber needCores needMemory s =
     (let n = as_nodeInfo s; req = as_request s;
          mode = BaseTopology (ar_Topology req);
          plain = Placed (buildClaims (take (nat needNumber) deviceStore) needCores needMemory)
      in if mode = LinkTopology \<or> mode = PCIeTopology
         then let lowest = topologyFloor mode; anchorRoot = anchor_root e n req mode in
           (case allocateLink n deviceStore req anchorRoot needNumber lowest of
              Some plan \<Rightarrow>
                let s1 = (if lp_Tier plan > lowest \<or> lp_Spanned plan
                          then reportLinkDowngrade opts plan needNumber mode lowest s else s)
                in (Placed (buildClaims (lp_Devices plan) needCores needMemory),
                    recordOutcome opts (linkResult plan) (alignmentOf req anchorRoot) s1)
            | None \<Rightarrow>
                (case handleTopologyFallback opts (ar_TopologyStrict req) (topologyUnsatisfiedCode mode) mode
                        (topologyAttemptKind mode) ''non-topology allocation'' (linkFallbackReason n needNumber lowest) s of
                   (Some rsn, s1) \<Rightarrow> (Refused rsn, s1)
                 | (None, s1) \<Rightarrow> (plain, recordOutcome opts ''none'' (alignmentOf req anchorRoot) s1)))
         else if mode = NUMATopology
         then (case allocateNUMA n deviceStore UniformProfile (ar_DevicePolicy req) needNumber needCores needMemory of
                 Some claims \<Rightarrow> (Placed claims, recordOutcome opts ''numa'' [] s)
               | None \<Rightarrow>
                   (case handleTopologyFallback opts (ar_TopologyStrict req) NUMATopologyUnsatisfied NUMATopology
                           ''NUMA topology'' ''cross-NUMA allocation'' (numaFallbackReason n needNumber deviceStore) s of
                      (Some rsn, s1) \<Rightarrow> (Refused rsn, s1)
                    | (None, s1) \<Rightarrow> (plain, recordOutcome opts ''cross-numa'' [] s1)))
         else if mode = NoneTopology then (plain, s)
         else (plain, sendEventf opts (TopologyModeInvalid (ar_Topology req)) s))"

definition sortDeviceStore ::
  "alloc_options \<Rightarrow> device list \<Rightarrow> alloc_state \<Rightarrow> device list \<times> alloc_state" where
  "sortDeviceStore opts deviceStore s =
     (let req = as_request s in
      (sortPriority (NewDevicePolicyPriority req) deviceStore,
       if ar_DevicePolicy req = BinpackPolicy \<or> ar_DevicePolicy req = SpreadPolicy \<or> ar_DevicePolicy req = NonePolicy
       then s else sendEventf opts (DevicePolicyInvalid (ar_DevicePolicy req)) s))"

text \<open>Too few candidates give no claims, not a rejection.\<close>

definition pickDeviceClaims ::
  "env \<Rightarrow> alloc_options \<Rightarrow> device list \<Rightarrow> int \<Rightarrow> int \<Rightarrow> int \<Rightarrow> alloc_state \<Rightarrow> device_claim list outcome \<times> alloc_state" where
  "pickDeviceClaims e opts deviceStore needNumber needCores needMemory s =
     (if needNumber > int (length deviceStore) then (Placed [], s)
      else case sortDeviceStore opts deviceStore s of (store, s1) \<Rightarrow>
        allocateByTopologyMode e opts store needNumber needCores needMemory s1)"

definition allocateOne ::
  "env \<Rightarrow> alloc_options \<Rightarrow> container_need \<Rightarrow> string set option \<Rightarrow> alloc_state \<Rightarrow> container_claim outcome \<times> alloc_state" where
  "allocateOne e opts need restrictUUIDs s =
     (let n = as_nodeInfo s; number = cn_Number need in
      if number > ni_schedulableDevices n
      then (Refused ((New_reason InsufficientGPUCards)\<lparr>fr_Detail := ''need '' @ itoa number @ '' devices, node has ''
              @ itoa (ni_schedulableDevices n) @ '' schedulable''\<rparr>), s)
      else
        let (needCores, needMemory) =
              resolveContainerNeeds need (nc_MemoryFactor (ni_config n)) (ni_allSameCapacity n) (ni_maxDeviceMemory n);
            (deviceStore, deviceCounts) = filterDevices n (as_request s) needCores needMemory restrictUUIDs
        in and_then (pickDeviceClaims e opts deviceStore number needCores needMemory s) (\<lambda>claims s1.
             if int (length claims) \<noteq> number
             then (Refused (case FromCounts deviceCounts (int (length (ni_deviceMap n))) of
                      Some r \<Rightarrow> r
                    | None \<Rightarrow> (New_reason InsufficientGPUResources)\<lparr>fr_Detail := ''need '' @ itoa number
                               @ '' devices, none qualify''\<rparr>), s1)
             else (Placed \<lparr>cdc_Name = cn_Name need,
                     cdc_DeviceClaims = go_sort (\<lambda>a b. dc_Id a < dc_Id b) claims\<rparr>, s1)))"

section \<open>All containers of a pod\<close>

definition allocateAndAccumulate ::
  "env \<Rightarrow> alloc_options \<Rightarrow> container_need \<Rightarrow> string set option \<Rightarrow> alloc_state \<Rightarrow> container_claim outcome \<times> alloc_state" where
  "allocateAndAccumulate e opts need restrictUUIDs s =
     and_then (allocateOne e opts need restrictUUIDs s) (\<lambda>claim s1.
       case addContainerAllocate (cdc_DeviceClaims claim) (as_nodeInfo s1) of
         (Some err, n) \<Rightarrow> (Failed (AccountingError err), s1\<lparr>as_nodeInfo := n\<rparr>)
       | (None, n) \<Rightarrow> (Placed claim, s1\<lparr>as_nodeInfo := n\<rparr>))"

text \<open>A concurrent pass: each claim with the name it is stored under.\<close>

fun accumulate_needs ::
  "env \<Rightarrow> alloc_options \<Rightarrow> container_need list \<Rightarrow> alloc_state \<Rightarrow> (string \<times> container_claim) list outcome \<times> alloc_state" where
  "accumulate_needs e opts [] s = (Placed [], s)"
| "accumulate_needs e opts (need # needs) s =
     and_then (allocateAndAccumulate e opts need None s) (\<lambda>claim s1.
       and_then (accumulate_needs e opts needs s1) (\<lambda>claims s2. (Placed ((cn_Name need, claim) # claims), s2)))"

text \<open>
  A sequential init container first tries the GPUs the pod already uses, then the whole node.
  A rejection of the first attempt is dropped.
\<close>

definition allocate_init ::
  "env \<Rightarrow> alloc_options \<Rightarrow> string set \<Rightarrow> container_need \<Rightarrow> alloc_state \<Rightarrow> container_claim outcome \<times> alloc_state" where
  "allocate_init e opts preferred need s =
     (if preferred = {} then allocateOne e opts need None s
      else case allocateOne e opts need (Some preferred) s of
        (Placed claim, s1) \<Rightarrow> (Placed claim, s1)
      | (Failed err, s1) \<Rightarrow> (Failed err, s1)
      | (Refused _, s1) \<Rightarrow> allocateOne e opts need None s1)"

fun allocate_inits ::
  "env \<Rightarrow> alloc_options \<Rightarrow> string set \<Rightarrow> container_need list \<Rightarrow> alloc_state \<Rightarrow>
   (string \<times> container_claim) list outcome \<times> alloc_state" where
  "allocate_inits e opts preferred [] s = (Placed [], s)"
| "allocate_inits e opts preferred (need # needs) s =
     and_then (allocate_init e opts preferred need s) (\<lambda>claim s1.
       and_then (allocate_inits e opts preferred needs s1) (\<lambda>claims s2. (Placed ((cn_Name need, claim) # claims), s2)))"

definition claim_uuids :: "(string \<times> container_claim) list \<Rightarrow> string set" where
  "claim_uuids claims = set (concat (map (\<lambda>(_, c). map dc_Uuid (cdc_DeviceClaims c)) claims))"

fun assemble :: "(string, container_claim) gomap \<Rightarrow> container_need list \<Rightarrow> pod_claim outcome" where
  "assemble claimByName [] = Placed []"
| "assemble claimByName (need # needs) =
     (case map_of claimByName (cn_Name need) of
        None \<Rightarrow> Failed NilClaim
      | Some claim \<Rightarrow> (case assemble claimByName needs of
                        Placed claims \<Rightarrow> Placed (claim # claims) | Refused r \<Rightarrow> Refused r | Failed err \<Rightarrow> Failed err))"

definition allocate_fast :: "env \<Rightarrow> alloc_options \<Rightarrow> alloc_state \<Rightarrow> pod_claim outcome \<times> alloc_state" where
  "allocate_fast e opts s =
     and_then (accumulate_needs e opts (ar_Containers (as_request s)) s) (\<lambda>claims s1. (Placed (map snd claims), s1))"

definition is_sidecar :: "container_need \<Rightarrow> bool" where
  "is_sidecar need = (cn_Kind need = ContainerKindInit \<and> cn_Restartable need)"

definition is_app :: "container_need \<Rightarrow> bool" where
  "is_app need = (cn_Kind need = ContainerKindApp)"

definition allocate_two_pass :: "env \<Rightarrow> alloc_options \<Rightarrow> alloc_state \<Rightarrow> pod_claim outcome \<times> alloc_state" where
  "allocate_two_pass e opts s =
     (let needs = ar_Containers (as_request s) in
      and_then (accumulate_needs e opts (filter is_sidecar needs) s) (\<lambda>sidecars s1.
        let viewBaseSidecar = SnapshotUsage (as_nodeInfo s1) in
        and_then (accumulate_needs e opts (filter is_app needs) s1) (\<lambda>apps s2.
          let s3 = s2\<lparr>as_nodeInfo := RestoreUsage viewBaseSidecar (as_nodeInfo s2)\<rparr> in
          and_then (allocate_inits e opts (claim_uuids (sidecars @ apps)) (filter is_sequential needs) s3) (\<lambda>inits s4.
            (assemble (foldl (\<lambda>m (name, claim). AList.update name claim m) [] (sidecars @ apps @ inits)) needs, s4)))))"

text \<open>The outcome of a node that was tried before must not leak into this one.\<close>

definition clear_outcome :: "alloc_state \<Rightarrow> alloc_state" where
  "clear_outcome s = s\<lparr>as_request := (as_request s)\<lparr>ar_topoOutcome := \<lparr>to_Result = [], to_Alignment = []\<rparr>\<rparr>\<rparr>"

definition Allocate :: "env \<Rightarrow> alloc_options \<Rightarrow> alloc_state \<Rightarrow> pod outcome \<times> alloc_state" where
  "Allocate e opts s =
     (let s0 = clear_outcome s;
          r = (if ar_HasSequentialInit (as_request s0) then allocate_two_pass e opts s0 else allocate_fast e opts s0)
      in and_then r (\<lambda>deviceClaims s1.
           let preAllocated = PodDeviceClaim_MarshalText deviceClaims;
               newPod = InsertAnnotation (ar_Pod (as_request s1)) PodVGPUPreAllocAnnotation preAllocated
           in (Placed (InsertAnnotation newPod PodPredicateNodeAnnotation (n_Name (ni_node (as_nodeInfo s1)))), s1)))"

end
