(* ===== verification/Placement.thy ===== *)
theory Placement
  imports Allocator
begin

text \<open>
  What the allocator guarantees for one container: the cards it picks are distinct, pass every
  gate and have room for the claim, the strict topology modes keep their promise, and a request
  that is not strict is placed whenever enough cards pass the gates.
\<close>

section \<open>The device gates\<close>

definition in_window :: "string set option \<Rightarrow> device \<Rightarrow> bool" where
  "in_window w d = (case w of None \<Rightarrow> True | Some us \<Rightarrow> d_uuid d \<in> us)"

lemma filter_fold:
  "foldl (filter_device req c m w) (ds, counts) xs =
     (ds @ filter (\<lambda>d. in_window w d \<and> device_gate req c m d = None) xs,
      foldl vote counts (List.map_filter (\<lambda>d. if in_window w d then device_gate req c m d else None) xs))"
  by (induction xs arbitrary: ds counts)
    (auto simp: filter_device_def in_window_def map_filter_simps split: option.splits)

lemma filterDevices_eq:
  "filterDevices n req c m w =
     (filter (\<lambda>d. in_window w d \<and> device_gate req c m d = None) (vals (ni_deviceMap n)),
      foldl vote [] (List.map_filter (\<lambda>d. if in_window w d then device_gate req c m d else None) (vals (ni_deviceMap n))))"
  by (simp add: filterDevices_def filter_fold)

lemma vote_fold:
  "map_of (foldl vote m xs) x =
     (if x \<in> set xs then Some ((case map_of m x of None \<Rightarrow> 0 | Some v \<Rightarrow> v) + int (count_list xs x)) else map_of m x)"
proof (induction xs arbitrary: m)
  case (Cons a xs)
  then show ?case by (auto simp: vote_def map_of_update count_notin split: option.splits)
qed simp

lemma device_gateD:
  assumes "device_gate req c m d = None"
  shows "schedulable d" "AllocatableNumber d \<noteq> 0" "(if m = 0 then GetTotalMemory d else m) \<le> AllocatableMemory d"
    "c \<le> AllocatableCores d" "AllocatableCores d \<noteq> 0"
    "ar_CheckDeviceType req \<Longrightarrow> CheckDeviceType (p_Annotations (ar_Pod req)) (d_deviceType d)"
    "ar_CheckDeviceUuid req \<Longrightarrow> CheckDeviceUuid (p_Annotations (ar_Pod req)) (d_uuid d)"
  using assms by (auto simp: device_gate_def schedulable_def Let_def split: if_splits)

section \<open>The picked cards\<close>

definition claim_for :: "int \<Rightarrow> int \<Rightarrow> device \<Rightarrow> device_claim" where
  "claim_for c m d = \<lparr>dc_Id = d_id d, dc_Uuid = d_uuid d, dc_Cores = c, dc_Memory = (if m = 0 then GetTotalMemory d else m)\<rparr>"

lemma buildClaims_map: "buildClaims ds c m = map (claim_for c m) ds"
  by (simp add: buildClaims_def claim_for_def)

lemma length_buildClaims [simp]: "length (buildClaims ds c m) = length ds"
  by (simp add: buildClaims_map)

text \<open>A choice of as many cards as asked for, in the order of the store.\<close>

definition picks :: "device list \<Rightarrow> int \<Rightarrow> device list \<Rightarrow> bool" where
  "picks store k ds \<longleftrightarrow> subseq ds store \<and> int (length ds) = k"

lemma picks_prefix: "0 \<le> k \<Longrightarrow> k \<le> int (length store) \<Longrightarrow> picks store k (take (nat k) store)"
  by (auto simp: picks_def intro: prefix_imp_subseq take_is_prefix)

definition one_numa :: "device list \<Rightarrow> bool" where
  "one_numa ds \<longleftrightarrow> (\<exists>k \<ge> 0. \<forall>d \<in> set ds. d_numa d = k)"

lemma allocateNUMA_Some:
  assumes "allocateNUMA n store profile policy k c m = Some claims" "0 < k"
  obtains ds where "claims = buildClaims ds c m" "picks store k ds" "one_numa ds"
proof -
  let ?g = "NewNumaNodeDevice store"
  let ?f = "\<lambda>ds. buildClaims (take (nat k) ds) c m"
  let ?hit = "find (\<lambda>i. k \<le> int (length (numa_group ?g i))) (numa_order ?g profile policy)"
  have claims: "claims = (case ?hit of None \<Rightarrow> [] | Some i \<Rightarrow> ?f (numa_group ?g i))" and len: "int (length claims) = k"
    using assms(1) unfolding allocateNUMA_def CanNotCrossNumaNode_def
    by (auto simp: Let_def SchedulerPolicyCallback_order visit_numa_first split: if_splits)
  then obtain i where i: "?hit = Some i" using assms(2) by (cases ?hit) auto
  then have big: "k \<le> int (length (numa_group ?g i))" by (auto simp: find_Some_iff)
  then have "0 \<le> i" using assms(2) by (auto simp: numa_group_eq split: if_splits)
  then have g: "numa_group ?g i = filter (\<lambda>d. d_numa d = i) store" by (simp add: numa_group_eq)
  let ?ds = "take (nat k) (numa_group ?g i)"
  have "picks (numa_group ?g i) k ?ds" using assms(2) big by (intro picks_prefix) auto
  then have "picks store k ?ds"
    unfolding picks_def g using subseq_order.order_trans [OF _ subseq_filter_left] by blast
  moreover have "one_numa ?ds" using \<open>0 \<le> i\<close> by (auto simp: one_numa_def g dest!: in_set_takeD intro!: exI [of _ i])
  moreover have "claims = buildClaims ?ds c m" by (simp add: claims i)
  ultimately show thesis by (rule that [rotated])
qed

text \<open>Connected at the floor of a link mode, among the candidates of some window.\<close>

definition connected_within :: "node_info \<Rightarrow> link_tier \<Rightarrow> device list \<Rightarrow> device list \<Rightarrow> bool" where
  "connected_within n lowest store ds \<longleftrightarrow> (\<exists>t w. t \<le> lowest \<and> one_component n t (candidates_of w store) ds)"

lemma try_windows_cases:
  assumes "try_windows n req store k lowest plan ws = Some p"
  shows "plan = Some p \<or> (\<exists>w. allocateTiered n req store k w = Some p)"
  using assms by (induction ws arbitrary: plan) (auto simp: Let_def split: if_splits option.splits)

lemma allocateLink_Some:
  assumes "allocateLink n store req r k lowest = Some plan" "linkable n store"
  shows "picks store k (lp_Devices plan)"
    "ar_TopologyStrict req \<Longrightarrow> lp_Tier plan \<le> lowest \<and> \<not> lp_Spanned plan \<and> connected_within n lowest store (lp_Devices plan)"
proof -
  obtain w where w: "allocateTiered n req store k w = Some plan" and acc: "acceptable req lowest (Some plan)"
    using assms(1) try_windows_cases [of n req store k lowest None _ plan]
    by (auto simp: allocateLink_def Let_def split: if_splits)
  note s = tiered_plan_sound [OF assms(2) w]
  have "subseq (candidates_of w store) store" by (simp add: candidates_of_def)
  then show "picks store k (lp_Devices plan)" using s(1,2) subseq_order.order_trans unfolding picks_def by blast
  assume "ar_TopologyStrict req"
  then have "lp_Tier plan \<le> lowest \<and> \<not> lp_Spanned plan" using acc by (simp add: acceptable_def)
  then show "lp_Tier plan \<le> lowest \<and> \<not> lp_Spanned plan \<and> connected_within n lowest store (lp_Devices plan)"
    using s(4) by (auto simp: connected_within_def)
qed


section \<open>Decisions without effects\<close>

text \<open>
  The decision for one container as a function of the node and the request alone. What the
  operations of the allocator add to it is the trace and the topology outcome of the request.
\<close>

definition topology_choice ::
  "env \<Rightarrow> node_info \<Rightarrow> allocation_request \<Rightarrow> device list \<Rightarrow> int \<Rightarrow> int \<Rightarrow> int \<Rightarrow> device_claim list outcome" where
  "topology_choice e n req store k c m =
     (let mode = BaseTopology (ar_Topology req);
          plain = Placed (buildClaims (take (nat k) store) c m);
          fallback = (\<lambda>code detail. if ar_TopologyStrict req then Refused ((New_reason code)\<lparr>fr_Detail := detail\<rparr>) else plain)
      in if mode = LinkTopology \<or> mode = PCIeTopology
         then (case allocateLink n store req (anchor_root e n req mode) k (topologyFloor mode) of
                 Some plan \<Rightarrow> Placed (buildClaims (lp_Devices plan) c m)
               | None \<Rightarrow> fallback (topologyUnsatisfiedCode mode) (linkFallbackReason n k (topologyFloor mode)))
         else if mode = NUMATopology
         then (case allocateNUMA n store UniformProfile (ar_DevicePolicy req) k c m of
                 Some claims \<Rightarrow> Placed claims
               | None \<Rightarrow> fallback NUMATopologyUnsatisfied (numaFallbackReason n k store))
         else plain)"

definition gated_devices :: "node_info \<Rightarrow> allocation_request \<Rightarrow> int \<Rightarrow> int \<Rightarrow> string set option \<Rightarrow> device list" where
  "gated_devices n req c m w = filter (\<lambda>d. in_window w d \<and> device_gate req c m d = None) (vals (ni_deviceMap n))"

definition shortage :: "node_info \<Rightarrow> allocation_request \<Rightarrow> int \<Rightarrow> int \<Rightarrow> string set option \<Rightarrow> int \<Rightarrow> filter_reason" where
  "shortage n req c m w number =
     (case FromCounts (snd (filterDevices n req c m w)) (int (length (ni_deviceMap n))) of
        Some r \<Rightarrow> r
      | None \<Rightarrow> (New_reason InsufficientGPUResources)\<lparr>fr_Detail := ''need '' @ itoa number @ '' devices, none qualify''\<rparr>)"

definition need_amounts :: "node_info \<Rightarrow> container_need \<Rightarrow> int \<times> int" where
  "need_amounts n need =
     resolveContainerNeeds need (nc_MemoryFactor (ni_config n)) (ni_allSameCapacity n) (ni_maxDeviceMemory n)"

definition named_claim :: "container_need \<Rightarrow> device_claim list \<Rightarrow> container_claim" where
  "named_claim need claims = \<lparr>cdc_Name = cn_Name need, cdc_DeviceClaims = go_sort (\<lambda>a b. dc_Id a < dc_Id b) claims\<rparr>"

definition place_one ::
  "env \<Rightarrow> node_info \<Rightarrow> allocation_request \<Rightarrow> container_need \<Rightarrow> string set option \<Rightarrow> container_claim outcome" where
  "place_one e n req need w =
     (let number = cn_Number need; (c, m) = need_amounts n need; store = gated_devices n req c m w in
      if number > ni_schedulableDevices n
      then Refused ((New_reason InsufficientGPUCards)\<lparr>fr_Detail := ''need '' @ itoa number @ '' devices, node has ''
              @ itoa (ni_schedulableDevices n) @ '' schedulable''\<rparr>)
      else if number > int (length store)
      then Refused (shortage n req c m w number)
      else (case topology_choice e n req (sortPriority (NewDevicePolicyPriority req) store) number c m of
              Placed claims \<Rightarrow> if int (length claims) \<noteq> number then Refused (shortage n req c m w number)
                              else Placed (named_claim need claims)
            | Refused r \<Rightarrow> Refused r | Failed err \<Rightarrow> Failed err))"

text \<open>A request up to its topology outcome.\<close>

definition untold :: "allocation_request \<Rightarrow> allocation_request" where
  "untold req = req\<lparr>ar_topoOutcome := \<lparr>to_Result = [], to_Alignment = []\<rparr>\<rparr>"

definition view :: "alloc_state \<Rightarrow> node_info \<times> allocation_request" where
  "view s = (as_nodeInfo s, untold (as_request s))"

lemma send_simps [simp]:
  "as_nodeInfo (sendEventf opts ev s) = as_nodeInfo s" "as_request (sendEventf opts ev s) = as_request s"
  "view (sendEventf opts ev s) = view s"
  by (simp_all add: sendEventf_def view_def)

lemma record_view [simp]: "view (recordOutcome opts a b s) = view s"
  by (simp add: recordOutcome_def view_def untold_def recordTopologyOutcome_def Let_def)

lemma downgrade_simps [simp]:
  "view (reportLinkDowngrade opts plan k mode lowest s) = view s"
  by (simp add: reportLinkDowngrade_def)

lemma fallback_tail:
  "(case handleTopologyFallback opts strict code mode a f d s of
      (Some rsn, s1) \<Rightarrow> (Refused rsn, s1) | (None, s1) \<Rightarrow> (r, g s1)) =
   (if strict then (Refused ((New_reason code)\<lparr>fr_Detail := d\<rparr>), snd (handleTopologyFallback opts strict code mode a f d s))
    else (r, g (snd (handleTopologyFallback opts strict code mode a f d s))))"
  by (simp add: handleTopologyFallback_def WithDetail_def)

lemma fallback_view [simp]: "view (snd (handleTopologyFallback opts strict code mode a f d s)) = view s"
  by (simp add: handleTopologyFallback_def view_def sendEventf_def)

lemma topology_choice_eq:
  "fst (allocateByTopologyMode e opts store k c m s) = topology_choice e (as_nodeInfo s) (as_request s) store k c m"
  "view (snd (allocateByTopologyMode e opts store k c m s)) = view s"
  unfolding allocateByTopologyMode_def topology_choice_def Let_def fallback_tail
  by (simp_all split: option.split)

lemma place_one_eq:
  "fst (allocateOne e opts need w s) = place_one e (as_nodeInfo s) (as_request s) need w"
  "view (snd (allocateOne e opts need w s)) = view s"
proof -
  obtain c m where r: "resolveContainerNeeds need (nc_MemoryFactor (ni_config (as_nodeInfo s)))
      (ni_allSameCapacity (as_nodeInfo s)) (ni_maxDeviceMemory (as_nodeInfo s)) = (c, m)" by fastforce
  obtain store counts where f: "filterDevices (as_nodeInfo s) (as_request s) c m w = (store, counts)" by fastforce
  have st: "store = gated_devices (as_nodeInfo s) (as_request s) c m w" using f by (simp add: filterDevices_eq gated_devices_def)
  define s1 where "s1 = snd (sortDeviceStore opts store s)"
  have s1: "as_nodeInfo s1 = as_nodeInfo s" "as_request s1 = as_request s" "view s1 = view s"
    by (simp_all add: s1_def sortDeviceStore_def Let_def)
  have pick: "fst (pickDeviceClaims e opts store (cn_Number need) c m s) =
      (if cn_Number need > int (length store) then Placed []
       else topology_choice e (as_nodeInfo s) (as_request s) (sortPriority (NewDevicePolicyPriority (as_request s)) store) (cn_Number need) c m)"
    "view (snd (pickDeviceClaims e opts store (cn_Number need) c m s)) = view s"
    using s1 by (simp_all add: pickDeviceClaims_def topology_choice_eq s1_def sortDeviceStore_def Let_def)
  show "fst (allocateOne e opts need w s) = place_one e (as_nodeInfo s) (as_request s) need w"
    using pick(1) by (auto simp: allocateOne_def place_one_def r f st Let_def and_then_def need_amounts_def named_claim_def
        shortage_def split: outcome.split)
  show "view (snd (allocateOne e opts need w s)) = view s"
    using pick(2) by (auto simp: allocateOne_def r f Let_def and_then_def split: outcome.split)
qed

section \<open>Decisions do not read the outcome\<close>

lemma untold_simps [simp]:
  "ar_Pod (untold req) = ar_Pod req" "ar_Containers (untold req) = ar_Containers req"
  "ar_ControllerOwner (untold req) = ar_ControllerOwner req" "ar_DevicePolicy (untold req) = ar_DevicePolicy req"
  "ar_Topology (untold req) = ar_Topology req" "ar_TopologyStrict (untold req) = ar_TopologyStrict req"
  "ar_GangName (untold req) = ar_GangName req" "ar_CrossPodTopology (untold req) = ar_CrossPodTopology req"
  "ar_GangDomainKey (untold req) = ar_GangDomainKey req" "ar_GangRailKey (untold req) = ar_GangRailKey req"
  "ar_CheckDeviceUuid (untold req) = ar_CheckDeviceUuid req" "ar_CheckDeviceType (untold req) = ar_CheckDeviceType req"
  "ar_HasSequentialInit (untold req) = ar_HasSequentialInit req" "untold (untold req) = untold req"
  by (simp_all add: untold_def)

lemma group_score_untold [simp]: "group_score (untold req) = group_score req"
  by (simp add: group_score_def fun_eq_iff)

lemma span_less_untold [simp]: "span_less (untold req) = span_less req"
  by (simp add: span_less_def fun_eq_iff)

lemma policyRuns_untold [simp]: "policyRuns (untold req) = policyRuns req"
  by (simp add: policyRuns_def fun_eq_iff split: list.split)

lemma pick_untold [simp]:
  "pickGroup n (untold req) = pickGroup n req" "pickMembers n (untold req) = pickMembers n req"
  by (simp_all add: pickGroup_def pickMembers_def fun_eq_iff)

lemma span_loop_untold [simp]: "span_loop n (untold req) t k picked gs = span_loop n req t k picked gs"
  by (induction gs arbitrary: picked) (simp_all add: Let_def)

lemma spanGroups_untold [simp]: "spanGroups n (untold req) = spanGroups n req"
  unfolding spanGroups_def fun_eq_iff span_loop_untold span_less_untold by simp

lemma plan_at_tier_untold [simp]: "plan_at_tier n (untold req) cs k t = plan_at_tier n req cs k t"
  unfolding plan_at_tier_def pick_untold spanGroups_untold by (rule refl)

lemma plan_walk_untold [simp]: "plan_walk n (untold req) cs k ts = plan_walk n req cs k ts"
  by (induction ts) (simp_all split: option.split)

lemma allocateTiered_untold [simp]: "allocateTiered n (untold req) store k w = allocateTiered n req store k w"
  by (simp add: allocateTiered_def Let_def)

lemma acceptable_untold [simp]: "acceptable (untold req) = acceptable req"
  by (simp add: acceptable_def fun_eq_iff split: option.split)

lemma try_windows_untold [simp]:
  "try_windows n (untold req) store k lowest plan ws = try_windows n req store k lowest plan ws"
  by (induction ws arbitrary: plan) (simp_all add: Let_def)

lemma allocateLink_untold [simp]:
  "allocateLink n store (untold req) r k lowest = allocateLink n store req r k lowest"
  by (simp add: allocateLink_def link_attempts_def rail_window_def Let_def)

lemma gate_untold [simp]: "device_gate (untold req) = device_gate req"
  by (simp add: device_gate_def fun_eq_iff Let_def)

lemma place_one_untold: "place_one e n (untold req) need w = place_one e n req need w"
proof -
  have a: "filterDevices n (untold req) = filterDevices n req" "gated_devices n (untold req) = gated_devices n req"
    unfolding fun_eq_iff filterDevices_eq gated_devices_def gate_untold by blast+
  have b: "topology_choice e n (untold req) = topology_choice e n req"
    unfolding fun_eq_iff topology_choice_def anchor_root_def allocateLink_untold untold_simps by blast
  have c: "NewDevicePolicyPriority (untold req) = NewDevicePolicyPriority req"
    by (simp add: NewDevicePolicyPriority_def)
  show ?thesis unfolding place_one_def shortage_def a b c by (rule refl)
qed

lemma view_cong:
  assumes "view s = view t"
  shows "as_nodeInfo s = as_nodeInfo t" "place_one e n (as_request s) need w = place_one e n (as_request t) need w"
    "ar_Containers (as_request s) = ar_Containers (as_request t)" "ar_Pod (as_request s) = ar_Pod (as_request t)"
    "ar_HasSequentialInit (as_request s) = ar_HasSequentialInit (as_request t)"
  using assms place_one_untold unfolding view_def by (metis prod.inject untold_simps)+

section \<open>Soundness for one container\<close>

definition links_ok :: "node_info \<Rightarrow> bool" where
  "links_ok n \<longleftrightarrow> (ni_gpuTopology n \<longrightarrow>
     (\<forall>d \<in> set (vals (ni_deviceMap n)). map_of (link_by_uuid (ni_deviceList n)) (d_uuid d) \<noteq> None))"

lemma node_ok_distinct:
  assumes "node_ok n"
  shows "distinct (map d_uuid (vals (ni_deviceMap n)))" "distinct (map d_id (vals (ni_deviceMap n)))"
proof -
  have k: "map d_id (vals (ni_deviceMap n)) = keys (ni_deviceMap n)"
    using node_okD(3) [OF assms] by (auto simp: vals_def keys_def)
  then show ids: "distinct (map d_id (vals (ni_deviceMap n)))" using node_okD(5) [OF assms] by simp
  have ix: "map_of (ni_deviceIndexMap n) (d_uuid d) = Some (d_id d)" if "d \<in> set (vals (ni_deviceMap n))" for d
    using that node_okD(3) [OF assms] by (auto simp: vals_def)
  have "inj_on d_uuid (set (vals (ni_deviceMap n)))"
  proof (rule inj_onI)
    fix a b assume ab: "a \<in> set (vals (ni_deviceMap n))" "b \<in> set (vals (ni_deviceMap n))" "d_uuid a = d_uuid b"
    then have "d_id a = d_id b" using ix [of a] ix [of b] by simp
    then show "a = b" using ids ab by (auto simp: distinct_map inj_on_def)
  qed
  then show "distinct (map d_uuid (vals (ni_deviceMap n)))" using ids by (simp add: distinct_map)
qed

lemma store_ok:
  assumes "node_ok n" "links_ok n" "store = sortPriority fs (gated_devices n req c m w)"
  shows "distinct (map d_uuid store)" "distinct (map d_id store)" "set store = set (gated_devices n req c m w)"
    "length store = length (gated_devices n req c m w)" "ni_gpuTopology n \<Longrightarrow> linkable n store"
proof -
  let ?g = "gated_devices n req c m w"
  have m: "mset store = mset ?g" by (simp add: assms(3) sortPriority_def)
  then show s: "set store = set ?g" and "length store = length ?g" by (metis set_mset_mset, metis size_mset)
  have "mset (map f store) = mset (map f ?g)" for f :: "device \<Rightarrow> 'b" using m by simp
  then have d: "distinct (map f store) = distinct (map f ?g)" for f :: "device \<Rightarrow> 'b" by (metis mset_eq_imp_distinct_iff)
  have g: "distinct (map d_uuid ?g)" "distinct (map d_id ?g)"
    unfolding gated_devices_def using node_ok_distinct [OF assms(1)] by (auto intro: distinct_map_filter)
  show u: "distinct (map d_uuid store)" using g(1) by (metis d)
  show "distinct (map d_id store)" using g(2) \<open>mset store = mset ?g\<close> by (metis mset_eq_imp_distinct_iff mset_map)
  show "linkable n store" if "ni_gpuTopology n"
    using u that assms(2) s by (auto simp: linkable_def links_ok_def gated_devices_def)
qed

lemma topology_choice_Placed:
  assumes "topology_choice e n req store k c m = Placed claims" "0 < k" "k \<le> int (length store)"
    and "ni_gpuTopology n \<Longrightarrow> linkable n store"
  obtains ds where "claims = buildClaims ds c m" "picks store k ds"
    "ar_TopologyStrict req \<Longrightarrow> BaseTopology (ar_Topology req) \<in> {LinkTopology, PCIeTopology} \<Longrightarrow>
       connected_within n (topologyFloor (BaseTopology (ar_Topology req))) store ds"
    "ar_TopologyStrict req \<Longrightarrow> BaseTopology (ar_Topology req) = NUMATopology \<Longrightarrow> one_numa ds"
proof -
  let ?mode = "BaseTopology (ar_Topology req)"
  let ?link = "allocateLink n store req (anchor_root e n req ?mode) k (topologyFloor ?mode)"
  let ?numa = "allocateNUMA n store UniformProfile (ar_DevicePolicy req) k c m"
  note pick = that
  have prefix: thesis if "claims = buildClaims (take (nat k) store) c m" "\<not> ar_TopologyStrict req \<or> ?mode \<notin> {LinkTopology, PCIeTopology, NUMATopology}"
    using that picks_prefix [OF _ assms(3)] assms(2) by (intro pick [of "take (nat k) store"]) auto
  have dif: "LinkTopology \<noteq> NUMATopology" "PCIeTopology \<noteq> NUMATopology" by simp_all
  consider (link) "?mode \<in> {LinkTopology, PCIeTopology}" | (numa) "?mode = NUMATopology"
    | (plain) "?mode \<notin> {LinkTopology, PCIeTopology, NUMATopology}" by blast
  then show thesis
  proof cases
    case link
    show thesis
    proof (cases ?link)
      case None
      then show thesis using assms(1) link by (intro prefix) (auto simp: topology_choice_def Let_def split: if_splits)
    next
      case (Some plan)
      then have "ni_gpuTopology n" by (auto simp: allocateLink_def split: if_splits)
      note l = allocateLink_Some [OF Some assms(4) [OF this]]
      show thesis using assms(1) link Some l dif by (intro that [of "lp_Devices plan"]) (auto simp: topology_choice_def Let_def)
    qed
  next
    case numa
    show thesis
    proof (cases ?numa)
      case None
      then show thesis using assms(1) numa by (intro prefix) (auto simp: topology_choice_def Let_def split: if_splits)
    next
      case (Some cs)
      obtain ds where "cs = buildClaims ds c m" "picks store k ds" "one_numa ds" using allocateNUMA_Some [OF Some assms(2)] .
      then show thesis using assms(1) numa Some by (intro that [of ds]) (auto simp: topology_choice_def Let_def)
    qed
  next
    case plain
    then show thesis using assms(1) by (intro prefix) (auto simp: topology_choice_def Let_def)
  qed
qed

text \<open>Ascending by id, which is how the claims of a container are stored.\<close>

lemma named_claim_set [simp]:
  "set (cdc_DeviceClaims (named_claim need cs)) = set cs" "length (cdc_DeviceClaims (named_claim need cs)) = length cs"
  "mset (cdc_DeviceClaims (named_claim need cs)) = mset cs" "cdc_Name (named_claim need cs) = cn_Name need"
  by (simp_all add: named_claim_def)

lemma place_one_Placed:
  assumes "node_ok n" "links_ok n" "0 < cn_Number need" "place_one e n req need w = Placed claim"
    and "need_amounts n need = (c, m)"
  obtains ds store where "claim = named_claim need (buildClaims ds c m)" "int (length ds) = cn_Number need"
    "distinct (map d_uuid ds)" "distinct (map d_id ds)" "set ds \<subseteq> set (gated_devices n req c m w)"
    "set store = set (gated_devices n req c m w)"
    "ar_TopologyStrict req \<Longrightarrow> BaseTopology (ar_Topology req) \<in> {LinkTopology, PCIeTopology} \<Longrightarrow>
       connected_within n (topologyFloor (BaseTopology (ar_Topology req))) store ds"
    "ar_TopologyStrict req \<Longrightarrow> BaseTopology (ar_Topology req) = NUMATopology \<Longrightarrow> one_numa ds"
proof -
  define store where "store = sortPriority (NewDevicePolicyPriority req) (gated_devices n req c m w)"
  note st = store_ok [OF assms(1,2) store_def]
  obtain claims where claims: "topology_choice e n req store (cn_Number need) c m = Placed claims"
    "claim = named_claim need claims" and le: "cn_Number need \<le> int (length store)"
    using assms(4,5) st(4) by (auto simp: place_one_def store_def Let_def split: if_splits outcome.splits)
  obtain ds where ds: "claims = buildClaims ds c m" "picks store (cn_Number need) ds"
    "ar_TopologyStrict req \<Longrightarrow> BaseTopology (ar_Topology req) \<in> {LinkTopology, PCIeTopology} \<Longrightarrow>
       connected_within n (topologyFloor (BaseTopology (ar_Topology req))) store ds"
    "ar_TopologyStrict req \<Longrightarrow> BaseTopology (ar_Topology req) = NUMATopology \<Longrightarrow> one_numa ds"
    using topology_choice_Placed [OF claims(1) assms(3) le st(5)] by metis
  have sub: "subseq ds store" "int (length ds) = cn_Number need" using ds(2) by (auto simp: picks_def)
  show thesis
    using that [of ds store] ds claims(2) sub st(3) subseq_set [OF sub(1)]
      subseq_distinct_map [OF sub(1) st(1)] subseq_distinct_map [OF sub(1) st(2)] by blast
qed

lemma gated_card:
  assumes "node_ok n" "d \<in> set (gated_devices n req c m w)" "0 \<le> c" "0 \<le> m"
  shows "d \<in> set (vals (ni_deviceMap n))" "in_window w d" "schedulable d" "fits (claim_for c m d) d" "d \<in> set (cards n)"
proof -
  have g: "device_gate req c m d = None" and v: "d \<in> set (vals (ni_deviceMap n))" and "in_window w d"
    using assms(2) by (auto simp: gated_devices_def)
  then show "d \<in> set (vals (ni_deviceMap n))" "in_window w d" "schedulable d" using device_gateD(1) by blast+
  then show cd: "d \<in> set (cards n)" by (simp add: cards_def)
  have dok: "dev_ok d" by (rule node_okD(1) [OF assms(1) cd])
  have "0 \<le> GetTotalMemory d" "0 \<le> AllocatableNumber d"
    using dev_free_range [OF dok, of Memory] dev_free_range [OF dok, of Number] by auto
  then show "fits (claim_for c m d) d"
    using device_gateD [OF g] assms(3,4) by (auto simp: fits_def all_dims claim_for_def)
qed

lemma named_claim_sorted:
  assumes "distinct (map d_id ds)"
  shows "sorted_wrt (\<lambda>a b. dc_Id a < dc_Id b) (cdc_DeviceClaims (named_claim need (buildClaims ds c m)))"
proof -
  let ?cs = "cdc_DeviceClaims (named_claim need (buildClaims ds c m))"
  have cmp: "comparator (\<lambda>a b :: device_claim. dc_Id a < dc_Id b)" by (rule comparator_key)
  have "mset (map dc_Id ?cs) = mset (map d_id ds)"
    by (simp add: named_claim_def buildClaims_map claim_for_def multiset.map_comp comp_def)
  then have d: "distinct (map dc_Id ?cs)" using assms by (metis mset_eq_imp_distinct_iff)
  have "sorted_wrt (\<lambda>a b. \<not> dc_Id b < dc_Id a) ?cs"
    unfolding named_claim_def using comparator.go_sort_sorted [OF cmp] by simp
  then have "sorted (map dc_Id ?cs)" by (simp add: sorted_map not_less)
  then have "sorted_wrt (<) (map dc_Id ?cs)" using d by (simp add: strict_sorted_iff)
  then show ?thesis by (simp add: sorted_wrt_map)
qed

text \<open>
  C31. A placement is safe. The claims of a placed container are exactly as many as it asked for, on
  different cards, in ascending order of the card's index. Every claim names a card of the node that is healthy
  and not in MIG mode, inside the restriction, allowed by the pod's type and uuid selectors, and
  with room for the claim in virtual devices, cores and memory.
\<close>

theorem allocateOne_safe:
  assumes "node_ok (as_nodeInfo s)" "links_ok (as_nodeInfo s)" "0 < cn_Number need"
    and "need_amounts (as_nodeInfo s) need = (c, m)" "0 \<le> c" "0 \<le> m"
    and "allocateOne e opts need w s = (Placed claim, s')"
  shows "cdc_Name claim = cn_Name need \<and> int (length (cdc_DeviceClaims claim)) = cn_Number need \<and>
    distinct (map dc_Uuid (cdc_DeviceClaims claim)) \<and>
    sorted_wrt (\<lambda>a b. dc_Id a < dc_Id b) (cdc_DeviceClaims claim) \<and>
    (\<forall>x \<in> set (cdc_DeviceClaims claim). \<exists>d \<in> set (vals (ni_deviceMap (as_nodeInfo s))).
       x = claim_for c m d \<and> in_window w d \<and> schedulable d \<and> fits x d \<and>
       (ar_CheckDeviceType (as_request s) \<longrightarrow> CheckDeviceType (p_Annotations (ar_Pod (as_request s))) (d_deviceType d)) \<and>
       (ar_CheckDeviceUuid (as_request s) \<longrightarrow> CheckDeviceUuid (p_Annotations (ar_Pod (as_request s))) (d_uuid d)))"
proof -
  have p: "place_one e (as_nodeInfo s) (as_request s) need w = Placed claim"
    using place_one_eq(1) [of e opts need w s] assms(7) by simp
  obtain ds where ds: "claim = named_claim need (buildClaims ds c m)" "int (length ds) = cn_Number need"
    "distinct (map d_uuid ds)" "distinct (map d_id ds)" "set ds \<subseteq> set (gated_devices (as_nodeInfo s) (as_request s) c m w)"
    using place_one_Placed [OF assms(1-3) p assms(4)] by metis
  have "map dc_Uuid (buildClaims ds c m) = map d_uuid ds" by (simp add: buildClaims_map claim_for_def)
  then have u: "distinct (map dc_Uuid (cdc_DeviceClaims claim))" by (simp add: ds(1) named_claim_def ds(3))
  show ?thesis
  proof (intro conjI ballI)
    fix x assume "x \<in> set (cdc_DeviceClaims claim)"
    then obtain d where d: "d \<in> set ds" "x = claim_for c m d" by (auto simp: ds(1) buildClaims_map)
    then have g: "d \<in> set (gated_devices (as_nodeInfo s) (as_request s) c m w)" using ds(5) by blast
    then have "device_gate (as_request s) c m d = None" by (simp add: gated_devices_def)
    from device_gateD(6,7) [OF this] gated_card [OF assms(1) g assms(5,6)] d(2)
    show "\<exists>d \<in> set (vals (ni_deviceMap (as_nodeInfo s))).
       x = claim_for c m d \<and> in_window w d \<and> schedulable d \<and> fits x d \<and>
       (ar_CheckDeviceType (as_request s) \<longrightarrow> CheckDeviceType (p_Annotations (ar_Pod (as_request s))) (d_deviceType d)) \<and>
       (ar_CheckDeviceUuid (as_request s) \<longrightarrow> CheckDeviceUuid (p_Annotations (ar_Pod (as_request s))) (d_uuid d))" by blast
  qed (use ds u named_claim_sorted [OF ds(4)] in auto)
qed

section \<open>Liveness for one container\<close>

lemma topology_choice_lenient:
  assumes "\<not> ar_TopologyStrict req"
  shows "\<exists>claims. topology_choice e n req store k c m = Placed claims"
  using assms by (auto simp: topology_choice_def Let_def split: option.split)

lemma place_one_complete:
  assumes "node_ok n" "links_ok n" "0 < cn_Number need" "\<not> ar_TopologyStrict req" "need_amounts n need = (c, m)"
    and "cn_Number need \<le> ni_schedulableDevices n" "cn_Number need \<le> int (length (gated_devices n req c m w))"
  shows "\<exists>claim. place_one e n req need w = Placed claim"
proof -
  define store where "store = sortPriority (NewDevicePolicyPriority req) (gated_devices n req c m w)"
  note st = store_ok [OF assms(1,2) store_def]
  obtain claims where c: "topology_choice e n req store (cn_Number need) c m = Placed claims"
    using topology_choice_lenient [OF assms(4)] by blast
  obtain ds where "claims = buildClaims ds c m" "picks store (cn_Number need) ds"
    using topology_choice_Placed [OF c assms(3) _ st(5)] assms(7) st(4) by metis
  then have "int (length claims) = cn_Number need" by (simp add: picks_def)
  then show ?thesis using c assms(5-7) by (simp add: place_one_def store_def)
qed

text \<open>
  C32. A request that is not strict is never lost: when the node has enough cards that pass the
  gates (and its count of schedulable cards says so), the container is placed, whatever the
  topology mode, the policy and the alignment windows; a failed topology attempt falls back.
\<close>

theorem allocateOne_complete:
  assumes "node_ok (as_nodeInfo s)" "links_ok (as_nodeInfo s)" "0 < cn_Number need"
    and "\<not> ar_TopologyStrict (as_request s)" "need_amounts (as_nodeInfo s) need = (c, m)"
    and "cn_Number need \<le> ni_schedulableDevices (as_nodeInfo s)"
    and "cn_Number need \<le> int (length (gated_devices (as_nodeInfo s) (as_request s) c m w))"
  shows "\<exists>claim. fst (allocateOne e opts need w s) = Placed claim"
  unfolding place_one_eq(1) by (rule place_one_complete [OF assms])

definition demo_env :: env where
  "demo_env = \<lparr>e_decodeDevices = (\<lambda>_. None), e_decodeConfig = (\<lambda>_. None), e_decodeTopology = (\<lambda>_. None),
     e_decodeRail = (\<lambda>_. None), e_parseDuration = (\<lambda>_. None), e_now = 0, e_stuckGracePeriod = 0\<rparr>"

definition demo_need :: container_need where
  "demo_need = \<lparr>cn_Name = ''a'', cn_Kind = ContainerKindApp, cn_Restartable = False, cn_Number = 2, cn_Cores = 20, cn_Memory = 1024\<rparr>"

definition demo_state :: alloc_state where
  "demo_state = \<lparr>as_nodeInfo = demo_node, as_request = demo_request, as_trace = []\<rparr>"

lemma demo_request_simps:
  "\<not> ar_TopologyStrict demo_request" "\<not> ar_CheckDeviceType demo_request" "\<not> ar_CheckDeviceUuid demo_request"
  by (simp_all add: demo_request_def BuildAllocationRequest_def Let_def pod_needs_def demo_need_pod_def
      container_need_of_def GetResourceOfContainer_def empty_pod_def ParsePodTopologyMode_def anno_or_empty_def
      to_lower_def TopologyMode_of_def HasAnnotation_def)

lemma demo_state_ok:
  "node_ok (as_nodeInfo demo_state)" "links_ok (as_nodeInfo demo_state)"
  "need_amounts (as_nodeInfo demo_state) demo_need = (20, 1024)" "0 < cn_Number demo_need"
  "\<not> ar_TopologyStrict (as_request demo_state)" "cn_Number demo_need \<le> ni_schedulableDevices (as_nodeInfo demo_state)"
proof -
  show "node_ok (as_nodeInfo demo_state)" by (simp add: demo_state_def demo_node_ok)
  show "\<not> ar_TopologyStrict (as_request demo_state)" by (simp add: demo_state_def demo_request_simps)
qed (simp_all add: demo_state_def links_ok_def demo_node_def demo_need_def need_amounts_def resolveContainerNeeds_def i64_def)

lemma demo_gated:
  "cn_Number demo_need \<le> int (length (gated_devices (as_nodeInfo demo_state) (as_request demo_state) 20 1024 None))"
  by (simp add: demo_state_def demo_node_simps vals_def demo_need_def gated_devices_def in_window_def device_gate_def
      AllocatableNumber_def AllocatableMemory_def AllocatableCores_def i64_def Let_def demo_request_simps)

theorem allocateOne_complete_witness:
  "case fst (allocateOne demo_env \<lparr>ao_recorder = True, ao_simulate = False\<rparr> demo_need None demo_state) of
     Placed claim \<Rightarrow> True | _ \<Rightarrow> False"
  using allocateOne_complete [OF demo_state_ok(1,2,4,5,3,6) demo_gated, of demo_env "\<lparr>ao_recorder = True, ao_simulate = False\<rparr>"]
  by auto

theorem allocateOne_safe_witness:
  "case allocateOne demo_env \<lparr>ao_recorder = True, ao_simulate = False\<rparr> demo_need None demo_state of
     (Placed claim, _) \<Rightarrow> int (length (cdc_DeviceClaims claim)) = 2 \<and> distinct (map dc_Uuid (cdc_DeviceClaims claim))
   | _ \<Rightarrow> False"
proof -
  let ?r = "allocateOne demo_env \<lparr>ao_recorder = True, ao_simulate = False\<rparr> demo_need None demo_state"
  obtain claim where "fst ?r = Placed claim"
    unfolding place_one_eq(1) using place_one_complete [OF demo_state_ok(1,2,4,5,3,6) demo_gated] by blast
  then have r: "?r = (Placed claim, snd ?r)" by (metis prod.collapse)
  from allocateOne_safe [OF demo_state_ok(1,2,4,3) _ _ r]
  have "int (length (cdc_DeviceClaims claim)) = 2 \<and> distinct (map dc_Uuid (cdc_DeviceClaims claim))"
    by (simp add: demo_need_def)
  then show ?thesis by (subst r) simp
qed


definition demo_numa_state :: alloc_state where
  "demo_numa_state = \<lparr>as_nodeInfo = demo_node\<lparr>ni_numaTopology := True\<rparr>,
     as_request = demo_request\<lparr>ar_Topology := NUMATopologyStrict, ar_TopologyStrict := True\<rparr>, as_trace = []\<rparr>"


end
