(* ===== verification/Charging.thy ===== *)
theory Charging
  imports Placement
begin

text \<open>
  The passes of the allocator over a pod's containers: charging the claims of a placed container
  never fails and keeps the node ledger exact, and what the passes hand out, with the sequential
  init containers reusing the cards of the later phases, fits every card at the peak of the
  pod's lifecycle.
\<close>

section \<open>Charging a container\<close>

text \<open>The second node is the first one after something was charged on its cards.\<close>

definition same_card :: "(dim \<Rightarrow> string \<Rightarrow> int) \<Rightarrow> int \<times> device \<Rightarrow> int \<times> device \<Rightarrow> bool" where
  "same_card u a b \<longleftrightarrow> fst b = fst a \<and> d_id (snd b) = d_id (snd a) \<and> d_uuid (snd b) = d_uuid (snd a) \<and>
     schedulable (snd b) = schedulable (snd a) \<and>
     (\<forall>q. dev_free q (snd b) = dev_free q (snd a) - u q (d_uuid (snd a)))"

definition spent :: "(dim \<Rightarrow> string \<Rightarrow> int) \<Rightarrow> node_info \<Rightarrow> node_info \<Rightarrow> bool" where
  "spent u n n' \<longleftrightarrow> list_all2 (same_card u) (ni_deviceMap n) (ni_deviceMap n') \<and>
     resetResourceUsage n' = resetResourceUsage n"

lemma spent_refl: "spent (\<lambda>q x. 0) n n"
  by (simp add: spent_def same_card_def list_all2_same)

lemma spent_trans:
  assumes "spent u n n1" "spent v n1 n2"
  shows "spent (\<lambda>q x. u q x + v q x) n n2"
proof -
  have "list_all2 (same_card (\<lambda>q x. u q x + v q x)) (ni_deviceMap n) (ni_deviceMap n2)"
    by (rule list_all2_trans [OF _ assms(1) [unfolded spent_def, THEN conjunct1] assms(2) [unfolded spent_def, THEN conjunct1]])
      (auto simp: same_card_def)
  then show ?thesis using assms by (simp add: spent_def)
qed

lemma reset_select [simp]:
  "ni_deviceIndexMap (resetResourceUsage n) = ni_deviceIndexMap n" "ni_config (resetResourceUsage n) = ni_config n"
  "ni_gpuTopology (resetResourceUsage n) = ni_gpuTopology n" "ni_deviceList (resetResourceUsage n) = ni_deviceList n"
  "ni_node (resetResourceUsage n) = ni_node n" "need_amounts (resetResourceUsage n) need = need_amounts n need"
  "keys (ni_deviceMap (resetResourceUsage n)) = keys (ni_deviceMap n)"
  "map d_uuid (vals (ni_deviceMap (resetResourceUsage n))) = map d_uuid (vals (ni_deviceMap n))"
  by (auto simp: resetResourceUsage_def need_amounts_def keys_def vals_def ResetUsed_def)

lemma reset_fields:
  assumes "resetResourceUsage n' = resetResourceUsage n"
  shows "ni_deviceIndexMap n' = ni_deviceIndexMap n" "ni_config n' = ni_config n" "ni_gpuTopology n' = ni_gpuTopology n"
    "ni_deviceList n' = ni_deviceList n" "ni_node n' = ni_node n" "need_amounts n' need = need_amounts n need"
    "keys (ni_deviceMap n') = keys (ni_deviceMap n)" "map d_uuid (vals (ni_deviceMap n')) = map d_uuid (vals (ni_deviceMap n))"
  using reset_select [of n] reset_select [of n'] unfolding assms by simp_all

lemma links_ok_alt:
  "links_ok n \<longleftrightarrow> (ni_gpuTopology n \<longrightarrow>
     list_all (\<lambda>u. map_of (link_by_uuid (ni_deviceList n)) u \<noteq> None) (map d_uuid (vals (ni_deviceMap n))))"
  by (auto simp: links_ok_def list_all_iff)

lemma links_ok_reset:
  assumes "resetResourceUsage n' = resetResourceUsage n"
  shows "links_ok n' = links_ok n"
  unfolding links_ok_alt reset_fields [OF assms] by (rule refl)

text \<open>A claim that fits the card it names.\<close>

definition claim_fits :: "node_info \<Rightarrow> device_claim \<Rightarrow> bool" where
  "claim_fits n c \<longleftrightarrow> (\<exists>d \<in> set (vals (ni_deviceMap n)). d_uuid d = dc_Uuid c \<and> fits c d)"

lemma charge_one:
  assumes ok: "node_ok n" and fit: "claim_fits n c"
  obtains n' where "AddUsedResources n c = Inr n'" "node_ok n'" "ledger n \<Longrightarrow> ledger n'"
    "spent (\<lambda>q u. claims_on q u [c]) n n'"
proof -
  obtain k d where kd: "(k, d) \<in> set (ni_deviceMap n)" "d_uuid d = dc_Uuid c" "fits c d"
    using fit by (auto simp: claim_fits_def vals_def)
  have ix: "map_of (ni_deviceIndexMap n) (dc_Uuid c) = Some k" and dok: "dev_ok d"
    using node_okD(3) [OF ok kd(1)] kd(2) by auto
  have m: "map_of (ni_deviceMap n) k = Some d" using kd(1) node_okD(5) [OF ok] by (simp add: keys_def)
  obtain n' where n': "AddUsedResources n c = Inr n'" "node_ok n'" "ledger n \<Longrightarrow> ledger n'"
    "ni_deviceMap n' = AList.map_entry k (addUsedResources (dc_Cores c) (dc_Memory c)) (ni_deviceMap n)"
    using AddUsedResources_fits [OF ok ix m kd(3)] by metis
  have reset: "resetResourceUsage n' = resetResourceUsage n" using reset_charge [of n c] n'(1) by (simp add: or_keep_def)
  note ch = charge_device [OF dok kd(3)]
  have other: "d_uuid d' \<noteq> dc_Uuid c" if "(k', d') \<in> set (ni_deviceMap n)" "k' \<noteq> k" for k' d'
    using node_okD(3) [OF ok that(1)] ix that(2) by auto
  have same: "d' = d" if "(k, d') \<in> set (ni_deviceMap n)" for d'
    using that m node_okD(5) [OF ok] by (auto simp: keys_def dest: map_of_is_SomeI)
  have entry: "list_all2 (same_card (\<lambda>q u. claims_on q u [c])) xs (AList.map_entry k (addUsedResources (dc_Cores c) (dc_Memory c)) xs)"
    if "set xs \<subseteq> set (ni_deviceMap n)" "distinct (keys xs)" for xs
    using that
  proof (induction xs)
    case (Cons x xs)
    have tl: "list_all2 (same_card (\<lambda>q u. claims_on q u [c])) xs xs" if notin: "k \<notin> fst ` set xs"
    proof -
      have "d_uuid (snd y) \<noteq> dc_Uuid c" if "y \<in> set xs" for y
        using other [of "fst y" "snd y"] that notin Cons.prems(1) by (metis image_eqI list.set_intros(2) prod.collapse subsetD)
      then show ?thesis by (fastforce simp: list_all2_same same_card_def)
    qed
    show ?case
    proof (cases "fst x = k")
      case True
      then have x: "x = (k, d)" using same Cons.prems(1) by (cases x) auto
      have "k \<notin> fst ` set xs" using Cons.prems(2) True by (auto simp: keys_def)
      moreover have "same_card (\<lambda>q u. claims_on q u [c]) (k, d) (k, addUsedResources (dc_Cores c) (dc_Memory c) d)"
        by (simp add: same_card_def ch kd(2))
      ultimately show ?thesis using tl by (simp add: x)
    next
      case False
      then have "d_uuid (snd x) \<noteq> dc_Uuid c" using other [of "fst x" "snd x"] Cons.prems(1) by simp
      then have "same_card (\<lambda>q u. claims_on q u [c]) x x" by (auto simp: same_card_def)
      then show ?thesis using Cons False by (cases x) (simp add: keys_def)
    qed
  qed simp
  have "spent (\<lambda>q u. claims_on q u [c]) n n'"
    unfolding spent_def n'(4) using entry [of "ni_deviceMap n"] node_okD(5) [OF ok] reset by simp
  with n' show thesis by (intro that)
qed

lemma spent_card:
  assumes "spent u n n'" "d \<in> set (vals (ni_deviceMap n))"
  obtains d' where "d' \<in> set (vals (ni_deviceMap n'))" "d_uuid d' = d_uuid d"
    "\<And>q. dev_free q d' = dev_free q d - u q (d_uuid d)"
proof -
  obtain k where "(k, d) \<in> set (ni_deviceMap n)" using assms(2) by (auto simp: vals_def)
  then obtain i where i: "i < length (ni_deviceMap n)" "ni_deviceMap n ! i = (k, d)" by (auto simp: in_set_conv_nth)
  have "list_all2 (same_card u) (ni_deviceMap n) (ni_deviceMap n')" using assms(1) by (simp add: spent_def)
  then have "i < length (ni_deviceMap n')" "same_card u (k, d) (ni_deviceMap n' ! i)"
    using i by (auto simp: list_all2_conv_all_nth)
  then show thesis
    by (intro that [of "snd (ni_deviceMap n' ! i)"]) (auto simp: vals_def same_card_def)
qed

lemma spent_bound:
  assumes "spent u n n'" "node_ok n'" "d \<in> set (vals (ni_deviceMap n))"
  shows "u q (d_uuid d) \<le> dev_free q d"
proof -
  obtain d' where "d' \<in> set (vals (ni_deviceMap n'))" and e: "dev_free q d' = dev_free q d - u q (d_uuid d)"
    using spent_card [OF assms(1,3)] by metis
  then have "dev_ok d'" using node_okD(3) [OF assms(2)] by (auto simp: vals_def)
  from dev_free_range [OF this, of q] e show ?thesis by simp
qed

lemma addContainer_fits:
  assumes "node_ok n" "distinct (map dc_Uuid cs)" "\<forall>c \<in> set cs. claim_fits n c"
  obtains n' where "addContainerAllocate cs n = (None, n')" "node_ok n'" "ledger n \<Longrightarrow> ledger n'"
    "spent (\<lambda>q u. claims_on q u cs) n n'"
  using assms
proof (induction cs arbitrary: n thesis)
  case Nil
  then show ?case using spent_refl by simp
next
  case (Cons c cs)
  obtain n1 where n1: "AddUsedResources n c = Inr n1" "node_ok n1" "ledger n \<Longrightarrow> ledger n1"
    "spent (\<lambda>q u. claims_on q u [c]) n n1"
    using charge_one [OF Cons.prems(2)] Cons.prems(4) by (metis list.set_intros(1))
  have "claim_fits n1 x" if x: "x \<in> set cs" for x
  proof -
    obtain d where d: "d \<in> set (vals (ni_deviceMap n))" "d_uuid d = dc_Uuid x" "fits x d"
      using Cons.prems(4) x by (auto simp: claim_fits_def)
    obtain d' where d': "d' \<in> set (vals (ni_deviceMap n1))" "d_uuid d' = d_uuid d"
      "\<And>q. dev_free q d' = dev_free q d - claims_on q (d_uuid d) [c]" using spent_card [OF n1(4) d(1)] by metis
    have "dc_Uuid c \<noteq> d_uuid d" using Cons.prems(3) x d(2) by auto
    then have "fits x d'" using d(3) d'(3) by (simp add: fits_def)
    then show ?thesis using d' d(2) by (auto simp: claim_fits_def)
  qed
  then obtain n' where n': "addContainerAllocate cs n1 = (None, n')" "node_ok n'" "ledger n1 \<Longrightarrow> ledger n'"
    "spent (\<lambda>q u. claims_on q u cs) n1 n'"
    using Cons.IH [OF _ n1(2)] Cons.prems(3) by auto
  have "spent (\<lambda>q u. claims_on q u [c] + claims_on q u cs) n n'" by (rule spent_trans [OF n1(4) n'(4)])
  then show ?case using n1 n' by (intro Cons.prems(1) [of n']) auto
qed

section \<open>A concurrent pass\<close>

definition needs_ok :: "node_info \<Rightarrow> container_need list \<Rightarrow> bool" where
  "needs_ok n needs \<longleftrightarrow>
     (\<forall>need \<in> set needs. 0 < cn_Number need \<and> 0 \<le> fst (need_amounts n need) \<and> 0 \<le> snd (need_amounts n need))"

lemma needs_ok_reset: "resetResourceUsage n' = resetResourceUsage n \<Longrightarrow> needs_ok n' needs = needs_ok n needs"
  unfolding needs_ok_def by (simp add: reset_fields(6) [of n' n])

text \<open>
  The claim of a container: one claim of the resolved size on each of as many different
  schedulable cards as it asked for. The used counters of the cards do not matter for it.
\<close>

definition wanted :: "allocation_request \<Rightarrow> device \<Rightarrow> bool" where
  "wanted req d \<longleftrightarrow>
     (ar_CheckDeviceType req \<longrightarrow> CheckDeviceType (p_Annotations (ar_Pod req)) (d_deviceType d)) \<and>
     (ar_CheckDeviceUuid req \<longrightarrow> CheckDeviceUuid (p_Annotations (ar_Pod req)) (d_uuid d))"

lemma wanted_untold: "wanted (untold req) = wanted req"
  by (simp add: wanted_def untold_def fun_eq_iff)

definition serves :: "node_info \<Rightarrow> allocation_request \<Rightarrow> container_need \<Rightarrow> container_claim \<Rightarrow> bool" where
  "serves n req need cc \<longleftrightarrow> cdc_Name cc = cn_Name need \<and>
     (\<exists>ds. (\<forall>d \<in> set ds. wanted req d) \<and> set ds \<subseteq> set (cards (resetResourceUsage n)) \<and> distinct (map d_uuid ds) \<and> int (length ds) = cn_Number need \<and>
        mset (cdc_DeviceClaims cc) =
          mset (map (claim_for (fst (need_amounts (resetResourceUsage n) need)) (snd (need_amounts (resetResourceUsage n) need))) ds))"

lemma serves_reset:
  "resetResourceUsage n' = resetResourceUsage n \<Longrightarrow> untold req' = untold req \<Longrightarrow> serves n' req' = serves n req"
  using wanted_untold [of req] wanted_untold [of req'] by (simp add: serves_def fun_eq_iff)

lemma place_one_serves:
  assumes "node_ok n" "links_ok n" "needs_ok n [need]" "place_one e n req need w = Placed claim"
  shows "distinct (map dc_Uuid (cdc_DeviceClaims claim))" "\<forall>c \<in> set (cdc_DeviceClaims claim). claim_fits n c"
    "serves n req need claim"
proof -
  obtain c m where cm: "need_amounts n need = (c, m)" by fastforce
  have ok: "0 < cn_Number need" "0 \<le> c" "0 \<le> m" using assms(3) cm by (auto simp: needs_ok_def)
  obtain ds where ds: "claim = named_claim need (buildClaims ds c m)" "int (length ds) = cn_Number need"
    "distinct (map d_uuid ds)" "set ds \<subseteq> set (gated_devices n req c m w)"
    using place_one_Placed [OF assms(1,2) ok(1) assms(4) cm] by metis
  have "map dc_Uuid (buildClaims ds c m) = map d_uuid ds" by (simp add: buildClaims_map claim_for_def)
  then show "distinct (map dc_Uuid (cdc_DeviceClaims claim))" by (simp add: ds(1,3) named_claim_def)
  have g: "d \<in> set (cards n)" "claim_fits n (claim_for c m d)" if "d \<in> set ds" for d
  proof -
    have gd: "d \<in> set (gated_devices n req c m w)" using ds(4) that by blast
    note card = gated_card [OF assms(1) gd ok(2,3)]
    then show "d \<in> set (cards n)" by blast
    have "dc_Uuid (claim_for c m d) = d_uuid d" by (simp add: claim_for_def)
    then show "claim_fits n (claim_for c m d)" unfolding claim_fits_def using card(1,4) by (intro bexI [of _ d]) auto
  qed
  then show "\<forall>c \<in> set (cdc_DeviceClaims claim). claim_fits n c" by (auto simp: ds(1) buildClaims_map)
  have r: "ResetUsed d \<in> set (cards (resetResourceUsage n))" if "d \<in> set ds" for d
    using g(1) [OF that] by (force simp: cards_def vals_def resetResourceUsage_def schedulable_def ResetUsed_def)
  have "claim_for c m \<circ> ResetUsed = claim_for c m" "d_uuid \<circ> ResetUsed = d_uuid"
    by (auto simp: claim_for_def ResetUsed_def GetTotalMemory_def)
  moreover have "wanted req (ResetUsed d)" if "d \<in> set ds" for d
  proof -
    have "device_gate req c m d = None" using that ds(4) by (auto simp: gated_devices_def)
    from device_gateD(6,7) [OF this] show ?thesis by (simp add: wanted_def ResetUsed_def)
  qed
  ultimately show "serves n req need claim"
    unfolding serves_def using r ds(1-3) cm
    by (intro conjI exI [of _ "map ResetUsed ds"]) (auto simp: buildClaims_map)
qed

lemma topology_choice_not_Failed: "topology_choice e n req store k c m \<noteq> Failed err"
  by (simp add: topology_choice_def Let_def split: option.split)

lemma place_one_not_Failed: "place_one e n req need w \<noteq> Failed err"
  using topology_choice_not_Failed by (simp add: place_one_def Let_def split: prod.split outcome.split)

lemma view_eqD: "view s' = view s \<Longrightarrow> as_nodeInfo s' = as_nodeInfo s \<and> untold (as_request s') = untold (as_request s)"
  by (simp add: view_def)

lemma accumulate_one:
  assumes "node_ok (as_nodeInfo s)" "links_ok (as_nodeInfo s)" "needs_ok (as_nodeInfo s) [need]"
    and "allocateAndAccumulate e opts need w s = (r, s')"
  shows "(\<exists>rsn. r = Refused rsn) \<or>
    (\<exists>claim. r = Placed claim \<and> serves (as_nodeInfo s) (as_request s) need claim \<and> node_ok (as_nodeInfo s') \<and>
       (ledger (as_nodeInfo s) \<longrightarrow> ledger (as_nodeInfo s')) \<and> untold (as_request s') = untold (as_request s) \<and>
       spent (\<lambda>q u. claims_on q u (cdc_DeviceClaims claim)) (as_nodeInfo s) (as_nodeInfo s'))"
proof -
  obtain r1 s1 where one: "allocateOne e opts need w s = (r1, s1)" by fastforce
  have r1: "r1 = place_one e (as_nodeInfo s) (as_request s) need w" and v: "view s1 = view s"
    using place_one_eq [of e opts need w s] one by auto
  show ?thesis
  proof (cases r1)
    case (Placed claim)
    note f = place_one_serves [OF assms(1-3) Placed [unfolded r1]]
    obtain n' where "addContainerAllocate (cdc_DeviceClaims claim) (as_nodeInfo s) = (None, n')" "node_ok n'"
      "ledger (as_nodeInfo s) \<Longrightarrow> ledger n'" "spent (\<lambda>q u. claims_on q u (cdc_DeviceClaims claim)) (as_nodeInfo s) n'"
      using addContainer_fits [OF assms(1) f(1,2)] by metis
    then show ?thesis
      using assms(4) one Placed view_eqD [OF v] f(3) by (auto simp: allocateAndAccumulate_def and_then_def)
  next
    case (Refused rsn)
    then show ?thesis using assms(4) one v by (auto simp: allocateAndAccumulate_def and_then_def)
  next
    case (Failed err)
    then show ?thesis using r1 place_one_not_Failed by metis
  qed
qed

definition served :: "node_info \<Rightarrow> allocation_request \<Rightarrow> container_need \<Rightarrow> string \<times> container_claim \<Rightarrow> bool" where
  "served n req need x \<longleftrightarrow> fst x = cn_Name need \<and> serves n req need (snd x)"

lemma accumulate_all:
  assumes "node_ok (as_nodeInfo s)" "links_ok (as_nodeInfo s)" "needs_ok (as_nodeInfo s) needs"
    and "accumulate_needs e opts needs s = (r, s')"
  shows "(\<exists>rsn. r = Refused rsn) \<or>
    (\<exists>claims. r = Placed claims \<and> list_all2 (served (as_nodeInfo s) (as_request s)) needs claims \<and>
       node_ok (as_nodeInfo s') \<and> (ledger (as_nodeInfo s) \<longrightarrow> ledger (as_nodeInfo s')) \<and>
       untold (as_request s') = untold (as_request s) \<and>
       spent (\<lambda>q u. usage_on q u (map snd claims)) (as_nodeInfo s) (as_nodeInfo s'))"
  using assms
proof (induction needs arbitrary: s r s')
  case Nil
  then show ?case using spent_refl by auto
next
  case (Cons need needs)
  obtain r1 s1 where one: "allocateAndAccumulate e opts need None s = (r1, s1)" by fastforce
  have "needs_ok (as_nodeInfo s) [need]" using Cons.prems(3) by (simp add: needs_ok_def)
  from accumulate_one [OF Cons.prems(1,2) this one]
  show ?case
  proof (elim disjE exE conjE)
    fix rsn assume "r1 = Refused rsn"
    then show ?thesis using Cons.prems(4) one by (auto simp: and_then_def)
  next
    fix claim assume c: "r1 = Placed claim" "serves (as_nodeInfo s) (as_request s) need claim" "node_ok (as_nodeInfo s1)"
      "ledger (as_nodeInfo s) \<longrightarrow> ledger (as_nodeInfo s1)" "untold (as_request s1) = untold (as_request s)"
      "spent (\<lambda>q u. claims_on q u (cdc_DeviceClaims claim)) (as_nodeInfo s) (as_nodeInfo s1)"
    have reset: "resetResourceUsage (as_nodeInfo s1) = resetResourceUsage (as_nodeInfo s)" using c(6) by (simp add: spent_def)
    have ok: "links_ok (as_nodeInfo s1)" "needs_ok (as_nodeInfo s1) needs"
      using links_ok_reset [OF reset] needs_ok_reset [OF reset] Cons.prems(2,3) by (auto simp: needs_ok_def)
    have sv: "served (as_nodeInfo s1) (as_request s1) = served (as_nodeInfo s) (as_request s)" by (simp add: served_def fun_eq_iff serves_reset [OF reset c(5)])
    obtain r2 s2 where two: "accumulate_needs e opts needs s1 = (r2, s2)" by fastforce
    show ?thesis using Cons.IH [OF c(3) ok two] unfolding sv
    proof (elim disjE exE conjE)
      fix rsn assume "r2 = Refused rsn"
      then show ?thesis using Cons.prems(4) one c(1) two by (auto simp: and_then_def)
    next
      fix claims assume d: "r2 = Placed claims" "list_all2 (served (as_nodeInfo s) (as_request s)) needs claims"
        "node_ok (as_nodeInfo s2)" "ledger (as_nodeInfo s1) \<longrightarrow> ledger (as_nodeInfo s2)"
        "untold (as_request s2) = untold (as_request s1)"
        "spent (\<lambda>q u. usage_on q u (map snd claims)) (as_nodeInfo s1) (as_nodeInfo s2)"
      moreover have "served (as_nodeInfo s) (as_request s) need (cn_Name need, claim)" using c(2) by (simp add: served_def)
      ultimately show ?thesis using Cons.prems(4) one c two spent_trans [OF c(6) d(6)] by (auto simp: and_then_def)
    qed
  qed
qed

section \<open>Sequential init containers\<close>

lemma init_one:
  assumes "node_ok (as_nodeInfo s)" "links_ok (as_nodeInfo s)" "needs_ok (as_nodeInfo s) [need]"
    and "allocate_init e opts preferred need s = (r, s')"
  shows "view s' = view s \<and> ((\<exists>rsn. r = Refused rsn) \<or> (\<exists>claim. r = Placed claim \<and> serves (as_nodeInfo s) (as_request s) need claim \<and>
    (\<forall>q. \<forall>d \<in> set (vals (ni_deviceMap (as_nodeInfo s))). claims_on q (d_uuid d) (cdc_DeviceClaims claim) \<le> dev_free q d)))"
proof -
  obtain w t where w: "allocateOne e opts need w t = (r, s')" and t: "view t = view s"
  proof (cases "preferred = {}")
    case True
    then show thesis using assms(4) that [of None s] by (simp add: allocate_init_def)
  next
    case False
    obtain r1 s1 where one: "allocateOne e opts need (Some preferred) s = (r1, s1)" by fastforce
    have "view s1 = view s" using place_one_eq(2) [of e opts need "Some preferred" s] one by simp
    then show thesis
      using False assms(4) one that [of "Some preferred" s] that [of None s1]
      by (cases r1) (auto simp: allocate_init_def)
  qed
  have n: "as_nodeInfo t = as_nodeInfo s" using view_eqD [OF t] by simp
  have r: "r = place_one e (as_nodeInfo s) (as_request t) need w" and v: "view s' = view s"
    using place_one_eq [of e opts need w t] w t n by auto
  show ?thesis
  proof (cases r)
    case (Placed claim)
    note f = place_one_serves [OF assms(1-3) Placed [unfolded r]]
    obtain n' where "node_ok n'" "spent (\<lambda>q u. claims_on q u (cdc_DeviceClaims claim)) (as_nodeInfo s) n'"
      using addContainer_fits [OF assms(1) f(1,2)] by metis
    moreover have "serves (as_nodeInfo s) (as_request s) need claim"
      using f(3) serves_reset [of "as_nodeInfo s" "as_nodeInfo s" "as_request t" "as_request s"] view_eqD [OF t] by simp
    ultimately show ?thesis using spent_bound Placed v by blast
  qed (use r v place_one_not_Failed in \<open>auto simp: r\<close>)
qed

definition within_free :: "node_info \<Rightarrow> container_claim \<Rightarrow> bool" where
  "within_free n cc \<longleftrightarrow>
     (\<forall>q. \<forall>d \<in> set (vals (ni_deviceMap n)). claims_on q (d_uuid d) (cdc_DeviceClaims cc) \<le> dev_free q d)"

lemma init_all:
  assumes "node_ok (as_nodeInfo s)" "links_ok (as_nodeInfo s)" "needs_ok (as_nodeInfo s) needs"
    and "allocate_inits e opts preferred needs s = (r, s')"
  shows "view s' = view s \<and> ((\<exists>rsn. r = Refused rsn) \<or>
    (\<exists>claims. r = Placed claims \<and> list_all2 (served (as_nodeInfo s) (as_request s)) needs claims \<and>
       (\<forall>x \<in> set claims. within_free (as_nodeInfo s) (snd x))))"
  using assms
proof (induction needs arbitrary: s r s')
  case (Cons need needs)
  obtain r1 s1 where one: "allocate_init e opts preferred need s = (r1, s1)" by fastforce
  have "needs_ok (as_nodeInfo s) [need]" and tl: "needs_ok (as_nodeInfo s) needs"
    using Cons.prems(3) by (simp_all add: needs_ok_def)
  from init_one [OF Cons.prems(1,2) this(1) one]
  have v: "view s1 = view s" and c: "(\<exists>rsn. r1 = Refused rsn) \<or> (\<exists>claim. r1 = Placed claim \<and>
      serves (as_nodeInfo s) (as_request s) need claim \<and> within_free (as_nodeInfo s) claim)"
    by (auto simp: within_free_def)
  have n: "as_nodeInfo s1 = as_nodeInfo s" using view_eqD [OF v] by simp
  have sv: "served (as_nodeInfo s) (as_request s1) = served (as_nodeInfo s) (as_request s)"
    using serves_reset [of "as_nodeInfo s" "as_nodeInfo s" "as_request s1" "as_request s"] view_eqD [OF v]
    by (simp add: served_def fun_eq_iff)
  obtain r2 s2 where two: "allocate_inits e opts preferred needs s1 = (r2, s2)" by fastforce
  have ih: "view s2 = view s1 \<and> ((\<exists>rsn. r2 = Refused rsn) \<or>
    (\<exists>claims. r2 = Placed claims \<and> list_all2 (served (as_nodeInfo s) (as_request s)) needs claims \<and>
       (\<forall>x \<in> set claims. within_free (as_nodeInfo s) (snd x))))"
    using Cons.IH [of s1] Cons.prems(1,2) tl two unfolding n sv by blast
  from c show ?case
  proof (elim disjE exE conjE)
    fix rsn assume "r1 = Refused rsn"
    then show ?thesis using Cons.prems(4) one v by (auto simp: and_then_def)
  next
    fix claim assume "r1 = Placed claim" "serves (as_nodeInfo s) (as_request s) need claim" "within_free (as_nodeInfo s) claim"
    moreover from this have "served (as_nodeInfo s) (as_request s) need (cn_Name need, claim)" by (simp add: served_def)
    ultimately show ?thesis using ih Cons.prems(4) one two v by (auto simp: and_then_def)
  qed
qed simp

section \<open>The claims of a pod by container\<close>

lemma served_map:
  assumes "list_all2 (served n req) needs claims" "distinct (map cn_Name needs)"
    and f_def: "f = (\<lambda>need. the (map_of claims (cn_Name need)))"
  shows "claims = map (\<lambda>need. (cn_Name need, f need)) needs" "\<forall>need \<in> set needs. serves n req need (f need)"
    "map fst claims = map cn_Name needs"
proof -
  have len: "length claims = length needs" using assms(1) by (simp add: list_all2_lengthD)
  have nth: "served n req (needs ! i) (claims ! i)" if "i < length needs" for i using assms(1) that by (rule list_all2_nthD)
  show fst: "map fst claims = map cn_Name needs"
    using len nth by (intro nth_equalityI) (auto simp: served_def)
  have f: "f (needs ! i) = snd (claims ! i)" if "i < length needs" for i
  proof -
    have "map_of claims (fst (claims ! i)) = Some (snd (claims ! i))"
      using fst assms(2) len that by (intro map_of_is_SomeI) auto
    then show ?thesis using nth [OF that] by (simp add: f_def served_def)
  qed
  show "claims = map (\<lambda>need. (cn_Name need, f need)) needs"
    using len nth f by (intro nth_equalityI) (auto simp: served_def prod_eq_iff)
  show "\<forall>need \<in> set needs. serves n req need (f need)" using nth f by (auto simp: served_def in_set_conv_nth)
qed

lemma usage_on_map: "usage_on q u (map f needs) = sum_list (map (\<lambda>need. claims_on q u (cdc_DeviceClaims (f need))) needs)"
  by (simp add: usage_on_def comp_def)

lemma map_of_updates: "distinct (map fst xs) \<Longrightarrow> map_of (foldl (\<lambda>m (k, v). AList.update k v m) m0 xs) x =
    (case map_of xs x of None \<Rightarrow> map_of m0 x | Some v \<Rightarrow> Some v)"
proof (induction xs arbitrary: m0)
  case (Cons a xs)
  obtain k v where a: "a = (k, v)" by (cases a)
  have "map_of xs k = None" using Cons.prems by (simp add: a map_of_eq_None_iff)
  then show ?case using Cons by (auto simp: a map_of_update split: option.split)
qed simp

lemma assemble_all:
  "\<forall>need \<in> set needs. map_of m (cn_Name need) = Some (f need) \<Longrightarrow> assemble m needs = Placed (map f needs)"
  by (induction needs) auto

text \<open>The needs of a pod: each container is an init container or an app container.\<close>

definition kinds_ok :: "container_need list \<Rightarrow> bool" where
  "kinds_ok needs \<longleftrightarrow>
     (\<forall>x \<in> set needs. cn_Kind x = ContainerKindInit \<or> (cn_Kind x = ContainerKindApp \<and> \<not> cn_Restartable x))"

lemma kinds_filter:
  assumes "kinds_ok needs"
  shows "filter is_sidecar needs = filter cn_Restartable needs"
    "filter is_app needs = filter (\<lambda>x. \<not> is_sequential x \<and> \<not> cn_Restartable x) needs"
  using assms unfolding kinds_ok_def by (auto simp: is_sidecar_def is_app_def is_sequential_def intro!: filter_cong)

text \<open>Every container has its claim and the peak of the pod's lifecycle fits every card.\<close>

definition pod_within :: "node_info \<Rightarrow> allocation_request \<Rightarrow> container_need list \<Rightarrow> (container_need \<Rightarrow> container_claim) \<Rightarrow> bool" where
  "pod_within n req needs f \<longleftrightarrow> (\<forall>need \<in> set needs. serves n req need (f need)) \<and>
     (\<forall>q. \<forall>d \<in> set (vals (ni_deviceMap n)).
        lifecycle_peak is_sequential cn_Restartable (\<lambda>need. claims_on q (d_uuid d) (cdc_DeviceClaims (f need))) needs
        \<le> dev_free q d)"

lemma reset_card_memory:
  assumes "node_ok n" "d \<in> set (cards (resetResourceUsage n))"
  shows "0 \<le> GetTotalMemory d"
proof -
  have "d \<in> set (vals (ni_deviceMap (resetResourceUsage n)))" using assms(2) by (auto simp: cards_def)
  then obtain d0 where "d0 \<in> set (vals (ni_deviceMap n))" "d = ResetUsed d0"
    by (force simp: resetResourceUsage_def vals_def)
  moreover from this have "dev_ok d0" using node_okD(3) [OF assms(1)] by (auto simp: vals_def)
  ultimately show ?thesis using dev_free_range [of d0 Memory] by (auto simp: ResetUsed_def GetTotalMemory_def)
qed

lemma claims_served_nonneg:
  assumes "serves n req need cc" "needs_ok n [need]" "node_ok n" "x \<in> set (cdc_DeviceClaims cc)"
  shows "0 \<le> dc_Cores x \<and> 0 \<le> dc_Memory x"
proof -
  obtain ds c m where ds: "set ds \<subseteq> set (cards (resetResourceUsage n))" "mset (cdc_DeviceClaims cc) = mset (map (claim_for c m) ds)"
    "need_amounts n need = (c, m)" using assms(1) by (auto simp: serves_def) (metis prod.collapse)
  then have "set (cdc_DeviceClaims cc) = claim_for c m ` set ds" by (metis set_map set_mset_mset)
  then obtain d where d: "d \<in> set ds" "x = claim_for c m d" using assms(4) by auto
  have "0 \<le> GetTotalMemory d" using reset_card_memory [OF assms(3)] d(1) ds(1) by blast
  then show ?thesis using assms(2) ds(3) d(2) by (auto simp: needs_ok_def claim_for_def)
qed

lemma claims_on_served: "serves n req need cc \<Longrightarrow> needs_ok n [need] \<Longrightarrow> node_ok n \<Longrightarrow> 0 \<le> claims_on q u (cdc_DeviceClaims cc)"
  using claims_served_nonneg by (intro claims_on_nonneg) blast

lemma served_cards:
  assumes "serves n req need cc" "x \<in> set (cdc_DeviceClaims cc)"
  shows "\<exists>d \<in> set (vals (ni_deviceMap n)). d_uuid d = dc_Uuid x \<and> schedulable d \<and> wanted req d"
proof -
  obtain ds c m where ds: "\<forall>d \<in> set ds. wanted req d" "set ds \<subseteq> set (cards (resetResourceUsage n))"
    "mset (cdc_DeviceClaims cc) = mset (map (claim_for c m) ds)" using assms(1) by (auto simp: serves_def)
  then have "set (cdc_DeviceClaims cc) = claim_for c m ` set ds" by (metis set_map set_mset_mset)
  then obtain d where d: "d \<in> set ds" "x = claim_for c m d" using assms(2) by auto
  then have "d \<in> set (cards (resetResourceUsage n))" using ds(2) by blast
  then obtain d0 where "d0 \<in> set (vals (ni_deviceMap n))" "d = ResetUsed d0" "schedulable d"
    by (force simp: resetResourceUsage_def vals_def cards_def)
  moreover have "wanted req d" using ds(1) d(1) by blast
  ultimately show ?thesis
    using d(2) by (intro bexI [of _ d0]) (auto simp: claim_for_def ResetUsed_def wanted_def schedulable_def)
qed

lemma and_then_simps [simp]:
  "and_then (Placed x, s) f = f x s" "and_then (Refused rsn, s) f = (Refused rsn, s)" "and_then (Failed err, s) f = (Failed err, s)"
  by (simp_all add: and_then_def)

lemma and_then_not_refused:
  assumes "and_then (r1, s1) f = (r, s')" "\<And>rsn. r \<noteq> Refused rsn"
  shows "r1 \<noteq> Refused rsn"
  using assms by (metis and_then_simps(2) prod.inject)

lemma fast_within:
  assumes "node_ok (as_nodeInfo s)" "links_ok (as_nodeInfo s)" "needs_ok (as_nodeInfo s) needs"
    and "needs = ar_Containers (as_request s)" "distinct (map cn_Name needs)"
    and "allocate_fast e opts s = (r, s')" "\<And>rsn. r \<noteq> Refused rsn"
  obtains f where "r = Placed (map f needs)" "pod_within (as_nodeInfo s) (as_request s) needs f" "untold (as_request s') = untold (as_request s)"
    "ni_node (as_nodeInfo s') = ni_node (as_nodeInfo s)"
proof -
  let ?n = "as_nodeInfo s"
  obtain r1 s1 where acc: "accumulate_needs e opts needs s = (r1, s1)" by fastforce
  note run = assms(6) [unfolded allocate_fast_def assms(4) [symmetric] acc]
  have "\<And>rsn. r1 \<noteq> Refused rsn" by (rule and_then_not_refused [OF run assms(7)])
  then obtain claims where c: "r1 = Placed claims" "list_all2 (served ?n (as_request s)) needs claims" "node_ok (as_nodeInfo s1)"
    "untold (as_request s1) = untold (as_request s)" "spent (\<lambda>q u. usage_on q u (map snd claims)) ?n (as_nodeInfo s1)"
    using accumulate_all [OF assms(1-3) acc] by blast
  define f where "f = (\<lambda>need :: container_need. the (map_of claims (cn_Name need)))"
  note m = served_map [OF c(2) assms(5) f_def]
  have snd: "map snd claims = map f needs" by (subst m(1)) simp
  have "pod_within ?n (as_request s) needs f"
    unfolding pod_within_def
  proof (intro conjI allI ballI)
    show "serves ?n (as_request s) need (f need)" if "need \<in> set needs" for need using m(2) that by blast
    fix q d assume d: "d \<in> set (vals (ni_deviceMap ?n))"
    let ?w = "\<lambda>need. claims_on q (d_uuid d) (cdc_DeviceClaims (f need))"
    have nn: "\<forall>x \<in> set needs. 0 \<le> ?w x"
      using m(2) claims_on_served [OF _ _ assms(1)] assms(3) by (auto simp: needs_ok_def)
    have "lifecycle_peak is_sequential cn_Restartable ?w needs \<le> sum_list (map ?w needs)" by (rule needs_life.peak_range(2) [OF nn])
    also have "\<dots> \<le> dev_free q d"
      using spent_bound [OF c(5,3) d, of q] unfolding snd usage_on_map .
    finally show "lifecycle_peak is_sequential cn_Restartable ?w needs \<le> dev_free q d" .
  qed
  moreover have "ni_node (as_nodeInfo s1) = ni_node ?n" by (rule reset_fields(5) [OF c(5) [unfolded spent_def, THEN conjunct2]])
  moreover have "r = Placed (map f needs)" "s' = s1" using run by (simp_all add: c(1) snd)
  ultimately show thesis using c(4) by (intro that) simp_all
qed

lemma peak_bound:
  assumes "S + sum_list (map w (filter (\<lambda>x. \<not> is_sequential x \<and> \<not> cn_Restartable x) needs)) \<le> b"
    and "\<And>x. x \<in> set needs \<Longrightarrow> is_sequential x \<Longrightarrow> S + w x \<le> b" "S \<le> b"
    and "sum_list (map w (filter cn_Restartable needs)) = S"
  shows "lifecycle_peak is_sequential cn_Restartable w needs \<le> b"
proof -
  have "S + foldl max 0 (map w (filter is_sequential needs)) \<le> b"
    using assms(2,3) foldl_max_cases [of 0 "map w (filter is_sequential needs)"] by auto
  then show ?thesis using assms(1,4) by (simp add: lifecycle_peak_def max_def)
qed

text \<open>The three passes of a pod with sequential init containers, when none of them refuses.\<close>

lemma two_pass_passes:
  assumes "node_ok (as_nodeInfo s)" "links_ok (as_nodeInfo s)" "needs_ok (as_nodeInfo s) needs"
    and "needs = ar_Containers (as_request s)" "allocate_two_pass e opts s = (r, s')" "\<And>rsn. r \<noteq> Refused rsn"
  obtains sidecars apps inits n1 n2 where
    "list_all2 (served (as_nodeInfo s) (as_request s)) (filter is_sidecar needs) sidecars"
    "spent (\<lambda>q u. usage_on q u (map snd sidecars)) (as_nodeInfo s) n1" "node_ok n1"
    "list_all2 (served (as_nodeInfo s) (as_request s)) (filter is_app needs) apps"
    "spent (\<lambda>q u. usage_on q u (map snd apps)) n1 n2" "node_ok n2"
    "list_all2 (served (as_nodeInfo s) (as_request s)) (filter is_sequential needs) inits" "\<forall>x \<in> set inits. within_free n1 (snd x)"
    "r = assemble (foldl (\<lambda>m (name, claim). AList.update name claim m) [] (sidecars @ apps @ inits)) needs"
    "untold (as_request s') = untold (as_request s)" "as_nodeInfo s' = n1"
proof -
  let ?n = "as_nodeInfo s"
  let ?side = "filter is_sidecar needs" and ?app = "filter is_app needs" and ?seq = "filter is_sequential needs"
  have sub: "needs_ok ?n (filter P needs)" for P using assms(3) by (simp add: needs_ok_def)
  note run = assms(5) [unfolded allocate_two_pass_def Let_def assms(4) [symmetric]]
  obtain r1 s1 where one: "accumulate_needs e opts ?side s = (r1, s1)" by fastforce
  have "\<And>rsn. r1 \<noteq> Refused rsn" by (rule and_then_not_refused [OF run [unfolded one] assms(6)])
  then obtain sidecars where c: "r1 = Placed sidecars" "list_all2 (served ?n (as_request s)) ?side sidecars" "node_ok (as_nodeInfo s1)"
    "untold (as_request s1) = untold (as_request s)" "spent (\<lambda>q u. usage_on q u (map snd sidecars)) ?n (as_nodeInfo s1)"
    using accumulate_all [OF assms(1,2) sub one] by blast
  let ?n1 = "as_nodeInfo s1"
  have reset1: "resetResourceUsage ?n1 = resetResourceUsage ?n" using c(5) by (simp add: spent_def)
  have ok1: "links_ok ?n1" "needs_ok ?n1 (filter P needs)" "served ?n1 (as_request s1) = served ?n (as_request s)" for P
    using links_ok_reset [OF reset1] needs_ok_reset [OF reset1] assms(2) sub
    by (simp_all add: served_def fun_eq_iff serves_reset [OF reset1 c(4)])
  obtain r2 s2 where two: "accumulate_needs e opts ?app s1 = (r2, s2)" by fastforce
  have "\<And>rsn. r2 \<noteq> Refused rsn" by (rule and_then_not_refused [OF run [unfolded one c(1) and_then_simps two] assms(6)])
  then obtain apps where d: "r2 = Placed apps" "list_all2 (served ?n (as_request s)) ?app apps" "node_ok (as_nodeInfo s2)"
    "untold (as_request s2) = untold (as_request s1)" "spent (\<lambda>q u. usage_on q u (map snd apps)) ?n1 (as_nodeInfo s2)"
    using accumulate_all [OF c(3) ok1(1,2) two] unfolding ok1(3) by blast
  have ok2: "served ?n1 (as_request s2) = served ?n (as_request s)"
    using c(4) d(4) by (simp add: served_def fun_eq_iff serves_reset [OF reset1])
  have restore: "RestoreUsage (SnapshotUsage ?n1) (as_nodeInfo s2) = ?n1"
    using restore_snapshot [OF node_okD(5) [OF c(3)]] d(5) by (simp add: spent_def)
  define s3 where "s3 = s2\<lparr>as_nodeInfo := ?n1\<rparr>"
  have s3: "as_nodeInfo s3 = ?n1" "as_request s3 = as_request s2" by (simp_all add: s3_def)
  obtain r4 s4 where four: "allocate_inits e opts (claim_uuids (sidecars @ apps)) ?seq s3 = (r4, s4)" by fastforce
  have last: "and_then (r4, s4) (\<lambda>inits s4. (assemble (foldl (\<lambda>m (name, claim). AList.update name claim m) []
      (sidecars @ apps @ inits)) needs, s4)) = (r, s')"
    using run by (simp add: one two c(1) d(1) restore s3_def [symmetric] four)
  then have "\<And>rsn. r4 \<noteq> Refused rsn" using assms(6) by (rule and_then_not_refused)
  then obtain inits where i: "view s4 = view s3" "r4 = Placed inits" "list_all2 (served ?n (as_request s)) ?seq inits"
    "\<forall>x \<in> set inits. within_free ?n1 (snd x)"
    using init_all [of s3 ?seq, OF _ _ _ four] c(3) ok1(1,2) unfolding s3 ok2 by blast
  from last have "r = assemble (foldl (\<lambda>m (name, claim). AList.update name claim m) [] (sidecars @ apps @ inits)) needs"
    "s' = s4" by (simp_all add: i(2))
  moreover have "untold (as_request s4) = untold (as_request s)" "as_nodeInfo s4 = ?n1"
    using view_eqD [OF i(1)] c(4) d(4) by (simp_all add: s3)
  ultimately show thesis using that [of sidecars ?n1 apps "as_nodeInfo s2" inits] c d i by blast
qed

lemma three_groups:
  assumes "kinds_ok needs" "distinct (map cn_Name needs)"
  defines "parts \<equiv> filter is_sidecar needs @ filter is_app needs @ filter is_sequential needs"
  shows "distinct (map cn_Name parts)" "set parts = set needs"
proof -
  have d: "distinct needs" "inj_on cn_Name (set needs)" using assms(2) by (auto simp: distinct_map)
  show s: "set parts = set needs"
    using assms(1) by (auto simp: parts_def kinds_ok_def is_sidecar_def is_app_def is_sequential_def)
  have "distinct parts" using d(1) by (auto simp: parts_def is_sidecar_def is_app_def is_sequential_def)
  then show "distinct (map cn_Name parts)" using d(2) s by (simp add: distinct_map)
qed

lemma passes_peak:
  assumes "kinds_ok needs" "d \<in> set (vals (ni_deviceMap n))"
    and "spent (\<lambda>q u. usage_on q u (map f (filter is_sidecar needs))) n n1" "node_ok n1"
    and "spent (\<lambda>q u. usage_on q u (map f (filter is_app needs))) n1 n2" "node_ok n2"
    and "\<And>x. x \<in> set needs \<Longrightarrow> is_sequential x \<Longrightarrow> within_free n1 (f x)"
  shows "lifecycle_peak is_sequential cn_Restartable (\<lambda>need. claims_on q (d_uuid d) (cdc_DeviceClaims (f need))) needs \<le> dev_free q d"
proof -
  let ?w = "\<lambda>need. claims_on q (d_uuid d) (cdc_DeviceClaims (f need))"
  let ?S = "sum_list (map ?w (filter is_sidecar needs))"
  obtain d1 where d1: "d1 \<in> set (vals (ni_deviceMap n1))" "d_uuid d1 = d_uuid d" "dev_free q d1 = dev_free q d - ?S"
    using spent_card [OF assms(3,2)] unfolding usage_on_map by metis
  have A: "?S + sum_list (map ?w (filter is_app needs)) \<le> dev_free q d"
    using spent_bound [OF assms(5,6) d1(1), of q] d1(2,3) by (simp add: usage_on_map)
  have I: "?S + ?w x \<le> dev_free q d" if "x \<in> set needs" "is_sequential x" for x
  proof -
    have "claims_on q (d_uuid d1) (cdc_DeviceClaims (f x)) \<le> dev_free q d1"
      using assms(7) [OF that] d1(1) by (simp add: within_free_def)
    then show ?thesis using d1(2,3) by simp
  qed
  have "?S \<le> dev_free q d" using spent_bound [OF assms(3,4,2), of q] by (simp add: usage_on_map)
  then show ?thesis using A I unfolding kinds_filter [OF assms(1)] by (intro peak_bound) auto
qed

lemma two_pass_within:
  assumes "node_ok (as_nodeInfo s)" "links_ok (as_nodeInfo s)" "needs_ok (as_nodeInfo s) needs"
    and "needs = ar_Containers (as_request s)" "distinct (map cn_Name needs)" "kinds_ok needs"
    and "allocate_two_pass e opts s = (r, s')" "\<And>rsn. r \<noteq> Refused rsn"
  obtains f where "r = Placed (map f needs)" "pod_within (as_nodeInfo s) (as_request s) needs f" "untold (as_request s') = untold (as_request s)"
    "ni_node (as_nodeInfo s') = ni_node (as_nodeInfo s)"
proof -
  let ?n = "as_nodeInfo s"
  let ?side = "filter is_sidecar needs" and ?app = "filter is_app needs" and ?seq = "filter is_sequential needs"
  obtain sidecars apps inits n1 n2 where c: "list_all2 (served ?n (as_request s)) ?side sidecars"
    "spent (\<lambda>q u. usage_on q u (map snd sidecars)) ?n n1" "node_ok n1"
    and d: "list_all2 (served ?n (as_request s)) ?app apps" "spent (\<lambda>q u. usage_on q u (map snd apps)) n1 n2" "node_ok n2"
    and i: "list_all2 (served ?n (as_request s)) ?seq inits" "\<forall>x \<in> set inits. within_free n1 (snd x)"
    and r: "r = assemble (foldl (\<lambda>m (name, claim). AList.update name claim m) [] (sidecars @ apps @ inits)) needs"
    and st: "untold (as_request s') = untold (as_request s)" "as_nodeInfo s' = n1"
    using two_pass_passes [OF assms(1-4,7,8)] .
  let ?parts = "?side @ ?app @ ?seq" and ?total = "sidecars @ apps @ inits"
  note g = three_groups [OF assms(6,5)]
  have all: "list_all2 (served ?n (as_request s)) ?parts ?total" using c(1) d(1) i(1) by (intro list_all2_appendI)
  define f where "f = (\<lambda>need :: container_need. the (map_of ?total (cn_Name need)))"
  note m = served_map [OF all g(1) f_def]
  have len: "length sidecars = length ?side" "length apps = length ?app"
    using c(1) d(1) by (simp_all add: list_all2_lengthD)
  let ?h = "\<lambda>need. (cn_Name need, f need)"
  have "sidecars @ (apps @ inits) = map ?h ?side @ (map ?h ?app @ map ?h ?seq)" using m(1) by simp
  then have parts: "sidecars = map ?h ?side" "apps = map ?h ?app" "inits = map ?h ?seq"
    using len by auto
  have look: "map_of ?total (cn_Name need) = Some (f need)" if "need \<in> set needs" for need
  proof -
    have "cn_Name need \<in> fst ` set ?total" using that g(2) m(3) by (metis image_eqI list.set_map)
    then show ?thesis using map_of_eq_None_iff [of ?total "cn_Name need"] by (auto simp: f_def)
  qed
  have "distinct (map fst ?total)" using g(1) m(3) by metis
  from map_of_updates [OF this, of "[]"] look have "r = Placed (map f needs)"
    unfolding r by (intro assemble_all) (metis option.simps(5))
  moreover have "pod_within ?n (as_request s) needs f"
    unfolding pod_within_def
  proof (intro conjI allI ballI)
    show "serves ?n (as_request s) need (f need)" if "need \<in> set needs" for need using m(2) that g(2) by blast
    have snd: "map snd sidecars = map f ?side" "map snd apps = map f ?app" by (simp_all add: parts)
    have "within_free n1 (f x)" if "x \<in> set needs" "is_sequential x" for x using i(2) that by (auto simp: parts(3))
    then show "lifecycle_peak is_sequential cn_Restartable (\<lambda>need. claims_on q (d_uuid dev) (cdc_DeviceClaims (f need))) needs
        \<le> dev_free q dev" if "dev \<in> set (vals (ni_deviceMap ?n))" for q dev
      using that passes_peak [OF assms(6) _ c(2) [unfolded snd] c(3) d(2) [unfolded snd] d(3)] by blast
  qed
  moreover have "ni_node n1 = ni_node ?n" by (rule reset_fields(5) [OF c(2) [unfolded spent_def, THEN conjunct2]])
  ultimately show thesis using st by (intro that) simp_all
qed

end
