(* ===== verification/Alloc_Steps.thy ===== *)
theory Alloc_Steps
  imports Charging
begin

text \<open>
  What every run of the allocator keeps: a relation between the states before and after that
  choosing cards, charging claims and restoring a usage snapshot respect holds of the whole run.
\<close>

section \<open>The contract\<close>

locale alloc_relation =
  fixes R :: "alloc_state \<Rightarrow> alloc_state \<Rightarrow> bool" and e :: env and opts :: alloc_options
  assumes R_refl: "R s s"
    and R_trans: "R s t \<Longrightarrow> R t u \<Longrightarrow> R s u"
    and R_one: "R s (snd (allocateOne e opts need w s))"
    and R_charge: "R s (s\<lparr>as_nodeInfo := snd (addContainerAllocate claims (as_nodeInfo s))\<rparr>)"
    and R_restore: "R s (s\<lparr>as_nodeInfo := RestoreUsage snap (as_nodeInfo s)\<rparr>)"
begin

lemma R_and_then:
  assumes "R s (snd a)" "\<And>x t. R t (snd (f x t))"
  shows "R s (snd (and_then a f))"
proof -
  obtain r t where a: "a = (r, t)" by fastforce
  show ?thesis using assms R_trans by (cases r) (auto simp: a)
qed

lemma R_accumulate: "R s (snd (allocateAndAccumulate e opts need w s))"
  unfolding allocateAndAccumulate_def
proof (rule R_and_then [OF R_one])
  fix claim t
  show "R t (snd (case addContainerAllocate (cdc_DeviceClaims claim) (as_nodeInfo t) of
       (Some err, n) \<Rightarrow> (Failed (AccountingError err), t\<lparr>as_nodeInfo := n\<rparr>)
     | (None, n) \<Rightarrow> (Placed claim, t\<lparr>as_nodeInfo := n\<rparr>)))"
    using R_charge [of t "cdc_DeviceClaims claim"] by (auto split: prod.split option.split)
qed

lemma R_accumulate_needs: "R s (snd (accumulate_needs e opts needs s))"
proof (induction needs arbitrary: s)
  case (Cons need needs)
  then show ?case by (auto intro!: R_and_then R_accumulate R_refl)
qed (simp add: R_refl)

lemma R_init: "R s (snd (allocate_init e opts preferred need s))"
proof -
  obtain r t where one: "allocateOne e opts need (Some preferred) s = (r, t)" by fastforce
  have "R s t" using R_one [of s need "Some preferred"] by (simp add: one)
  then show ?thesis using R_one [of s need None] R_trans [OF _ R_one [of t need None]] by (cases r) (auto simp: allocate_init_def one)
qed

lemma R_inits: "R s (snd (allocate_inits e opts preferred needs s))"
proof (induction needs arbitrary: s)
  case (Cons need needs)
  then show ?case by (auto intro!: R_and_then R_init R_refl)
qed (simp add: R_refl)

lemma R_two_pass: "R s (snd (allocate_two_pass e opts s))"
  unfolding allocate_two_pass_def Let_def
  by (intro R_and_then R_accumulate_needs R_trans [OF R_restore R_inits]) (simp add: R_refl)

lemma R_Allocate: "R (clear_outcome s) (snd (Allocate e opts s))"
proof -
  have "R t (snd (allocate_fast e opts t))" for t
    unfolding allocate_fast_def by (intro R_and_then R_accumulate_needs) (simp add: R_refl)
  then show ?thesis unfolding Allocate_def Let_def by (intro R_and_then) (simp_all add: R_two_pass R_refl)
qed

end

section \<open>The request, up to the recorded outcome\<close>

interpretation kept_request: alloc_relation "\<lambda>s t. untold (as_request t) = untold (as_request s)" e opts for e opts
proof
  show "untold (as_request (snd (allocateOne e opts need w s))) = untold (as_request s)" for s need w
    using view_eqD [OF place_one_eq(2) [of e opts need w s]] by simp
qed simp_all

lemma keeps_Allocate: "untold (as_request (snd (Allocate e opts s))) = untold (as_request s)"
  using kept_request.R_Allocate [of e opts s] by (simp add: clear_outcome_def untold_def)

section \<open>The node, up to its usage\<close>

lemma reset_container: "resetResourceUsage (snd (addContainerAllocate cs n)) = resetResourceUsage n"
proof (induction cs n rule: addContainerAllocate.induct)
  case (2 c cs n)
  then show ?case using reset_charge [of n c] by (auto simp: or_keep_def split: sum.splits)
qed simp

lemma reset_restore: "resetResourceUsage (RestoreUsage snap n) = resetResourceUsage n"
proof -
  have "ResetUsed (case x of None \<Rightarrow> d | Some (num, cores, mem) \<Rightarrow> d\<lparr>d_usedNumber := num, d_usedCores := cores, d_usedMemory := mem\<rparr>) = ResetUsed d"
    for x d by (simp add: ResetUsed_def split: option.split)
  then show ?thesis by (simp add: resetResourceUsage_def RestoreUsage_def case_prod_beta)
qed

interpretation kept_node: alloc_relation "\<lambda>s t. resetResourceUsage (as_nodeInfo t) = resetResourceUsage (as_nodeInfo s)" e opts for e opts
proof
  show "resetResourceUsage (as_nodeInfo (snd (allocateOne e opts need w s))) = resetResourceUsage (as_nodeInfo s)" for s need w
    using view_eqD [OF place_one_eq(2) [of e opts need w s]] by simp
qed (simp_all add: reset_container reset_restore)

lemma reset_Allocate: "resetResourceUsage (as_nodeInfo (snd (Allocate e opts s))) = resetResourceUsage (as_nodeInfo s)"
  using kept_node.R_Allocate [of e opts s] by (simp add: clear_outcome_def)

section \<open>The trace of a simulating allocator\<close>

lemma quiet_effects:
  assumes "ao_simulate opts"
  shows "snd (handleTopologyFallback opts strict code mode a b d s) = s" "sendEventf opts ev s = s"
    "recordOutcome opts x y s = s" "reportLinkDowngrade opts plan k mode lowest s = s"
  using assms by (simp_all add: handleTopologyFallback_def sendEventf_def recordOutcome_def reportLinkDowngrade_def)

lemma quiet_one:
  assumes "ao_simulate opts"
  shows "snd (allocateOne e opts need w s) = s"
proof -
  have m: "snd (allocateByTopologyMode e opts store k c m t) = t" for store k c m t
    unfolding allocateByTopologyMode_def Let_def fallback_tail quiet_effects [OF assms]
    by (simp only: if_distrib [of snd] option.case_distrib [of snd] snd_conv if_cancel option.case_eq_if)
  have p: "snd (pickDeviceClaims e opts store k c m t) = t" for store k c m t
    by (simp add: pickDeviceClaims_def sortDeviceStore_def Let_def quiet_effects [OF assms] m)
  have keep: "snd (and_then a f) = snd a" if "\<And>x t. snd (f x t) = t" for a :: "device_claim list outcome \<times> alloc_state"
      and f :: "device_claim list \<Rightarrow> alloc_state \<Rightarrow> container_claim outcome \<times> alloc_state"
    using that by (simp add: and_then_def split: outcome.split)
  obtain c m where r: "resolveContainerNeeds need (nc_MemoryFactor (ni_config (as_nodeInfo s)))
      (ni_allSameCapacity (as_nodeInfo s)) (ni_maxDeviceMemory (as_nodeInfo s)) = (c, m)" by fastforce
  obtain store counts where f: "filterDevices (as_nodeInfo s) (as_request s) c m w = (store, counts)" by fastforce
  show ?thesis by (simp only: allocateOne_def Let_def r f prod.case keep p if_distrib [of snd] snd_conv if_cancel)
qed

interpretation simulated: alloc_relation
  "\<lambda>s t. ao_simulate opts \<longrightarrow> as_trace t = as_trace s \<and> ar_topoOutcome (as_request t) = ar_topoOutcome (as_request s)" e opts for e opts
  by unfold_locales (simp_all add: quiet_one)

lemma quiet_Allocate:
  "ao_simulate opts \<Longrightarrow> as_trace (snd (Allocate e opts s)) = as_trace s"
  "ao_simulate opts \<Longrightarrow> ar_topoOutcome (as_request (snd (Allocate e opts s))) = \<lparr>to_Result = [], to_Alignment = []\<rparr>"
  using simulated.R_Allocate [of opts e s] by (simp_all add: clear_outcome_def)

end
