(* ===== verification/Pod_Placement.thy ===== *)
theory Pod_Placement
  imports Alloc_Steps
begin

text \<open>
  What the allocator guarantees for a whole pod: the pod's containers never take more of a card
  than it has free at any moment of their lifecycle, no internal error is ever reported, and a
  dry run decides what a real run decides.
\<close>

section \<open>The pod\<close>

definition placed_pod :: "node_info \<Rightarrow> pod \<Rightarrow> pod_claim \<Rightarrow> pod" where
  "placed_pod n p pdc =
     InsertAnnotation (InsertAnnotation p PodVGPUPreAllocAnnotation (PodDeviceClaim_MarshalText pdc))
       PodPredicateNodeAnnotation (n_Name (ni_node n))"

definition needs_wf :: "node_info \<Rightarrow> container_need list \<Rightarrow> bool" where
  "needs_wf n needs \<longleftrightarrow> needs_ok n needs \<and> distinct (map cn_Name needs) \<and> kinds_ok needs"

lemma Allocate_within:
  assumes "node_ok (as_nodeInfo s)" "links_ok (as_nodeInfo s)" "needs_wf (as_nodeInfo s) (ar_Containers (as_request s))"
    and "Allocate e opts s = (r, s')"
  shows "(\<exists>rsn. r = Refused rsn) \<or>
    (\<exists>f. pod_within (as_nodeInfo s) (as_request s) (ar_Containers (as_request s)) f \<and>
       r = Placed (placed_pod (as_nodeInfo s) (ar_Pod (as_request s)) (map f (ar_Containers (as_request s)))))"
proof (cases "\<exists>rsn. r = Refused rsn")
  case False
  define s0 where "s0 = clear_outcome s"
  have s0: "as_nodeInfo s0 = as_nodeInfo s" "ar_Containers (as_request s0) = ar_Containers (as_request s)"
    "ar_Pod (as_request s0) = ar_Pod (as_request s)" by (simp_all add: s0_def clear_outcome_def)
  obtain r1 s1 where one: "(if ar_HasSequentialInit (as_request s0) then allocate_two_pass e opts s0 else allocate_fast e opts s0) = (r1, s1)"
    by fastforce
  note run = assms(4) [unfolded Allocate_def Let_def, folded s0_def, unfolded one]
  have nr: "\<And>rsn. r1 \<noteq> Refused rsn" using and_then_not_refused [OF run] False by blast
  have wf: "needs_ok (as_nodeInfo s0) (ar_Containers (as_request s0))" "distinct (map cn_Name (ar_Containers (as_request s0)))"
    "kinds_ok (ar_Containers (as_request s0))" using assms(3) by (simp_all add: needs_wf_def s0)
  have ok: "node_ok (as_nodeInfo s0)" "links_ok (as_nodeInfo s0)" using assms(1,2) by (simp_all add: s0)
  obtain f where f: "r1 = Placed (map f (ar_Containers (as_request s0)))" "pod_within (as_nodeInfo s0) (as_request s0) (ar_Containers (as_request s0)) f"
    "untold (as_request s1) = untold (as_request s0)" "ni_node (as_nodeInfo s1) = ni_node (as_nodeInfo s0)"
  proof (cases "ar_HasSequentialInit (as_request s0)")
    case True
    then have "allocate_two_pass e opts s0 = (r1, s1)" using one by simp
    from two_pass_within [OF ok wf(1) refl wf(2,3) this nr] show thesis using that .
  next
    case False
    then have "allocate_fast e opts s0 = (r1, s1)" using one by simp
    from fast_within [OF ok wf(1) refl wf(2) this nr] show thesis using that .
  qed
  have "ar_Pod (as_request s1) = ar_Pod (as_request s)" using f(3) s0(3) untold_simps(1) by metis
  then have "r = Placed (placed_pod (as_nodeInfo s) (ar_Pod (as_request s)) (map f (ar_Containers (as_request s))))"
    using run by (simp add: f(1) Let_def placed_pod_def f(4) s0)
  moreover have "untold (as_request s0) = untold (as_request s)" by (simp add: s0_def clear_outcome_def untold_def)
  then have "pod_within (as_nodeInfo s) (as_request s) (ar_Containers (as_request s)) f"
    using f(2) serves_reset [OF refl, of "as_request s0" "as_request s"] by (simp add: pod_within_def s0)
  ultimately show ?thesis by blast
qed simp

definition pod_names_ok :: "pod \<Rightarrow> bool" where
  "pod_names_ok p \<longleftrightarrow> distinct (map c_Name (p_InitContainers p @ p_Containers p))"

lemma need_of_container:
  "x \<in> set (container_need_of kind restartable c) \<Longrightarrow>
     cn_Name x = c_Name c \<and> cn_Kind x = kind \<and> cn_Restartable x = restartable \<and> 0 < cn_Number x"
  by (auto simp: container_need_of_def Let_def split: if_splits)

lemma pod_needs_class:
  assumes "pod_names_ok p" "x \<in> set (pod_needs p)"
  shows "cn_Name x \<in> sequential_names p \<longleftrightarrow> is_sequential x" "cn_Name x \<in> sidecar_names p \<longleftrightarrow> cn_Restartable x"
proof -
  have inj: "c_Name a = c_Name b \<Longrightarrow> a \<in> set (p_InitContainers p) \<Longrightarrow> b \<in> set (p_InitContainers p) \<Longrightarrow> a = b"
    and dis: "c_Name a = c_Name b \<Longrightarrow> a \<in> set (p_InitContainers p) \<Longrightarrow> b \<notin> set (p_Containers p)" for a b
    using assms(1) unfolding pod_names_ok_def map_append distinct_append by (auto simp: distinct_map inj_on_def)
  consider (init) c where "c \<in> set (p_InitContainers p)" "x \<in> set (container_need_of ContainerKindInit (c_Restartable c) c)"
    | (app) c where "c \<in> set (p_Containers p)" "x \<in> set (container_need_of ContainerKindApp False c)"
    using assms(2) by (auto simp: pod_needs_def)
  then have "(cn_Name x \<in> sequential_names p \<longleftrightarrow> is_sequential x) \<and> (cn_Name x \<in> sidecar_names p \<longleftrightarrow> cn_Restartable x)"
  proof cases
    case init
    then show ?thesis using need_of_container [OF init(2)] inj
      by (auto simp: sequential_names_def sidecar_names_def is_sequential_def image_iff)
  next
    case app
    then show ?thesis using need_of_container [OF app(2)] dis
      by (auto simp: sequential_names_def sidecar_names_def is_sequential_def image_iff)
  qed
  then show "cn_Name x \<in> sequential_names p \<longleftrightarrow> is_sequential x" "cn_Name x \<in> sidecar_names p \<longleftrightarrow> cn_Restartable x"
    by auto
qed

lemma kinds_pod_needs: "kinds_ok (pod_needs p)"
  unfolding kinds_ok_def by (auto simp: pod_needs_def dest!: need_of_container)

lemma distinct_pod_needs:
  assumes "pod_names_ok p"
  shows "distinct (map cn_Name (pod_needs p))"
proof -
  have n: "map cn_Name (container_need_of kind restartable c) = [] \<or> map cn_Name (container_need_of kind restartable c) = [c_Name c]"
    for kind restartable c by (simp add: container_need_of_def Let_def)
  have "subseq (concat (map (\<lambda>c. map cn_Name (container_need_of kind (g c) c)) cs)) (map c_Name cs)" for kind g cs
  proof (induction cs)
    case (Cons c cs)
    then show ?case using n [of kind "g c" c] by auto
  qed simp
  then have sub: "subseq (map cn_Name (pod_needs p)) (map c_Name (p_InitContainers p) @ map c_Name (p_Containers p))"
    unfolding pod_needs_def map_append map_concat map_map comp_def by (intro list_emb_append_mono)
  show ?thesis using subseq_distinct_map [OF sub, of "\<lambda>x. x"] assms by (simp add: pod_names_ok_def)
qed

lemma within_can_run:
  assumes "node_ok n" "pod_names_ok p" "needs_ok n (pod_needs p)" "pod_within n req (pod_needs p) f"
    and "p_InitContainers p' = p_InitContainers p" "d \<in> set (vals (ni_deviceMap n))"
    and "subseq run (map f (pod_needs p))" "can_run p' run"
  shows "usage_on q (d_uuid d) run \<le> dev_free q d"
proof -
  have name: "cdc_Name (f x) = cn_Name x" if "x \<in> set (pod_needs p)" for x
    using assms(4) that by (simp add: pod_within_def serves_def)
  have names: "sequential_names p' = sequential_names p" "sidecar_names p' = sidecar_names p"
    using assms(5) by (simp_all add: sequential_names_def sidecar_names_def)
  obtain N where "run = map f (nths (pod_needs p) N)" using assms(7) by (auto simp: subseq_conv_nths nths_map)
  then obtain ns where ns: "run = map f ns" "subseq ns (pod_needs p)" by (metis subseq_conv_nths)
  have c: "cdc_Name (f x) \<in> sequential_names p' \<longleftrightarrow> is_sequential x" "cdc_Name (f x) \<in> sidecar_names p' \<longleftrightarrow> cn_Restartable x"
    if "x \<in> set ns" for x
    using pod_needs_class [OF assms(2), of x] name [of x] that subseq_set [OF ns(2)] by (auto simp: names)
  have "can_overlap is_sequential cn_Restartable ns"
    using assms(8) c by (auto simp: ns(1) can_run_def can_overlap_def sequential_claims_def regular_claims_def filter_map comp_def
        cong: filter_cong)
  moreover have "\<forall>x \<in> set (pod_needs p). 0 \<le> claims_on q (d_uuid d) (cdc_DeviceClaims (f x))"
    using assms(1,3,4) claims_on_served [of n] by (auto simp: pod_within_def needs_ok_def)
  ultimately have "usage_on q (d_uuid d) run \<le>
      lifecycle_peak is_sequential cn_Restartable (\<lambda>x. claims_on q (d_uuid d) (cdc_DeviceClaims (f x))) (pod_needs p)"
    unfolding ns(1) usage_on_map by (intro needs_life.peak_covers [OF _ ns(2)])
  also have "\<dots> \<le> dev_free q d" using assms(4,6) by (simp add: pod_within_def)
  finally show ?thesis .
qed

text \<open>
  C2. A pod is never placed on cards it does not fit. Whatever the topology mode and the policies,
  when \<^verbatim>\<open>Allocate\<close> accepts a pod, the annotation of the returned pod holds one claim per vGPU
  container in container order, the node annotation names the node, every claim is on a healthy
  non-MIG card of a model and uuid the pod's annotations allow, and no set of containers that
  can run at one moment (one sequential init container next to the sidecars, or the main phase)
  takes more of any card than the card has free, in virtual devices, cores or memory.
\<close>

theorem Allocate_safe:
  assumes "node_ok (as_nodeInfo s)" "links_ok (as_nodeInfo s)" "pod_names_ok (ar_Pod (as_request s))"
    and "ar_Containers (as_request s) = pod_needs (ar_Pod (as_request s))"
    and "needs_ok (as_nodeInfo s) (pod_needs (ar_Pod (as_request s)))"
    and "Allocate e opts s = (Placed p', s')"
  shows "\<exists>pdc. HasAnnotation p' PodVGPUPreAllocAnnotation = Some (PodDeviceClaim_MarshalText pdc) \<and>
    HasAnnotation p' PodPredicateNodeAnnotation = Some (n_Name (ni_node (as_nodeInfo s))) \<and>
    map cdc_Name pdc = map cn_Name (pod_needs (ar_Pod (as_request s))) \<and>
    (\<forall>cc \<in> set pdc. \<forall>x \<in> set (cdc_DeviceClaims cc). \<exists>d \<in> set (vals (ni_deviceMap (as_nodeInfo s))).
       d_uuid d = dc_Uuid x \<and> schedulable d \<and> wanted (as_request s) d) \<and>
    (\<forall>run q. \<forall>d \<in> set (vals (ni_deviceMap (as_nodeInfo s))).
       subseq run pdc \<and> can_run p' run \<longrightarrow> usage_on q (d_uuid d) run \<le> dev_free q d)"
proof -
  let ?n = "as_nodeInfo s" and ?p = "ar_Pod (as_request s)"
  let ?needs = "pod_needs ?p"
  have "needs_wf ?n (ar_Containers (as_request s))"
    using assms(3-5) by (simp add: needs_wf_def kinds_pod_needs distinct_pod_needs)
  from Allocate_within [OF assms(1,2) this assms(6)] assms(4)
  obtain f where f: "pod_within ?n (as_request s) ?needs f" "p' = placed_pod ?n ?p (map f ?needs)" by auto
  have name: "cdc_Name (f x) = cn_Name x" if "x \<in> set ?needs" for x using f(1) that by (simp add: pod_within_def serves_def)
  have inits: "p_InitContainers p' = p_InitContainers ?p" by (simp add: f(2) placed_pod_def InsertAnnotation_def)
  have run: "usage_on q (d_uuid d) run \<le> dev_free q d"
    if "d \<in> set (vals (ni_deviceMap ?n))" "subseq run (map f ?needs)" "can_run p' run" for run q d
    using within_can_run [OF assms(1,3,5) f(1) inits that(1,2,3)] .
  have "HasAnnotation p' PodVGPUPreAllocAnnotation = Some (PodDeviceClaim_MarshalText (map f ?needs))"
    "HasAnnotation p' PodPredicateNodeAnnotation = Some (n_Name (ni_node ?n))"
    by (simp_all add: f(2) placed_pod_def HasAnnotation_def InsertAnnotation_def map_of_update)
  moreover have "\<forall>cc \<in> set (map f ?needs). \<forall>x \<in> set (cdc_DeviceClaims cc). \<exists>d \<in> set (vals (ni_deviceMap ?n)).
      d_uuid d = dc_Uuid x \<and> schedulable d \<and> wanted (as_request s) d"
    using f(1) served_cards [of ?n "as_request s"] by (auto simp: pod_within_def)
  moreover have "map cdc_Name (map f ?needs) = map cn_Name ?needs" using name by simp
  ultimately show ?thesis using run by blast
qed

text \<open>
  C34. The allocator never reports an internal error on a well-formed node: every claim it makes can be
  charged, and no container is left without a claim when the two passes are put together.
\<close>

theorem Allocate_no_internal_error:
  assumes "node_ok (as_nodeInfo s)" "links_ok (as_nodeInfo s)" "pod_names_ok (ar_Pod (as_request s))"
    and "ar_Containers (as_request s) = pod_needs (ar_Pod (as_request s))"
    and "needs_ok (as_nodeInfo s) (pod_needs (ar_Pod (as_request s)))"
  shows "fst (Allocate e opts s) \<noteq> Failed err"
proof -
  have wf: "needs_wf (as_nodeInfo s) (ar_Containers (as_request s))"
    using assms(3-5) by (simp add: needs_wf_def kinds_pod_needs distinct_pod_needs)
  obtain r s' where "Allocate e opts s = (r, s')" by fastforce
  with Allocate_within [OF assms(1,2) wf this] show ?thesis by auto
qed

definition demo_solo_pod :: pod where
  "demo_solo_pod = empty_pod\<lparr>p_Containers := [\<lparr>c_Name = ''a'', c_Limits = [(VGPUNumberResourceName, 2),
     (VGPUCoreResourceName, 20), (VGPUMemoryResourceName, 1024)], c_Restartable = False\<rparr>]\<rparr>"

definition demo_solo_state :: alloc_state where
  "demo_solo_state = \<lparr>as_nodeInfo = demo_node, as_request = BuildAllocationRequest demo_solo_pod, as_trace = []\<rparr>"

lemma demo_solo_ok:
  "node_ok (as_nodeInfo demo_solo_state)" "links_ok (as_nodeInfo demo_solo_state)"
  "pod_names_ok (ar_Pod (as_request demo_solo_state))" "pod_needs (ar_Pod (as_request demo_solo_state)) = [demo_need]"
  "ar_Containers (as_request demo_solo_state) = pod_needs (ar_Pod (as_request demo_solo_state))"
  "needs_ok (as_nodeInfo demo_solo_state) (pod_needs (ar_Pod (as_request demo_solo_state)))"
  "\<not> ar_TopologyStrict (as_request demo_solo_state)" "\<not> ar_HasSequentialInit (as_request demo_solo_state)"
  "\<not> ar_CheckDeviceType (as_request demo_solo_state)" "\<not> ar_CheckDeviceUuid (as_request demo_solo_state)"
proof -
  show "node_ok (as_nodeInfo demo_solo_state)" "links_ok (as_nodeInfo demo_solo_state)"
    using demo_state_ok(1,2) by (simp_all add: demo_solo_state_def demo_state_def)
  have p: "ar_Pod (as_request demo_solo_state) = demo_solo_pod" by (simp add: demo_solo_state_def BuildAllocationRequest_def Let_def)
  show needs: "pod_needs (ar_Pod (as_request demo_solo_state)) = [demo_need]"
    by (simp add: p pod_needs_def demo_solo_pod_def empty_pod_def container_need_of_def GetResourceOfContainer_def demo_need_def)
  show "needs_ok (as_nodeInfo demo_solo_state) (pod_needs (ar_Pod (as_request demo_solo_state)))"
    unfolding needs using demo_state_ok(3,4) by (simp add: needs_ok_def demo_solo_state_def demo_state_def)
qed (simp_all add: demo_solo_state_def BuildAllocationRequest_def Let_def pod_needs_def demo_solo_pod_def pod_names_ok_def
      container_need_of_def GetResourceOfContainer_def empty_pod_def ParsePodTopologyMode_def anno_or_empty_def
      to_lower_def TopologyMode_of_def HasAnnotation_def is_sequential_def)

lemma demo_solo_gated:
  "cn_Number demo_need \<le> int (length (gated_devices (as_nodeInfo demo_solo_state) (as_request demo_solo_state) 20 1024 None))"
  using demo_solo_ok(9,10)
  by (simp add: demo_solo_state_def demo_node_simps vals_def demo_need_def gated_devices_def in_window_def device_gate_def
      AllocatableNumber_def AllocatableMemory_def AllocatableCores_def i64_def Let_def)

lemma Allocate_solo:
  assumes "node_ok (as_nodeInfo s)" "links_ok (as_nodeInfo s)" "needs_ok (as_nodeInfo s) [need]"
    and "ar_Containers (as_request s) = [need]" "\<not> ar_HasSequentialInit (as_request s)"
    and "place_one e (as_nodeInfo s) (as_request s) need None = Placed claim"
  shows "\<exists>p'. fst (Allocate e opts s) = Placed p'"
proof -
  define s0 where "s0 = clear_outcome s"
  have s0: "as_nodeInfo s0 = as_nodeInfo s" "as_request s0 = untold (as_request s)"
    by (simp_all add: s0_def clear_outcome_def untold_def)
  have one: "fst (allocateOne e opts need None s0) = Placed claim"
    using assms(6) by (simp add: place_one_eq s0 place_one_untold)
  obtain r s1 where acc: "allocateAndAccumulate e opts need None s0 = (r, s1)" by fastforce
  have "r \<noteq> Refused rsn" for rsn
    using acc one by (auto simp: allocateAndAccumulate_def and_then_def split: outcome.splits option.splits prod.splits)
  then obtain cc where "r = Placed cc"
    using accumulate_one [OF _ _ _ acc] assms(1-3) by (auto simp: s0)
  then have "accumulate_needs e opts [need] s0 = (Placed [(cn_Name need, cc)], s1)" by (simp add: acc)
  then show ?thesis
    using assms(4,5) by (simp add: Allocate_def allocate_fast_def Let_def s0_def [symmetric] s0)
qed

lemma demo_solo_placed: "\<exists>p'. fst (Allocate demo_env opts demo_solo_state) = Placed p'"
proof -
  have a: "need_amounts (as_nodeInfo demo_solo_state) demo_need = (20, 1024)"
    "cn_Number demo_need \<le> ni_schedulableDevices (as_nodeInfo demo_solo_state)"
    using demo_state_ok(3,6) by (simp_all add: demo_solo_state_def demo_state_def)
  have c: "ar_Containers (as_request demo_solo_state) = [demo_need]" "needs_ok (as_nodeInfo demo_solo_state) [demo_need]"
    using demo_solo_ok(5,6) unfolding demo_solo_ok(4) by simp_all
  obtain claim where claim: "place_one demo_env (as_nodeInfo demo_solo_state) (as_request demo_solo_state) demo_need None = Placed claim"
    using place_one_complete [OF demo_solo_ok(1,2) demo_state_ok(4) demo_solo_ok(7) a demo_solo_gated] by blast
  show ?thesis by (rule Allocate_solo [OF demo_solo_ok(1,2) c(2,1) demo_solo_ok(8) claim])
qed

theorem Allocate_safe_witness:
  "case fst (Allocate demo_env \<lparr>ao_recorder = True, ao_simulate = False\<rparr> demo_solo_state) of
     Placed p' \<Rightarrow> HasAnnotation p' PodPredicateNodeAnnotation = Some ''node-1'' | _ \<Rightarrow> False"
proof -
  let ?r = "Allocate demo_env \<lparr>ao_recorder = True, ao_simulate = False\<rparr> demo_solo_state"
  obtain p' where p: "fst ?r = Placed p'" using demo_solo_placed by blast
  then have "?r = (Placed p', snd ?r)" by (metis prod.collapse)
  from Allocate_safe [OF demo_solo_ok(1-3,5,6) this] have "HasAnnotation p' PodPredicateNodeAnnotation = Some ''node-1''"
    by (auto simp: demo_solo_state_def demo_node_def)
  then show ?thesis by (simp add: p)
qed

theorem Allocate_no_internal_error_witness:
  "fst (Allocate demo_env \<lparr>ao_recorder = True, ao_simulate = False\<rparr> demo_solo_state) \<noteq> Failed NilClaim"
  by (rule Allocate_no_internal_error [OF demo_solo_ok(1-3,5,6)])

section \<open>Dry runs\<close>

text \<open>Two results that decide the same and leave the same node and request, up to the outcome.\<close>

definition agree :: "'a outcome \<times> alloc_state \<Rightarrow> 'a outcome \<times> alloc_state \<Rightarrow> bool" where
  "agree a b \<longleftrightarrow> fst a = fst b \<and> view (snd a) = view (snd b)"

lemma agree_and_then:
  assumes "agree a b" "\<And>x s t. view s = view t \<Longrightarrow> agree (f x s) (g x t)"
  shows "agree (and_then a f) (and_then b g)"
  using assms by (auto simp: agree_def and_then_def split: outcome.split)

lemma agree_allocateOne: "view s = view t \<Longrightarrow> agree (allocateOne e o1 need w s) (allocateOne e o2 need w t)"
  using view_cong [of s t] by (simp add: agree_def place_one_eq)

lemma agree_accumulate: "view s = view t \<Longrightarrow> agree (allocateAndAccumulate e o1 need w s) (allocateAndAccumulate e o2 need w t)"
  unfolding allocateAndAccumulate_def
  by (intro agree_and_then agree_allocateOne) (auto simp: agree_def view_def split: prod.split option.split)

lemma agree_accumulate_needs: "view s = view t \<Longrightarrow> agree (accumulate_needs e o1 needs s) (accumulate_needs e o2 needs t)"
proof (induction needs arbitrary: s t)
  case (Cons need needs)
  then show ?case by (auto intro!: agree_and_then agree_accumulate) (simp add: agree_def)
qed (simp add: agree_def)

lemma agree_init:
  assumes "view s = view t"
  shows "agree (allocate_init e o1 preferred need s) (allocate_init e o2 preferred need t)"
proof -
  obtain r1 s1 where one: "allocateOne e o1 need (Some preferred) s = (r1, s1)" by fastforce
  obtain t1 where two: "allocateOne e o2 need (Some preferred) t = (r1, t1)" and v: "view s1 = view t1"
    using agree_allocateOne [OF assms, of e o1 need "Some preferred" o2] one unfolding agree_def
    by (metis fst_conv prod.collapse snd_conv)
  show ?thesis
    using agree_allocateOne [OF assms, of e o1 need None o2] agree_allocateOne [OF v, of e o1 need None o2] v
    by (cases r1) (simp_all add: allocate_init_def one two agree_def)
qed

lemma agree_inits: "view s = view t \<Longrightarrow> agree (allocate_inits e o1 preferred needs s) (allocate_inits e o2 preferred needs t)"
proof (induction needs arbitrary: s t)
  case (Cons need needs)
  then show ?case by (auto intro!: agree_and_then agree_init) (simp add: agree_def)
qed (simp add: agree_def)

lemma agree_two_pass:
  assumes "view s = view t"
  shows "agree (allocate_two_pass e o1 s) (allocate_two_pass e o2 t)"
proof -
  have restore: "view (s2\<lparr>as_nodeInfo := RestoreUsage (SnapshotUsage (as_nodeInfo s1)) (as_nodeInfo s2)\<rparr>) =
      view (t2\<lparr>as_nodeInfo := RestoreUsage (SnapshotUsage (as_nodeInfo t1)) (as_nodeInfo t2)\<rparr>)"
    if "view s1 = view t1" "view s2 = view t2" for s1 t1 s2 t2 using that by (simp add: view_def)
  show ?thesis
    unfolding allocate_two_pass_def Let_def view_cong(3) [OF assms]
    apply (rule agree_and_then [OF agree_accumulate_needs [OF assms]])
    apply (rule agree_and_then [OF agree_accumulate_needs], assumption)
    apply (rule agree_and_then [OF agree_inits [OF restore]], assumption, assumption)
    apply (simp add: agree_def)
    done
qed

lemma agree_Allocate:
  assumes "view s = view t"
  shows "agree (Allocate e o1 s) (Allocate e o2 t)"
proof -
  have v: "view (clear_outcome s) = view (clear_outcome t)" using assms by (simp add: clear_outcome_def view_def untold_def)
  have "agree (allocate_fast e o1 (clear_outcome s)) (allocate_fast e o2 (clear_outcome t))"
    unfolding allocate_fast_def view_cong(3) [OF v]
    by (intro agree_and_then agree_accumulate_needs v) (simp add: agree_def)
  then have "agree (if ar_HasSequentialInit (as_request (clear_outcome s)) then allocate_two_pass e o1 (clear_outcome s)
      else allocate_fast e o1 (clear_outcome s))
    (if ar_HasSequentialInit (as_request (clear_outcome t)) then allocate_two_pass e o2 (clear_outcome t)
      else allocate_fast e o2 (clear_outcome t))"
    using view_cong(5) [OF v] agree_two_pass [OF v, of e o1 o2] by simp
  then show ?thesis
    unfolding Allocate_def Let_def
    apply (rule agree_and_then)
    subgoal for x s t using view_cong(1) [of s t] view_cong(4) [of s t] by (simp add: agree_def)
    done
qed

text \<open>
  C35. A dry run tells the truth and leaves no trace. An allocator built with \<^verbatim>\<open>WithSimulate\<close>, as
  preemption uses it, returns what the real allocator returns on the same node and request (the
  same pod, or the same reason) and charges the node the same way; it sends no event, counts no
  rejection and records no topology outcome. The outcome of an earlier node has no influence.
\<close>

theorem Allocate_simulate:
  assumes "ao_simulate dry" "as_nodeInfo t = as_nodeInfo s" "untold (as_request t) = untold (as_request s)"
  shows "fst (Allocate e dry t) = fst (Allocate e real_run s) \<and>
    as_nodeInfo (snd (Allocate e dry t)) = as_nodeInfo (snd (Allocate e real_run s)) \<and>
    as_trace (snd (Allocate e dry t)) = as_trace t \<and>
    ar_topoOutcome (as_request (snd (Allocate e dry t))) = \<lparr>to_Result = [], to_Alignment = []\<rparr>"
proof -
  have "view t = view s" using assms(2,3) by (simp add: view_def)
  then have "agree (Allocate e dry t) (Allocate e real_run s)" by (rule agree_Allocate)
  then show ?thesis using quiet_Allocate [OF assms(1), of e t] by (simp add: agree_def view_def)
qed

theorem Allocate_simulate_witness:
  "fst (Allocate demo_env \<lparr>ao_recorder = True, ao_simulate = True\<rparr> demo_solo_state) =
     fst (Allocate demo_env \<lparr>ao_recorder = True, ao_simulate = False\<rparr> demo_solo_state) \<and>
   as_trace (snd (Allocate demo_env \<lparr>ao_recorder = True, ao_simulate = True\<rparr> demo_solo_state)) = []"
  using Allocate_simulate [of "\<lparr>ao_recorder = True, ao_simulate = True\<rparr>" demo_solo_state demo_solo_state demo_env
      "\<lparr>ao_recorder = True, ao_simulate = False\<rparr>"] by (simp add: demo_solo_state_def)

end
