(* ===== verification/Capacity_Gate.thy ===== *)
theory Capacity_Gate
  imports Pod_Placement
begin

text \<open>
  The capacity gate of the filter (\<^verbatim>\<open>nodeCapacityGate\<close> of
  \<^verbatim>\<open>pkg/scheduler/filter/filter_predicate.go\<close>), which drops nodes before the allocator runs.
  The theorem is that it only ever drops nodes the allocator would refuse as well.
\<close>

definition reject :: "code \<Rightarrow> string \<Rightarrow> filter_reason option" where
  "reject c detail = WithDetail (Some (New_reason c)) detail"

definition matched_devices :: "allocation_request \<Rightarrow> node_info \<Rightarrow> int" where
  "matched_devices req n =
     int (length (filter (\<lambda>d. \<not> (ar_CheckDeviceUuid req \<and> \<not> CheckDeviceUuid (p_Annotations (ar_Pod req)) (d_uuid d)) \<and>
                              \<not> (ar_CheckDeviceType req \<and> \<not> CheckDeviceType (p_Annotations (ar_Pod req)) (d_deviceType d)))
                   (vals (ni_deviceMap n))))"

definition nodeCapacityGate :: "allocation_request \<Rightarrow> node_info \<Rightarrow> filter_reason option" where
  "nodeCapacityGate req n =
     (if cn_Number (ar_Max req) > ni_schedulableDevices n
      then reject InsufficientGPUCards (''max '' @ itoa (cn_Number (ar_Max req)) @ '' devices, node has ''
             @ itoa (ni_schedulableDevices n) @ '' schedulable'')
      else if cn_Cores (ar_Max req) > ni_maxDeviceCores n
      then reject InsufficientVGPUCore (''max '' @ itoa (cn_Cores (ar_Max req)) @ '' cores, largest device has ''
             @ itoa (ni_maxDeviceCores n))
      else if cn_Memory (ar_Max req) > ni_maxDeviceMemory n
      then reject InsufficientVGPUMemory (''max '' @ itoa (cn_Memory (ar_Max req)) @ '' memory, largest device has ''
             @ itoa (ni_maxDeviceMemory n))
      else if cn_Number (ar_Total req) > GetAvailableNumber n
      then reject InsufficientGPUResources (''need '' @ itoa (cn_Number (ar_Total req)) @ '' number, available ''
             @ itoa (GetAvailableNumber n))
      else if cn_Cores (ar_Total req) > GetAvailableCores n
      then reject InsufficientVGPUCore (''need '' @ itoa (cn_Cores (ar_Total req)) @ '' cores, available ''
             @ itoa (GetAvailableCores n))
      else if cn_Memory (ar_Total req) > GetAvailableMemory n
      then reject InsufficientVGPUMemory (''need '' @ itoa (cn_Memory (ar_Total req)) @ '' memory, available ''
             @ itoa (GetAvailableMemory n))
      else if (ar_CheckDeviceUuid req \<or> ar_CheckDeviceType req) \<and> matched_devices req n < cn_Number (ar_Max req)
      then reject (if ar_CheckDeviceUuid req then DeviceUUIDMismatch else DeviceTypeMismatch)
             (''only '' @ itoa (matched_devices req n) @ '' of '' @ itoa (cn_Number (ar_Max req))
              @ '' required devices match the requested GPU uuid/type'')
      else None)"

section \<open>The largest need of a request\<close>

definition need_size :: "node_info \<Rightarrow> dim \<Rightarrow> container_need \<Rightarrow> int" where
  "need_size n q need = (case q of Number \<Rightarrow> cn_Number need | Cores \<Rightarrow> fst (need_amounts n need) | Memory \<Rightarrow> snd (need_amounts n need))"

lemma max_need_le:
  fixes q :: dim
  assumes "\<forall>need \<in> set (ar_Containers req). need_size n q need \<le> b" "0 \<le> b"
  shows "need_dim q (ar_Max (ResetStatistics (Some n) req)) \<le> b"
proof -
  let ?add = "add_need (nc_MemoryFactor (ni_config n)) (ni_allSameCapacity n) (ni_maxDeviceMemory n)"
  have step: "need_dim q (st_Max (?add st need)) = max (need_dim q (st_Max st)) (need_size n q need)" for st :: statistics and need
    by (cases q) (simp_all add: add_need_def Let_def max_need_def need_size_def need_amounts_def split: prod.split)
  have "need_dim q (st_Max st) \<le> b \<Longrightarrow> \<forall>need \<in> set ns. need_size n q need \<le> b \<Longrightarrow> need_dim q (st_Max (foldl ?add st ns)) \<le> b"
    for ns and st :: statistics by (induction ns arbitrary: st) (simp_all add: step)
  moreover have "need_dim q (st_Max (zero_statistics\<lparr>st_Max := (ar_Max req)\<lparr>cn_Number := 0, cn_Cores := 0, cn_Memory := 0\<rparr>\<rparr>)) \<le> b"
    using assms(2) by (cases q) simp_all
  ultimately show ?thesis using assms(1) by (simp add: ResetStatistics_def Let_def)
qed

section \<open>What the claims of a container take of the node\<close>

lemma sum_on_cards:
  assumes "distinct (map d_uuid cs)" "dc_Uuid ` set claims \<subseteq> d_uuid ` set cs"
  shows "(\<Sum>d \<leftarrow> cs. claims_on q (d_uuid d) claims) = sum_list (map (dc_dim q) claims)"
  using assms(2)
proof (induction claims)
  case (Cons x claims)
  have one: "(\<Sum>d \<leftarrow> cs. if dc_Uuid x = d_uuid d then dc_dim q x else 0) = dc_dim q x"
  proof -
    obtain i where i: "i < length cs" "d_uuid (cs ! i) = dc_Uuid x" using Cons.prems by (auto simp: in_set_conv_nth)
    then have "cs = take i cs @ cs ! i # drop (Suc i) cs" by (simp add: id_take_nth_drop)
    then obtain as bs d where cs: "cs = as @ d # bs" "d_uuid d = dc_Uuid x" using i(2) by metis
    have z: "(\<Sum>d \<leftarrow> ds. if dc_Uuid x = d_uuid d then dc_dim q x else 0) = 0" if "dc_Uuid x \<notin> d_uuid ` set ds" for ds
      using that by (induction ds) auto
    have "dc_Uuid x \<notin> d_uuid ` set as" "dc_Uuid x \<notin> d_uuid ` set bs" using assms(1) cs by auto
    then show ?thesis using cs(2) z [of as] z [of bs] unfolding cs(1) by simp
  qed
  have "(\<Sum>d \<leftarrow> cs. claims_on q (d_uuid d) (x # claims)) =
      (\<Sum>d \<leftarrow> cs. if dc_Uuid x = d_uuid d then dc_dim q x else 0) + (\<Sum>d \<leftarrow> cs. claims_on q (d_uuid d) claims)"
    by (simp add: sum_list_addf)
  then show ?case using Cons one by simp
qed simp

lemma cards_reset: "map d_uuid (cards (resetResourceUsage n)) = map d_uuid (cards n)"
proof -
  have "map d_uuid (filter schedulable (map (snd \<circ> (\<lambda>(k, d). (k, ResetUsed d))) xs)) = map d_uuid (filter schedulable (map snd xs))"
    for xs :: "(int \<times> device) list" by (induction xs) (auto simp: ResetUsed_def schedulable_def)
  then show ?thesis by (simp add: cards_def vals_def resetResourceUsage_def)
qed

lemma distinct_cards: "node_ok n \<Longrightarrow> distinct (map d_uuid (cards n))"
  unfolding cards_def using node_ok_distinct(1) by (intro distinct_map_filter)

lemma serves_demand:
  assumes "node_ok n" "serves n req need cc" "0 \<le> snd (need_amounts n need)"
  shows "node_demand n q need \<le> (\<Sum>d \<leftarrow> cards n. claims_on q (d_uuid d) (cdc_DeviceClaims cc))"
proof -
  obtain c m where cm: "need_amounts n need = (c, m)" by fastforce
  obtain ds where ds: "set ds \<subseteq> set (cards (resetResourceUsage n))" "int (length ds) = cn_Number need"
    "mset (cdc_DeviceClaims cc) = mset (map (claim_for c m) ds)"
    using assms(2) unfolding serves_def reset_select cm fst_conv snd_conv by blast
  have "set (cdc_DeviceClaims cc) = claim_for c m ` set ds" using ds(3) by (metis set_map set_mset_mset)
  then have "dc_Uuid ` set (cdc_DeviceClaims cc) \<subseteq> d_uuid ` set (cards n)"
    using ds(1) arg_cong [OF cards_reset, of set n] by (force simp: claim_for_def)
  then have "(\<Sum>d \<leftarrow> cards n. claims_on q (d_uuid d) (cdc_DeviceClaims cc)) = sum_list (map (dc_dim q) (cdc_DeviceClaims cc))"
    by (rule sum_on_cards [OF distinct_cards [OF assms(1)]])
  also have "\<dots> = sum_list (map (dc_dim q) (map (claim_for c m) ds))"
    using ds(3) by (metis mset_map sum_mset_sum_list)
  also have "node_demand n q need \<le> \<dots>"
  proof -
    have r: "resolveContainerNeeds need (nc_MemoryFactor (ni_config n)) (ni_allSameCapacity n) (ni_maxDeviceMemory n) = (c, m)"
      using cm by (simp add: need_amounts_def)
    have t: "0 \<le> GetTotalMemory d" if "d \<in> set ds" for d
      using reset_card_memory [OF assms(1)] that ds(1) by blast
    have l: "(\<Sum>d \<leftarrow> ds. x) = x * cn_Number need" for x :: int using ds(2) by (simp add: sum_list_triv)
    have "m * cn_Number need \<le> (\<Sum>d \<leftarrow> ds. if m = 0 then GetTotalMemory d else m)"
      unfolding l [symmetric] using t by (intro sum_list_mono) auto
    then show ?thesis using l [of c] l [of 1] by (cases q) (simp_all add: node_demand_def r claim_for_def comp_def)
  qed
  finally show ?thesis .
qed

lemma served_in_cards:
  assumes "serves n req need cc"
  obtains ds where "int (length ds) = cn_Number need" "distinct (map d_uuid ds)"
    "d_uuid ` set ds \<subseteq> d_uuid ` {d \<in> set (cards n). wanted req d}"
    "set (cdc_DeviceClaims cc) = claim_for (fst (need_amounts n need)) (snd (need_amounts n need)) ` set ds"
proof -
  obtain ds where ds: "\<forall>d \<in> set ds. wanted req d" "set ds \<subseteq> set (cards (resetResourceUsage n))"
    "distinct (map d_uuid ds)" "int (length ds) = cn_Number need"
    "mset (cdc_DeviceClaims cc) = mset (map (claim_for (fst (need_amounts n need)) (snd (need_amounts n need))) ds)"
    using assms unfolding serves_def reset_select by blast
  have "\<exists>d0 \<in> set (cards n). wanted req d0 \<and> d_uuid d0 = d_uuid d" if "d \<in> set ds" for d
  proof -
    have "d \<in> set (cards (resetResourceUsage n))" using ds(2) that by blast
    then obtain d0 where "d0 \<in> set (vals (ni_deviceMap n))" "d = ResetUsed d0" "schedulable d"
      by (force simp: resetResourceUsage_def vals_def cards_def)
    then show ?thesis using ds(1) that
      by (intro bexI [of _ d0]) (auto simp: ResetUsed_def wanted_def schedulable_def cards_def)
  qed
  then have "d_uuid ` set ds \<subseteq> d_uuid ` {d \<in> set (cards n). wanted req d}"
    by (smt (verit, best) image_iff image_subsetI mem_Collect_eq)
  moreover have "set (cdc_DeviceClaims cc) = claim_for (fst (need_amounts n need)) (snd (need_amounts n need)) ` set ds"
    using ds(5) by (metis set_map set_mset_mset)
  ultimately show thesis using that ds(3,4) by blast
qed

lemma served_number:
  assumes "serves n req need cc"
  shows "cn_Number need \<le> matched_devices req n" "cn_Number need \<le> int (length (cards n))"
proof -
  obtain ds where ds: "int (length ds) = cn_Number need" "distinct (map d_uuid ds)"
    "d_uuid ` set ds \<subseteq> d_uuid ` {d \<in> set (cards n). wanted req d}"
    "set (cdc_DeviceClaims cc) = claim_for (fst (need_amounts n need)) (snd (need_amounts n need)) ` set ds"
    using served_in_cards [OF assms] .
  have c: "length ds \<le> length xs" if "d_uuid ` set ds \<subseteq> d_uuid ` set xs" for xs
  proof -
    have "length ds = card (d_uuid ` set ds)" using distinct_card [OF ds(2)] by simp
    also have "\<dots> \<le> card (d_uuid ` set xs)" using that by (intro card_mono) simp_all
    also have "\<dots> \<le> length xs" using card_length [of "map d_uuid xs"] by simp
    finally show ?thesis .
  qed
  have "d_uuid ` set ds \<subseteq> d_uuid ` set (cards n)" using ds(3) by blast
  from c [OF this] show "cn_Number need \<le> int (length (cards n))" using ds(1) by simp
  have "d_uuid ` set ds \<subseteq> d_uuid ` set (filter (wanted req) (vals (ni_deviceMap n)))"
    using ds(3) by (auto simp: cards_def)
  from c [OF this] have "length ds \<le> length (filter (wanted req) (vals (ni_deviceMap n)))" .
  moreover have "matched_devices req n = int (length (filter (wanted req) (vals (ni_deviceMap n))))"
    unfolding matched_devices_def by (intro arg_cong [of _ _ "\<lambda>xs. int (length xs)"] filter_cong) (auto simp: wanted_def)
  ultimately show "cn_Number need \<le> matched_devices req n" using ds(1) by simp
qed

lemma claims_on_member: "x \<in> set cs \<Longrightarrow> \<forall>c \<in> set cs. 0 \<le> dc_dim q c \<Longrightarrow> dc_dim q x \<le> claims_on q (dc_Uuid x) cs"
proof (induction cs)
  case (Cons c cs)
  have "0 \<le> claims_on q u cs" for u using Cons.prems(2) by (induction cs) auto
  then show ?case using Cons by (cases "x = c") (simp_all add: add_increasing)
qed simp

lemma served_amounts:
  assumes "node_ok n" "serves n req need cc" "needs_ok n [need]"
    and free: "\<And>q d. d \<in> set (cards n) \<Longrightarrow> claims_on q (d_uuid d) (cdc_DeviceClaims cc) \<le> dev_free q d"
  shows "\<exists>d \<in> set (cards n). fst (need_amounts n need) \<le> dev_free Cores d \<and> snd (need_amounts n need) \<le> dev_free Memory d"
proof -
  obtain c m where cm: "need_amounts n need = (c, m)" by fastforce
  obtain ds where ds: "int (length ds) = cn_Number need" "distinct (map d_uuid ds)"
    "d_uuid ` set ds \<subseteq> d_uuid ` {d \<in> set (cards n). wanted req d}" "set (cdc_DeviceClaims cc) = claim_for c m ` set ds"
    using served_in_cards [OF assms(2), unfolded cm fst_conv snd_conv] .
  have "0 < cn_Number need" using assms(3) by (simp add: needs_ok_def)
  then obtain a where a: "a \<in> set ds" using ds(1) by (cases ds) auto
  obtain d where d: "d \<in> set (cards n)" "d_uuid d = d_uuid a"
    using subsetD [OF ds(3) imageI [OF a]] by (auto elim!: imageE)
  have x: "claim_for c m a \<in> set (cdc_DeviceClaims cc)" using a ds(4) by simp
  have nn: "0 \<le> dc_dim q y" if "y \<in> set (cdc_DeviceClaims cc)" for q y
    using claims_served_nonneg [OF assms(2,3,1) that] by (cases q) auto
  have "dc_dim q (claim_for c m a) \<le> dev_free q d" for q
    using claims_on_member [OF x, of q] nn free [OF d(1), of q] d(2) by (fastforce simp: claim_for_def)
  from this [of Cores] this [of Memory] have "c \<le> dev_free Cores d" "m \<le> dev_free Memory d"
    using dev_free_range [OF node_okD(1) [OF assms(1) d(1)], of Memory] by (auto simp: claim_for_def split: if_splits)
  then show ?thesis using d(1) cm by auto
qed

lemma pod_total_le:
  assumes "node_ok n" "ledger n" "pod_within n req needs f" "needs_ok n needs"
  shows "lifecycle_peak is_sequential cn_Restartable (node_demand n q) needs \<le> node_avail q n"
proof -
  let ?on = "\<lambda>d need. claims_on q (d_uuid d) (cdc_DeviceClaims (f need))"
  have "lifecycle_peak is_sequential cn_Restartable (node_demand n q) needs
      \<le> lifecycle_peak is_sequential cn_Restartable (\<lambda>need. \<Sum>d \<leftarrow> cards n. ?on d need) needs"
    using assms by (intro peak_mono ballI serves_demand) (auto simp: pod_within_def needs_ok_def)
  also have "\<dots> \<le> (\<Sum>d \<leftarrow> cards n. lifecycle_peak is_sequential cn_Restartable (?on d) needs)" by (rule peak_sum_list)
  also have "\<dots> \<le> (\<Sum>d \<leftarrow> cards n. dev_free q d)"
    using assms(3) by (intro sum_list_mono) (auto simp: pod_within_def cards_def)
  also have "\<dots> = node_avail q n" using ledger_available [OF assms(1,2)] by simp
  finally show ?thesis .
qed

lemma pod_claims_le:
  assumes "node_ok n" "pod_within n req needs f" "needs_ok n needs" "need \<in> set needs" "d \<in> set (cards n)"
  shows "claims_on q (d_uuid d) (cdc_DeviceClaims (f need)) \<le> dev_free q d"
proof -
  let ?w = "\<lambda>need. claims_on q (d_uuid d) (cdc_DeviceClaims (f need))"
  have "\<forall>x \<in> set needs. 0 \<le> ?w x" using assms(1-3) claims_on_served [of n] by (auto simp: pod_within_def needs_ok_def)
  moreover have "subseq [need] needs" using assms(4) by (simp add: subseq_singleton_left)
  ultimately have "sum_list (map ?w [need]) \<le> lifecycle_peak is_sequential cn_Restartable ?w needs"
    by (intro needs_life.peak_covers) (auto simp: can_overlap_def is_sequential_def)
  also have "\<dots> \<le> dev_free q d" using assms(2,5) by (simp add: pod_within_def cards_def)
  finally show ?thesis by simp
qed

lemma foldr_max_upper: "d \<in> set ds \<Longrightarrow> f d \<le> foldr (\<lambda>d. max (f d)) ds 0" "0 \<le> foldr (\<lambda>d. max (f d)) ds 0"
  for f :: "'a \<Rightarrow> int" by (induction ds) auto

lemma pod_max_le:
  assumes n: "n = RefreshResourcesData n0" and ok: "node_ok n" and few: "int (length (cards n)) \<le> max_int"
    and pod: "pod_within n req needs f" "needs_ok n needs" and mem: "need \<in> set needs"
  shows "need_size n Number need \<le> ni_schedulableDevices n" "need_size n Cores need \<le> ni_maxDeviceCores n"
    "need_size n Memory need \<le> ni_maxDeviceMemory n"
proof -
  have sv: "serves n req need (f need)" and one: "needs_ok n [need]" using pod mem by (auto simp: pod_within_def needs_ok_def)
  have cards: "cards n = cards n0" by (simp add: n Refresh_eqs)
  have "i64 (int (length (cards n))) = int (length (cards n))" using few by (intro i64_between) auto
  then show "need_size n Number need \<le> ni_schedulableDevices n"
    using served_number(2) [OF sv] by (simp add: need_size_def n Refresh_eqs)
  obtain d where d: "d \<in> set (cards n)" "fst (need_amounts n need) \<le> dev_free Cores d" "snd (need_amounts n need) \<le> dev_free Memory d"
    using served_amounts [OF ok sv one] pod_claims_le [OF ok pod mem] by blast
  have "dev_free q d \<le> dev_total q d" for q using dev_free_range [OF node_okD(1) [OF ok d(1)], of q] by simp
  from this [of Cores] this [of Memory] have "fst (need_amounts n need) \<le> GetTotalCores d" "snd (need_amounts n need) \<le> GetTotalMemory d"
    using d(2,3) by auto
  moreover have "GetTotalCores d \<le> ni_maxDeviceCores n" "GetTotalMemory d \<le> ni_maxDeviceMemory n"
    using foldr_max_upper(1) [of d "cards n0"] d(1) cards by (auto simp: n Refresh_eqs)
  ultimately show "need_size n Cores need \<le> ni_maxDeviceCores n" "need_size n Memory need \<le> ni_maxDeviceMemory n"
    by (simp_all add: need_size_def)
qed

lemma gate_None:
  assumes "\<And>q. need_dim q (ar_Total req) \<le> node_avail q n"
    and "cn_Number (ar_Max req) \<le> ni_schedulableDevices n" "cn_Cores (ar_Max req) \<le> ni_maxDeviceCores n"
    and "cn_Memory (ar_Max req) \<le> ni_maxDeviceMemory n" "cn_Number (ar_Max req) \<le> matched_devices req n"
  shows "nodeCapacityGate req n = None"
  using assms(2-5) assms(1) [of Number] assms(1) [of Cores] assms(1) [of Memory] by (simp add: nodeCapacityGate_def)

lemma ResetStatistics_keeps:
  "ar_Pod (ResetStatistics (Some n) req) = ar_Pod req" "ar_CheckDeviceUuid (ResetStatistics (Some n) req) = ar_CheckDeviceUuid req"
  "ar_CheckDeviceType (ResetStatistics (Some n) req) = ar_CheckDeviceType req"
  "matched_devices (ResetStatistics (Some n) req) m = matched_devices req m"
  by (simp_all add: ResetStatistics_def Let_def matched_devices_def)

text \<open>
  C36. The capacity gate costs no placement: when the allocator would place the pod on a freshly read node,
  the gate that runs before it lets the node through. So every node the gate drops is one the
  allocator refuses, whatever the topology mode, the policies and the lifecycle of the containers.
\<close>

theorem nodeCapacityGate_transparent:
  assumes "node_ok n0" "as_nodeInfo s = RefreshResourcesData n0" "int (length (cards n0)) \<le> max_int"
    and "links_ok (as_nodeInfo s)" "pod_names_ok (ar_Pod (as_request s))"
    and "ar_Containers (as_request s) = pod_needs (ar_Pod (as_request s))"
    and "needs_ok (as_nodeInfo s) (pod_needs (ar_Pod (as_request s)))"
    and "demands_ok (nc_MemoryFactor (ni_config (as_nodeInfo s))) (ni_allSameCapacity (as_nodeInfo s))
           (ni_maxDeviceMemory (as_nodeInfo s)) (pod_needs (ar_Pod (as_request s)))"
    and "Allocate e opts s = (Placed p', s')"
  shows "nodeCapacityGate (ResetStatistics (Some (as_nodeInfo s)) (as_request s)) (as_nodeInfo s) = None"
proof -
  define n where "n = as_nodeInfo s"
  define req where "req = as_request s"
  let ?needs = "ar_Containers req" and ?r = "ResetStatistics (Some n) req"
  have n: "n = RefreshResourcesData n0" using assms(2) by (simp add: n_def)
  have ok: "node_ok n" "ledger n" "cards n = cards n0"
    using assms(1) Refresh_ledger by (simp_all add: n node_ok_Refresh Refresh_eqs)
  have needs: "needs_ok n ?needs" using assms(6,7) by (simp add: n_def req_def)
  have wf: "needs_wf n ?needs" using assms(5,6) needs by (simp add: needs_wf_def kinds_pod_needs distinct_pod_needs req_def)
  obtain f where f: "pod_within n req ?needs f"
    using Allocate_within [OF _ assms(4) _ assms(9)] ok(1) wf by (auto simp: n_def req_def)
  have few: "int (length (cards n)) \<le> max_int" using assms(3) ok(3) by simp
  note max = pod_max_le [OF n ok(1) few f needs]
  have ge: "0 \<le> ni_schedulableDevices n" "0 \<le> ni_maxDeviceCores n" "0 \<le> ni_maxDeviceMemory n"
    using few ok(3) foldr_max_upper(2) [of GetTotalCores] foldr_max_upper(2) [of GetTotalMemory] by (simp_all add: n Refresh_eqs i64_between)
  have matched: "\<forall>need \<in> set ?needs. need_size n Number need \<le> matched_devices req n"
    using f served_number(1) by (auto simp: pod_within_def need_size_def)
  have "nodeCapacityGate ?r n = None"
  proof (rule gate_None)
    show "need_dim q (ar_Total ?r) \<le> node_avail q n" for q
      using total_is_peak [of n req q] assms(6,8) pod_total_le [OF ok(1,2) f needs, of q] by (simp add: n_def req_def node_demand_def)
    show "cn_Number (ar_Max ?r) \<le> ni_schedulableDevices n" using max_need_le [of req n Number] max(1) ge(1) by simp
    show "cn_Cores (ar_Max ?r) \<le> ni_maxDeviceCores n" using max_need_le [of req n Cores] max(2) ge(2) by simp
    show "cn_Memory (ar_Max ?r) \<le> ni_maxDeviceMemory n" using max_need_le [of req n Memory] max(3) ge(3) by simp
    show "cn_Number (ar_Max ?r) \<le> matched_devices ?r n"
      using max_need_le [OF matched] by (simp add: ResetStatistics_keeps matched_devices_def)
  qed
  then show ?thesis by (simp add: n_def req_def)
qed

lemma demo_node_fresh: "RefreshResourcesData demo_node = demo_node"
proof -
  define a where "a = demo_device"
  define b where "b = demo_device\<lparr>d_id := 1, d_uuid := ''GPU-1''\<rparr>"
  have v: "vals (ni_deviceMap demo_node) = [a, b]" by (simp add: demo_node_def vals_def a_def b_def)
  have d: "schedulable d" "d_capability d = 8" "GetTotalNumber d = 10" "GetTotalCores d = 100" "GetTotalMemory d = 40960"
    "AllocatableNumber d = 10" "AllocatableCores d = 100" "AllocatableMemory d = 40960" if "d = a \<or> d = b" for d
    using that by (auto simp: a_def b_def demo_device_def NewDevice_def schedulable_def GetTotalNumber_def GetTotalCores_def
        GetTotalMemory_def AllocatableNumber_def AllocatableCores_def AllocatableMemory_def i64_def Let_def)
  have i: "i64 0 = 0" "i64 1 = 1" "i64 2 = 2" "i64 10 = 10" "i64 20 = 20" "i64 100 = 100" "i64 200 = 200" "i64 40960 = 40960" "i64 81920 = 81920"
    by (simp_all add: i64_def)
  show ?thesis
    unfolding RefreshResourcesData_def Let_def v by (simp add: refresh_device_def d [of a] d [of b] i) (simp add: demo_node_def)
qed

lemma demo_solo_demands:
  "demands_ok (nc_MemoryFactor (ni_config demo_node)) (ni_allSameCapacity demo_node) (ni_maxDeviceMemory demo_node) [demo_need]"
  by (simp add: demands_ok_def all_dims demo_need_def demo_node_def resolveContainerNeeds_def max_int_def i64_def)

theorem nodeCapacityGate_transparent_witness:
  "nodeCapacityGate (ResetStatistics (Some demo_node) (as_request demo_solo_state)) demo_node = None"
proof -
  let ?r = "Allocate demo_env \<lparr>ao_recorder = True, ao_simulate = False\<rparr> demo_solo_state"
  have n: "as_nodeInfo demo_solo_state = demo_node" by (simp add: demo_solo_state_def)
  obtain p' where p: "fst ?r = Placed p'" using demo_solo_placed by blast
  then have r: "?r = (Placed p', snd ?r)" by (metis prod.collapse)
  have "as_nodeInfo demo_solo_state = RefreshResourcesData demo_node" by (simp add: n demo_node_fresh)
  moreover have "int (length (cards demo_node)) \<le> max_int" by (simp add: cards_def demo_node_simps vals_def max_int_def)
  ultimately show ?thesis
    using nodeCapacityGate_transparent [OF demo_node_ok _ _ demo_solo_ok(2,3,5,6) _ r] demo_solo_demands
    by (simp add: n demo_solo_ok(4))
qed

end
