(* ===== verification/Batches.thy ===== *)
theory Batches
  imports Prelude
begin

text \<open>
  The split of a range of indices into batches that run in parallel
  (\<^verbatim>\<open>pkg/config/watcher/batch.go\<close>). The batches are contiguous, in order, and cover every
  index exactly once; no two sizes differ by more than one and none exceeds the limit.
\<close>

record batch_config =
  bc_StartIndex :: int
  bc_EndIndex :: int
  bc_Count :: int

text \<open>The loop of \<^verbatim>\<open>BalanceBatches\<close> from batch \<^term>\<open>i\<close> on, with the running index.\<close>

fun balance_from :: "int \<Rightarrow> int \<Rightarrow> nat \<Rightarrow> int \<Rightarrow> int \<Rightarrow> batch_config list" where
  "balance_from baseSize remainder 0 i currentIndex = []"
| "balance_from baseSize remainder (Suc left) i currentIndex =
     (let batchSize = (if i < remainder then baseSize + 1 else baseSize)
      in \<lparr>bc_StartIndex = currentIndex, bc_EndIndex = currentIndex + batchSize - 1, bc_Count = batchSize\<rparr>
         # balance_from baseSize remainder left (i + 1) (currentIndex + batchSize))"

definition BalanceBatches :: "int \<Rightarrow> int \<Rightarrow> batch_config list" where
  "BalanceBatches totalCards maxPerBatch =
     (if totalCards \<le> 0 \<or> maxPerBatch \<le> 0 then []
      else let numBatches = (totalCards + maxPerBatch - 1) div maxPerBatch
           in balance_from (totalCards div numBatches) (totalCards mod numBatches) (nat numBatches) 0 0)"

text \<open>The indices a worker visits, from the start to the end of its batch.\<close>

definition batch_indices :: "batch_config \<Rightarrow> int list" where
  "batch_indices b = [bc_StartIndex b .. bc_EndIndex b]"

lemma upto_append: "a \<le> b + 1 \<Longrightarrow> b \<le> c \<Longrightarrow> [a .. b] @ [b + 1 .. c] = [a .. c]" for a b c :: int
proof (cases "a \<le> b")
  case False
  moreover assume "a \<le> b + 1"
  ultimately have "a = b + 1" by simp
  then show ?thesis by simp
qed (simp add: upto_split2 [of a b c])

lemma balance_from_cover:
  assumes "0 \<le> baseSize" "0 \<le> i"
  shows "concat (map batch_indices (balance_from baseSize remainder left i cur)) =
    [cur .. cur + int left * baseSize + (if i < remainder then min (int left) (remainder - i) else 0) - 1]"
  using assms(2)
proof (induction left arbitrary: i cur)
  case (Suc left)
  define sz where "sz = (if i < remainder then baseSize + 1 else baseSize)"
  define top where "top = cur + int (Suc left) * baseSize + (if i < remainder then min (int (Suc left)) (remainder - i) else 0) - 1"
  have sz: "0 \<le> sz" using assms(1) by (simp add: sz_def)
  have top: "top = cur + sz + int left * baseSize + (if i + 1 < remainder then min (int left) (remainder - (i + 1)) else 0) - 1"
    by (simp add: top_def sz_def min_def algebra_simps)
  have "concat (map batch_indices (balance_from baseSize remainder (Suc left) i cur)) =
      [cur .. cur + sz - 1] @ concat (map batch_indices (balance_from baseSize remainder left (i + 1) (cur + sz)))"
    by (simp add: sz_def Let_def batch_indices_def)
  also have "\<dots> = [cur .. cur + sz - 1] @ [cur + sz - 1 + 1 .. top]"
    using Suc.IH [of "i + 1" "cur + sz"] Suc.prems unfolding top by simp
  also have "\<dots> = [cur .. top]"
  proof (rule upto_append)
    have "0 \<le> int left * baseSize" using assms(1) by simp
    then show "cur + sz - 1 \<le> top" by (auto simp: sz_def top_def algebra_simps)
  qed (use sz in simp)
  finally show ?case unfolding top_def .
qed simp

lemma balance_from_sizes:
  "b \<in> set (balance_from baseSize remainder left i cur) \<Longrightarrow>
     bc_EndIndex b = bc_StartIndex b + bc_Count b - 1 \<and>
     (bc_Count b = baseSize \<or> (bc_Count b = baseSize + 1 \<and> i < remainder))"
proof (induction left arbitrary: i cur)
  case (Suc left)
  then show ?case by (fastforce simp: Let_def split: if_splits)
qed simp

lemma length_balance_from: "length (balance_from baseSize remainder left i cur) = left"
  by (induction left arbitrary: i cur) (simp_all add: Let_def)

lemma batch_bounds:
  fixes total limit :: int
  assumes "0 < total" "0 < limit"
  defines "k \<equiv> (total + limit - 1) div limit"
  shows "0 < k" "k \<le> total" "total div k \<le> limit" "total mod k \<noteq> 0 \<Longrightarrow> total div k + 1 \<le> limit" "0 < total div k"
proof -
  have kl: "total \<le> k * limit" "k * limit < total + limit"
  proof -
    have d: "k * limit + (total + limit - 1) mod limit = total + limit - 1" unfolding k_def by (rule div_mult_mod_eq)
    have "0 \<le> (total + limit - 1) mod limit" "(total + limit - 1) mod limit < limit" using assms(2) by simp_all
    with d show "total \<le> k * limit" "k * limit < total + limit" by linarith+
  qed
  have "0 < k * limit" using kl(1) assms(1) by linarith
  then show k: "0 < k" using assms(2) by (simp add: zero_less_mult_iff)
  have "limit * 1 \<le> limit * total" "(total - 1) * (limit - 1) \<ge> 0" using assms(1,2) by simp_all
  then have "total + limit - 1 \<le> limit * total" by (simp add: algebra_simps)
  from zdiv_mono1 [OF this assms(2)] show kt: "k \<le> total" unfolding k_def using assms(2) by simp
  have "total div k \<le> (limit * k) div k" using kl(1) k by (intro zdiv_mono1) (simp_all add: mult.commute)
  then show le: "total div k \<le> limit" using k by simp
  show "0 < total div k" using kt k by (simp add: pos_imp_zdiv_pos_iff)
  have t: "total = k * (total div k) + total mod k" by simp
  show "total div k + 1 \<le> limit" if "total mod k \<noteq> 0"
  proof (rule ccontr)
    assume "\<not> ?thesis"
    then have "total div k = limit" using le by simp
    then have "total = k * limit + total mod k" using t by simp
    then show False using kl(1) that pos_mod_sign [of k total] k by linarith
  qed
qed

lemma BalanceBatches_cover:
  assumes "0 < cards" "0 < limit"
  shows "concat (map batch_indices (BalanceBatches cards limit)) = [0 .. cards - 1]"
proof -
  define k where "k = (cards + limit - 1) div limit"
  note kb = batch_bounds [OF assms, folded k_def]
  have bb: "BalanceBatches cards limit = balance_from (cards div k) (cards mod k) (nat k) 0 0"
    using assms by (simp add: BalanceBatches_def k_def Let_def)
  have rem: "0 \<le> cards mod k" "cards mod k < k" using kb(1) by simp_all
  have pick: "(if 0 < r then min (int (nat k)) (r - 0) else 0) = r" if "0 \<le> r" "r < k" for r :: int using that by auto
  have "concat (map batch_indices (BalanceBatches cards limit)) =
      [0 .. 0 + int (nat k) * (cards div k) + (if 0 < cards mod k then min (int (nat k)) (cards mod k - 0) else 0) - 1]"
    unfolding bb using kb(5) by (intro balance_from_cover) simp_all
  also have "(if 0 < cards mod k then min (int (nat k)) (cards mod k - 0) else 0) = cards mod k"
    by (rule pick [OF rem])
  also have "0 + int (nat k) * (cards div k) + cards mod k = cards" using kb(1) by simp
  finally show ?thesis .
qed



end
