(* ===== verification/Endpoint.thy ===== *)
theory Endpoint
  imports Kube
begin

text \<open>
  Endpoint strings of the remote-GPU components (\<^verbatim>\<open>pkg/util/endpoint/endpoint.go\<close>) and the
  endpoints a GPU server publishes on its node (\<^verbatim>\<open>pkg/device/remotegpu/endpoints.go\<close>). The URL,
  IP and JSON parsers of the standard library are the record \<^verbatim>\<open>net_env\<close>. A server is only ever
  read with endpoints other nodes can dial.
\<close>

section \<open>Endpoints\<close>

record url =
  u_Scheme :: string
  u_Opaque :: string
  u_Host :: string
  u_Hostname :: string
  u_Port :: string
  u_Path :: string
  u_RawQuery :: string
  u_Fragment :: string
  u_User :: bool

record ip_class =
  ip_Unspecified :: bool
  ip_Loopback :: bool

record server_endpoint_info =
  se_ServerEndpoint :: string
  se_AgentEndpoint :: string
  se_ServerCUDAVersion :: string
  se_BundleETag :: string

text \<open>\<^verbatim>\<open>url.Parse\<close>, \<^verbatim>\<open>URL.String\<close> for a scheme, a host and a path, \<^verbatim>\<open>net.ParseIP\<close>, and the JSON
  decoder and encoder of the published endpoints.\<close>

record net_env =
  ne_parseURL :: "string \<Rightarrow> string + url"
  ne_urlString :: "string \<Rightarrow> string \<Rightarrow> string \<Rightarrow> string"
  ne_parseIP :: "string \<Rightarrow> ip_class option"
  ne_decodeEndpoints :: "string \<Rightarrow> string + server_endpoint_info"
  ne_encodeEndpoints :: "server_endpoint_info \<Rightarrow> string"

record endpoint =
  ep_Scheme :: string
  ep_Host :: string
  ep_Port :: string
  ep_Path :: string

definition Http :: string where "Http = ''http''"

definition Https :: string where "Https = ''https''"

definition Unix :: string where "Unix = ''unix''"

definition Grpc :: string where "Grpc = ''grpc''"

definition HostPort :: "endpoint \<Rightarrow> string" where
  "HostPort e =
     (if ep_Scheme e = Unix then []
      else if ep_Port e = []
      then (if CHR '':'' \<in> set (ep_Host e) then ''['' @ ep_Host e @ '']'' else ep_Host e)
      else (if CHR '':'' \<in> set (ep_Host e) then ''['' @ ep_Host e @ '']:'' @ ep_Port e
            else ep_Host e @ '':'' @ ep_Port e))"

definition DefaultPort :: "int \<Rightarrow> endpoint \<Rightarrow> endpoint" where
  "DefaultPort port e =
     (if port \<noteq> 0 \<and> ep_Port e = [] \<and> ep_Scheme e \<noteq> Unix then e\<lparr>ep_Port := itoa port\<rparr> else e)"

definition Network :: "endpoint \<Rightarrow> string" where
  "Network e = (if ep_Scheme e = Unix then Unix else ''tcp'')"

definition DialTarget :: "endpoint \<Rightarrow> string" where
  "DialTarget e = (if ep_Scheme e = Unix then Unix @ ''://'' @ ep_Path e else HostPort e)"

definition IsWildcard :: "net_env \<Rightarrow> endpoint \<Rightarrow> bool" where
  "IsWildcard ne e =
     (if ep_Scheme e = Unix then False
      else if ep_Host e = [] then True
      else (case ne_parseIP ne (ep_Host e) of None \<Rightarrow> False | Some ip \<Rightarrow> ip_Unspecified ip))"

definition IsLoopback :: "net_env \<Rightarrow> endpoint \<Rightarrow> bool" where
  "IsLoopback ne e =
     (if ep_Scheme e = Unix \<or> IsWildcard ne e then True
      else if to_lower (ep_Host e) = ''localhost'' then True
      else (case ne_parseIP ne (ep_Host e) of None \<Rightarrow> False | Some ip \<Rightarrow> ip_Loopback ip))"

definition Endpoint_String :: "net_env \<Rightarrow> endpoint \<Rightarrow> string" where
  "Endpoint_String ne e =
     ne_urlString ne (ep_Scheme e) (if ep_Scheme e \<noteq> Unix then HostPort e else []) (ep_Path e)"

section \<open>Parsing\<close>

datatype endpoint_error =
    EmptyEndpoint
  | BadURL string
  | UnsupportedScheme string
  | OpaqueEndpoint string string
  | ExtraParts string
  | BadUnixEndpoint string
  | BadPort string string
  | EmptyEndpointList

definition ParseEndpoint :: "net_env \<Rightarrow> string \<Rightarrow> int \<Rightarrow> string \<Rightarrow> endpoint_error + endpoint" where
  "ParseEndpoint ne defaultScheme defaultPort raw =
     (let trimmed = trim_space raw in
      if trimmed = [] then Inl EmptyEndpoint
      else case ne_parseURL ne (if sublist ''://'' trimmed then trimmed else defaultScheme @ ''://'' @ trimmed) of
        Inl err \<Rightarrow> Inl (BadURL err)
      | Inr u \<Rightarrow>
          if u_Scheme u \<notin> {Https, Http, Unix, Grpc} then Inl (UnsupportedScheme (u_Scheme u))
          else if u_Opaque u \<noteq> [] then Inl (OpaqueEndpoint raw (u_Scheme u))
          else if u_RawQuery u \<noteq> [] \<or> u_Fragment u \<noteq> [] \<or> u_User u then Inl (ExtraParts raw)
          else
            let e = \<lparr>ep_Scheme = u_Scheme u, ep_Host = u_Hostname u, ep_Port = u_Port u, ep_Path = u_Path u\<rparr> in
            if ep_Scheme e = Unix
            then (if u_Host u \<noteq> [] \<or> take 1 (ep_Path e) \<noteq> ''/'' then Inl (BadUnixEndpoint raw) else Inr e)
            else if ep_Port e \<noteq> [] \<and>
                    (case parse_int (ep_Port e) of None \<Rightarrow> True | Some p \<Rightarrow> p < 0 \<or> p > 65535)
            then Inl (BadPort (ep_Port e) raw)
            else Inr (DefaultPort defaultPort e))"

fun parse_items :: "net_env \<Rightarrow> string \<Rightarrow> int \<Rightarrow> string list \<Rightarrow> endpoint_error + endpoint list" where
  "parse_items ne defaultScheme defaultPort [] = Inr []"
| "parse_items ne defaultScheme defaultPort (item # items) =
     (if trim_space item = [] then parse_items ne defaultScheme defaultPort items
      else case ParseEndpoint ne defaultScheme defaultPort item of
        Inl err \<Rightarrow> Inl err
      | Inr e \<Rightarrow> map_sum id (Cons e) (parse_items ne defaultScheme defaultPort items))"

definition ParseEndpoints :: "net_env \<Rightarrow> string \<Rightarrow> int \<Rightarrow> string \<Rightarrow> endpoint_error + endpoint list" where
  "ParseEndpoints ne defaultScheme defaultPort raw =
     (case parse_items ne defaultScheme defaultPort (split_on (CHR '','') raw) of
        Inl err \<Rightarrow> Inl err
      | Inr out \<Rightarrow> if out = [] then Inl EmptyEndpointList else Inr out)"

section \<open>The endpoints of a GPU server\<close>

datatype server_error =
    NoEndpointAnnotation string
  | BadEndpoints string string
  | ServerUnreachable
  | BadEndpoint string string endpoint_error
  | BadScheme string string "string list"
  | NotReachable string string
  | PortRequired string string

definition parseRoutable :: "net_env \<Rightarrow> string \<Rightarrow> string \<Rightarrow> string list \<Rightarrow> server_error + endpoint" where
  "parseRoutable ne name raw schemes =
     (case ParseEndpoint ne Http 0 raw of
        Inl err \<Rightarrow> Inl (BadEndpoint name raw err)
      | Inr ep \<Rightarrow>
          if ep_Scheme ep \<notin> set schemes then Inl (BadScheme name raw schemes)
          else if IsLoopback ne ep then Inl (NotReachable name raw)
          else if ep_Port ep = [] then Inl (PortRequired name raw)
          else Inr ep)"

definition normalize :: "net_env \<Rightarrow> server_endpoint_info \<Rightarrow> server_error + server_endpoint_info" where
  "normalize ne e =
     (case parseRoutable ne ''server'' (se_ServerEndpoint e) [Http, Https] of
        Inl err \<Rightarrow> Inl err
      | Inr server \<Rightarrow>
          (case parseRoutable ne ''agent'' (se_AgentEndpoint e) [Grpc] of
             Inl err \<Rightarrow> Inl err
           | Inr agent \<Rightarrow> Inr (e\<lparr>se_ServerEndpoint := Endpoint_String ne server,
                                se_AgentEndpoint := Endpoint_String ne agent\<rparr>)))"

definition ServerEndpointInfo_Encode :: "net_env \<Rightarrow> server_endpoint_info \<Rightarrow> server_error + string" where
  "ServerEndpointInfo_Encode ne e = map_sum id (ne_encodeEndpoints ne) (normalize ne e)"

definition DecodeServerEndpointInfo :: "net_env \<Rightarrow> string \<Rightarrow> server_error + server_endpoint_info" where
  "DecodeServerEndpointInfo ne val =
     (case ne_decodeEndpoints ne val of
        Inl err \<Rightarrow> Inl (BadEndpoints val err)
      | Inr e \<Rightarrow>
          if se_ServerEndpoint e = [] \<and> se_AgentEndpoint e = [] then Inl ServerUnreachable
          else normalize ne e)"

definition GetServerEndpointInfo :: "net_env \<Rightarrow> node \<Rightarrow> server_error + server_endpoint_info" where
  "GetServerEndpointInfo ne n =
     (let val = (case map_of (n_Annotations n) NodeRemoteEndpointsAnnotation of None \<Rightarrow> [] | Some v \<Rightarrow> v) in
      if val = [] then Inl (NoEndpointAnnotation (n_Name n)) else DecodeServerEndpointInfo ne val)"

section \<open>Published endpoints can be dialled\<close>

text \<open>An endpoint another node can dial: a TCP scheme, a host that is not this machine, a port.\<close>

definition routable :: "net_env \<Rightarrow> string list \<Rightarrow> endpoint \<Rightarrow> bool" where
  "routable ne schemes ep \<longleftrightarrow>
     ep_Scheme ep \<in> set schemes \<and> Network ep = ''tcp'' \<and> \<not> IsLoopback ne ep \<and> ep_Host ep \<noteq> [] \<and>
     (\<exists>port. parse_int (ep_Port ep) = Some port \<and> 0 \<le> port \<and> port \<le> 65535) \<and>
     DialTarget ep = HostPort ep \<and> suffix (CHR '':'' # ep_Port ep) (DialTarget ep)"

lemma ParseEndpoint_port:
  assumes "ParseEndpoint ne scheme 0 raw = Inr ep" "ep_Scheme ep \<noteq> Unix" "ep_Port ep \<noteq> []"
  shows "\<exists>port. parse_int (ep_Port ep) = Some port \<and> 0 \<le> port \<and> port \<le> 65535"
  using assms
  by (auto simp: ParseEndpoint_def Let_def DefaultPort_def split: if_splits sum.splits option.splits)

lemma parseRoutable_routable:
  assumes "parseRoutable ne name raw schemes = Inr ep"
  shows "routable ne schemes ep"
proof -
  have p: "ParseEndpoint ne Http 0 raw = Inr ep" and s: "ep_Scheme ep \<in> set schemes" "\<not> IsLoopback ne ep" "ep_Port ep \<noteq> []"
    using assms by (auto simp: parseRoutable_def split: sum.splits if_splits)
  have u: "ep_Scheme ep \<noteq> Unix" "ep_Host ep \<noteq> []" using s(2) by (auto simp: IsLoopback_def IsWildcard_def split: if_splits)
  have "suffix (CHR '':'' # ep_Port ep) (HostPort ep)"
    using s(3) u(1) by (simp add: HostPort_def suffix_def)
  then show ?thesis
    using s u ParseEndpoint_port [OF p u(1) s(3)] by (simp add: routable_def Network_def DialTarget_def)
qed

text \<open>
  C38. A GPU server is only read with endpoints other nodes can dial: whatever its node annotation holds,
  a decoded server has an http or https server endpoint and a grpc agent endpoint, each with a
  host that is not this machine and a valid port, printed in the normal form of the URL; the
  dial target of each ends in its port.
\<close>

theorem GetServerEndpointInfo_routable:
  assumes "GetServerEndpointInfo ne n = Inr e"
  shows "\<exists>server agent. routable ne [Http, Https] server \<and> routable ne [Grpc] agent \<and>
    se_ServerEndpoint e = Endpoint_String ne server \<and> se_AgentEndpoint e = Endpoint_String ne agent"
proof -
  obtain raw where "normalize ne raw = Inr e"
    using assms by (auto simp: GetServerEndpointInfo_def DecodeServerEndpointInfo_def Let_def split: if_splits sum.splits)
  then obtain server agent where p: "parseRoutable ne ''server'' (se_ServerEndpoint raw) [Http, Https] = Inr server"
    "parseRoutable ne ''agent'' (se_AgentEndpoint raw) [Grpc] = Inr agent"
    "e = raw\<lparr>se_ServerEndpoint := Endpoint_String ne server, se_AgentEndpoint := Endpoint_String ne agent\<rparr>"
    by (auto simp: normalize_def split: sum.splits)
  show ?thesis using parseRoutable_routable [OF p(1)] parseRoutable_routable [OF p(2)] p(3) by auto
qed

text \<open>A concrete environment: URLs of the form scheme, host and port, and no IP literals.\<close>

definition demo_net :: net_env where
  "demo_net =
     \<lparr>ne_parseURL = (\<lambda>s. if s = ''http://gpu-1:14833''
        then Inr \<lparr>u_Scheme = Http, u_Opaque = [], u_Host = ''gpu-1:14833'', u_Hostname = ''gpu-1'', u_Port = ''14833'', u_Path = [],
                  u_RawQuery = [], u_Fragment = [], u_User = False\<rparr>
        else if s = ''grpc://gpu-1:9000''
        then Inr \<lparr>u_Scheme = Grpc, u_Opaque = [], u_Host = ''gpu-1:9000'', u_Hostname = ''gpu-1'', u_Port = ''9000'', u_Path = [],
                  u_RawQuery = [], u_Fragment = [], u_User = False\<rparr>
        else Inl ''invalid URL''),
      ne_urlString = (\<lambda>scheme host path. scheme @ ''://'' @ host @ path),
      ne_parseIP = (\<lambda>s. None),
      ne_decodeEndpoints = (\<lambda>s. if s = ''demo''
        then Inr \<lparr>se_ServerEndpoint = ''gpu-1:14833'', se_AgentEndpoint = ''grpc://gpu-1:9000'', se_ServerCUDAVersion = [], se_BundleETag = []\<rparr>
        else Inl ''unexpected end of JSON input''),
      ne_encodeEndpoints = (\<lambda>e. ''demo'')\<rparr>"

lemma demo_net_texts:
  "trim_space ''gpu-1:14833'' = ''gpu-1:14833''" "trim_space ''grpc://gpu-1:9000'' = ''grpc://gpu-1:9000''"
  "sublist ''://'' ''grpc://gpu-1:9000''" "\<not> sublist ''://'' ''gpu-1:14833''"
  "parse_int ''14833'' = Some 14833" "parse_int ''9000'' = Some 9000" "to_lower ''gpu-1'' \<noteq> ''localhost''"
  by (simp_all add: trim_space_def is_space_def parse_int_def parse_nat_def digit_val_def in_i64_def to_lower_def
      lower_char_def sublist_code)

lemma demo_net_parses:
  "parseRoutable demo_net ''server'' ''gpu-1:14833'' [Http, Https] =
     Inr \<lparr>ep_Scheme = ''http'', ep_Host = ''gpu-1'', ep_Port = ''14833'', ep_Path = []\<rparr>"
  "parseRoutable demo_net ''agent'' ''grpc://gpu-1:9000'' [Grpc] =
     Inr \<lparr>ep_Scheme = ''grpc'', ep_Host = ''gpu-1'', ep_Port = ''9000'', ep_Path = []\<rparr>"
proof -
  have u: "ne_parseURL demo_net (''http'' @ ''://'' @ ''gpu-1:14833'') = Inr \<lparr>u_Scheme = ''http'', u_Opaque = [], u_Host = ''gpu-1:14833'',
      u_Hostname = ''gpu-1'', u_Port = ''14833'', u_Path = [], u_RawQuery = [], u_Fragment = [], u_User = False\<rparr>"
    "ne_parseURL demo_net ''grpc://gpu-1:9000'' = Inr \<lparr>u_Scheme = ''grpc'', u_Opaque = [], u_Host = ''gpu-1:9000'',
      u_Hostname = ''gpu-1'', u_Port = ''9000'', u_Path = [], u_RawQuery = [], u_Fragment = [], u_User = False\<rparr>"
    by (simp_all add: demo_net_def Http_def Grpc_def)
  have i: "ne_parseIP demo_net h = None" for h by (simp add: demo_net_def)
  have e: "ParseEndpoint demo_net Http 0 ''gpu-1:14833'' = Inr \<lparr>ep_Scheme = ''http'', ep_Host = ''gpu-1'', ep_Port = ''14833'', ep_Path = []\<rparr>"
    "ParseEndpoint demo_net Http 0 ''grpc://gpu-1:9000'' = Inr \<lparr>ep_Scheme = ''grpc'', ep_Host = ''gpu-1'', ep_Port = ''9000'', ep_Path = []\<rparr>"
    unfolding ParseEndpoint_def demo_net_texts Let_def Http_def
    by (simp_all only: if_True if_False demo_net_texts simp_thms u sum.case)
      (simp_all add: Https_def Unix_def Grpc_def demo_net_texts DefaultPort_def)
  show "parseRoutable demo_net ''server'' ''gpu-1:14833'' [Http, Https] =
     Inr \<lparr>ep_Scheme = ''http'', ep_Host = ''gpu-1'', ep_Port = ''14833'', ep_Path = []\<rparr>"
   "parseRoutable demo_net ''agent'' ''grpc://gpu-1:9000'' [Grpc] =
     Inr \<lparr>ep_Scheme = ''grpc'', ep_Host = ''gpu-1'', ep_Port = ''9000'', ep_Path = []\<rparr>"
    unfolding parseRoutable_def e using demo_net_texts(7)
    by (simp_all add: IsLoopback_def IsWildcard_def i Http_def Https_def Unix_def Grpc_def)
qed

definition demo_server_node :: node where
  "demo_server_node =
     \<lparr>n_Name = ''gpu-1'', n_Annotations = [(NodeRemoteEndpointsAnnotation, ''demo'')], n_Labels = [(NodeRemoteServerLabel, ''true'')],
      n_Allocatable = [], n_Deleting = False, n_Taints = []\<rparr>"

theorem GetServerEndpointInfo_routable_witness:
  "case GetServerEndpointInfo demo_net demo_server_node of
     Inl err \<Rightarrow> False
   | Inr e \<Rightarrow> (\<exists>server. routable demo_net [Http, Https] server \<and> se_ServerEndpoint e = Endpoint_String demo_net server)"
proof -
  have "ne_decodeEndpoints demo_net ''demo'' =
      Inr \<lparr>se_ServerEndpoint = ''gpu-1:14833'', se_AgentEndpoint = ''grpc://gpu-1:9000'', se_ServerCUDAVersion = [], se_BundleETag = []\<rparr>"
    by (simp add: demo_net_def)
  then have "\<exists>e. GetServerEndpointInfo demo_net demo_server_node = Inr e"
    by (simp add: GetServerEndpointInfo_def DecodeServerEndpointInfo_def normalize_def demo_net_parses demo_server_node_def)
  then obtain e where e: "GetServerEndpointInfo demo_net demo_server_node = Inr e" by blast
  show ?thesis using GetServerEndpointInfo_routable [OF e] e by auto
qed

end
