(* ===== verification/Patch.thy ===== *)
theory Patch
  imports Node_Info
begin

text \<open>
  The metadata patches that move a pod through its allocation phases
  (\<^verbatim>\<open>pkg/client/kube_patch.go\<close>). The API server, with the retries of client-go around it, is the
  function \<^verbatim>\<open>server\<close> from the patched pod and the patch to an error or the stored pod; what the
  properties use of it is that it stores the merge (RFC 7386) of the patch into the pod's metadata.
\<close>

section \<open>Phases and patches\<close>

definition AssignPhaseFiltering :: string where "AssignPhaseFiltering = ''filtering''"

definition AssignPhaseAllocating :: string where "AssignPhaseAllocating = ''allocating''"

definition AssignPhaseSucceed :: string where "AssignPhaseSucceed = ''succeed''"

definition AssignPhaseFailed :: string where "AssignPhaseFailed = ''failed''"

text \<open>\<^term>\<open>None\<close> is the JSON null that deletes the key.\<close>

record patch_metadata =
  pm_Annotations :: "(anno_key, string option) gomap"
  pm_Labels :: "(label_key, string option) gomap"
  pm_ResourceVersion :: string

type_synonym kube_server = "pod \<Rightarrow> patch_metadata \<Rightarrow> string + pod"

datatype patch_error =
    ServerRefused string
  | BadPreClaims claim_error
  | BadRealClaims claim_error
  | PreAllocTooLong

text \<open>The pod the caller holds becomes the stored one when the patch succeeds.\<close>

definition PatchPodMetadata :: "kube_server \<Rightarrow> pod \<Rightarrow> patch_metadata \<Rightarrow> patch_error option \<times> pod" where
  "PatchPodMetadata server p pm =
     (case server p pm of Inl err \<Rightarrow> (Some (ServerRefused err), p) | Inr p' \<Rightarrow> (None, p'))"

definition max_time :: string where
  "max_time = itoa max_int"

definition succeed_patch :: "pod \<Rightarrow> patch_error + patch_metadata" where
  "succeed_patch p =
     (let realAlloc = anno_or_empty p PodVGPURealAllocAnnotation in
      case PodDeviceClaim_UnmarshalText (anno_or_empty p PodVGPUPreAllocAnnotation) of
        Inl err \<Rightarrow> Inl (BadPreClaims err)
      | Inr preDevices \<Rightarrow>
          (case PodDeviceClaim_UnmarshalText realAlloc of
             Inl err \<Rightarrow> Inl (BadRealClaims err)
           | Inr realDevices \<Rightarrow>
               let all = length realDevices \<ge> length preDevices;
                   assignedPhase = (if all then AssignPhaseSucceed else AssignPhaseAllocating);
                   predicateTime = (if all then max_time else anno_or_empty p PodPredicateTimeAnnotation);
                   nodeName = PodPlanSchedulingNode p
               in Inr \<lparr>pm_Annotations = [(PodVGPURealAllocAnnotation, Some realAlloc),
                                        (PodPredicateTimeAnnotation, Some predicateTime)],
                       pm_Labels = (PodAssignedPhaseLabel, Some assignedPhase)
                         # (if p_NodeName p \<noteq> [] \<and> nodeName \<noteq> [] then [(PodMetricsNodeLabel, Some nodeName)] else []),
                       pm_ResourceVersion = []\<rparr>))"

definition PatchPodAllocationSucceed :: "kube_server \<Rightarrow> pod \<Rightarrow> patch_error option \<times> pod" where
  "PatchPodAllocationSucceed server p =
     (case succeed_patch p of Inl err \<Rightarrow> (Some err, p) | Inr pm \<Rightarrow> PatchPodMetadata server p pm)"

text \<open>Whether a pod that asks for no vGPU carries metadata to clean up.\<close>

definition stray_metadata :: "pod \<Rightarrow> bool" where
  "stray_metadata p =
     (HasLabel p PodMetricsNodeLabel \<noteq> None \<or> HasLabel p PodAssignedPhaseLabel \<noteq> None \<or>
      HasAnnotation p PodPredicateTimeAnnotation \<noteq> None)"

definition allocating_patch :: "env \<Rightarrow> pod \<Rightarrow> patch_metadata" where
  "allocating_patch e p =
     (let node = anno_or_empty p PodPredicateNodeAnnotation in
      if IsVGPUResourcePod p
      then \<lparr>pm_Annotations = [(PodPredicateTimeAnnotation, Some (itoa (e_now e)))],
            pm_Labels = [(PodMetricsNodeLabel, if node \<noteq> [] then Some node else None),
                         (PodAssignedPhaseLabel, Some AssignPhaseAllocating)],
            pm_ResourceVersion = []\<rparr>
      else \<lparr>pm_Annotations = [(PodPredicateTimeAnnotation, None)],
            pm_Labels = [(PodMetricsNodeLabel, None), (PodAssignedPhaseLabel, None)], pm_ResourceVersion = []\<rparr>)"

definition PatchPodAllocationAllocating :: "env \<Rightarrow> kube_server \<Rightarrow> pod \<Rightarrow> patch_error option \<times> pod" where
  "PatchPodAllocationAllocating e server p =
     (if IsVGPUResourcePod p \<or> stray_metadata p then PatchPodMetadata server p (allocating_patch e p) else (None, p))"

definition failed_patch :: "pod \<Rightarrow> patch_metadata" where
  "failed_patch p =
     (if IsVGPUResourcePod p
      then \<lparr>pm_Annotations = [(PodPredicateTimeAnnotation, Some max_time)],
            pm_Labels = [(PodMetricsNodeLabel, None), (PodAssignedPhaseLabel, Some AssignPhaseFailed)], pm_ResourceVersion = []\<rparr>
      else \<lparr>pm_Annotations = [(PodPredicateTimeAnnotation, None)],
            pm_Labels = [(PodMetricsNodeLabel, None), (PodAssignedPhaseLabel, None)], pm_ResourceVersion = []\<rparr>)"

definition PatchPodAllocationFailed :: "kube_server \<Rightarrow> pod \<Rightarrow> patch_error option \<times> pod" where
  "PatchPodAllocationFailed server p =
     (if IsVGPUResourcePod p \<or> stray_metadata p then PatchPodMetadata server p (failed_patch p) else (None, p))"

definition preallocated_patch :: "env \<Rightarrow> pod \<Rightarrow> patch_metadata" where
  "preallocated_patch e p =
     (let nodeName = anno_or_empty p PodPredicateNodeAnnotation in
      \<lparr>pm_Annotations = [(PodPredicateNodeAnnotation, Some nodeName),
                         (PodVGPUPreAllocAnnotation, Some (anno_or_empty p PodVGPUPreAllocAnnotation)),
                         (PodVGPURealAllocAnnotation, Some []),
                         (PodPredicateTimeAnnotation, Some (itoa (e_now e mod 2 ^ 64)))],
       pm_Labels = [(PodMetricsNodeLabel, Some nodeName), (PodAssignedPhaseLabel, Some AssignPhaseFiltering)],
       pm_ResourceVersion = []\<rparr>)"

definition PatchPodPreAllocatedMetadata :: "env \<Rightarrow> kube_server \<Rightarrow> pod \<Rightarrow> patch_error option \<times> pod" where
  "PatchPodPreAllocatedMetadata e server p =
     (if int (length (anno_or_empty p PodVGPUPreAllocAnnotation)) > PodAnnotationMaxLength then (Some PreAllocTooLong, p)
      else PatchPodMetadata server p (preallocated_patch e p))"

section \<open>What the server stores\<close>

definition merge_map :: "('k, 'v) gomap \<Rightarrow> ('k, 'v option) gomap \<Rightarrow> ('k, 'v) gomap" where
  "merge_map m d = foldl (\<lambda>m (k, v). case v of None \<Rightarrow> AList.delete k m | Some x \<Rightarrow> AList.update k x m) m d"

definition merge_patch :: "pod \<Rightarrow> patch_metadata \<Rightarrow> pod" where
  "merge_patch p pm =
     p\<lparr>p_Annotations := merge_map (p_Annotations p) (pm_Annotations pm), p_Labels := merge_map (p_Labels p) (pm_Labels pm)\<rparr>"

lemma map_of_merge_Cons:
  "map_of (merge_map m ((k, v) # d)) x = map_of (merge_map (case v of None \<Rightarrow> AList.delete k m | Some y \<Rightarrow> AList.update k y m) d) x"
  by (simp add: merge_map_def)

lemma map_of_delete: "map_of (AList.delete k m) x = (if x = k then None else map_of m x)"
  by (induction m) auto

lemma merge_map_Nil [simp]: "merge_map m [] = m"
  by (simp add: merge_map_def)

lemmas merge_simps = map_of_merge_Cons map_of_update map_of_delete HasAnnotation_def HasLabel_def anno_or_empty_def

section \<open>The phases decide whether an allocation counts\<close>

lemma merge_fields [simp]:
  "p_NodeName (merge_patch p pm) = p_NodeName p" "p_Scheduled (merge_patch p pm) = p_Scheduled p"
  "p_Containers (merge_patch p pm) = p_Containers p" "p_InitContainers (merge_patch p pm) = p_InitContainers p"
  "p_UID (merge_patch p pm) = p_UID p" "p_Phase (merge_patch p pm) = p_Phase p"
  "IsVGPUResourcePod (merge_patch p pm) = IsVGPUResourcePod p"
  by (simp_all add: merge_patch_def IsVGPUResourcePod_def)

lemma failed_not_counted:
  assumes "IsVGPUResourcePod p" "p_NodeName p = []"
  shows "\<not> ShouldCountPodDeviceAllocation e (merge_patch p (failed_patch p))"
  using assms by (simp add: ShouldCountPodDeviceAllocation_def failed_patch_def merge_patch_def merge_simps AssignPhaseFailed_def)

end
