(* ===== verification/Filter_Verb.thy ===== *)
theory Filter_Verb
  imports Capacity_Gate Patch Endpoint Batches
begin

text \<open>
  The filter verb of the scheduler extender (\<^verbatim>\<open>pkg/scheduler/filter/filter_predicate.go\<close>), in
  both its modes: the live one, which commits a pre-allocation on the first node that takes the
  pod, and the dry run, which reports every node that would. The informers, the API server, the
  context of the call and the texts of foreign errors are the record \<^verbatim>\<open>filter_env\<close>; the order in
  which the parallel batches finish is one of its fields. The event recorder and the metrics are
  a trace; durations, logs and the lock wait have no definition.
\<close>

section \<open>Environment, arguments and results\<close>

record filter_env =
  fe_env :: env
  fe_net :: net_env
  fe_getNode :: "string \<Rightarrow> string + node"
  fe_listNodes :: "(node \<Rightarrow> bool) \<Rightarrow> string + node list"
  fe_parseSelector :: "string \<Rightarrow> string + (node \<Rightarrow> bool)"
  fe_untolerated :: "taint list \<Rightarrow> toleration list \<Rightarrow> (taint \<Rightarrow> bool) \<Rightarrow> bool"
  fe_vgpuPods :: "string + pod list"
  fe_gangPods :: "string \<Rightarrow> string + pod list"
  fe_ownerPods :: "string \<Rightarrow> string + pod list"
  fe_server :: kube_server
  fe_ctxLocked :: "string option"
  fe_ctxCommit :: "string option"
  fe_workers :: int
  fe_finish :: "nat \<Rightarrow> nat list"
  fe_gpuTopology :: bool
  fe_decodeText :: "string \<Rightarrow> string"
  fe_scalingText :: "f64 \<Rightarrow> string"
  fe_serverErrorText :: "server_error \<Rightarrow> string"

record extender_args =
  ea_Pod :: "pod option"
  ea_Nodes :: "node list option"
  ea_NodeNames :: "string list option"

text \<open>The error texts of the filter; \<^term>\<open>Crashed\<close> is a panic of a worker.\<close>

datatype filter_error =
    BadArgs string
  | InvalidRequest string
  | Predicated string
  | ContextDone string
  | ListFailed string
  | AllocatorFailed alloc_error
  | PatchFailed patch_error
  | Crashed

type_synonym reasons = "(string, filter_reason option) gomap"

record filter_result =
  fx_Nodes :: "node list option"
  fx_NodeNames :: "string list option"
  fx_FailedNodes :: "(string, string) gomap"
  fx_Error :: "filter_error option"

definition no_result :: filter_result where
  "no_result = \<lparr>fx_Nodes = None, fx_NodeNames = None, fx_FailedNodes = [], fx_Error = None\<rparr>"

datatype filter_mode = liveFilter | dryRunFilter

definition isDryRun :: "filter_mode \<Rightarrow> bool" where
  "isDryRun m = (m = dryRunFilter)"

definition verb :: "filter_mode \<Rightarrow> string" where
  "verb m = (if isDryRun m then ''filter_dryrun'' else ''filter'')"

text \<open>What an operator or the cluster sees of a call: events, writes to pods, metrics.\<close>

datatype filter_effect =
    EventSent string string
  | AllocatorSaw observation
  | PodPatched pod
  | PodMutated pod
  | NodeRejected string code
  | PodPolicy string string string
  | TopologyPlacement string string
  | CrossPodAlignment string
  | VerbObserved string string

definition NodeNames :: "extender_args \<Rightarrow> string list" where
  "NodeNames args =
     (case ea_Nodes args of
        Some items \<Rightarrow> map n_Name items
      | None \<Rightarrow> (case ea_NodeNames args of Some names \<Rightarrow> names | None \<Rightarrow> []))"

definition aggregateBucketNodeLimit :: int where
  "aggregateBucketNodeLimit = 5"

definition node_annotation :: "node \<Rightarrow> anno_key \<Rightarrow> string" where
  "node_annotation n k = (case map_of (n_Annotations n) k of None \<Rightarrow> [] | Some v \<Rightarrow> v)"

section \<open>The candidates of a call\<close>

definition getNodesOnCache :: "filter_env \<Rightarrow> string list \<Rightarrow> node list \<times> reasons" where
  "getNodesOnCache fe nodeNames =
     foldl (\<lambda>(nodes, failed) name.
       case fe_getNode fe name of
         Inl err \<Rightarrow> (nodes, AList.update name (reject NodeCacheMiss err) failed)
       | Inr node \<Rightarrow> (nodes @ [node], failed)) ([], []) nodeNames"

definition preFilterRequestNodes ::
  "filter_env \<Rightarrow> extender_args \<Rightarrow> filter_result + allocation_request \<times> node list \<times> reasons" where
  "preFilterRequestNodes fe args =
     (case ea_Pod args of
        None \<Rightarrow> Inl (no_result\<lparr>fx_Error := Some (BadArgs ''extenderArgs.Pod cannot be empty'')\<rparr>)
      | Some pod \<Rightarrow>
          if p_NodeName pod \<noteq> []
          then Inl (no_result\<lparr>fx_Error := Some (BadArgs (''pod has been bound to node '' @ p_NodeName pod))\<rparr>)
          else let req = BuildAllocationRequest pod in
            if ar_Containers req = []
            then Inl (no_result\<lparr>fx_Nodes := ea_Nodes args, fx_NodeNames := ea_NodeNames args\<rparr>)
            else if p_OS pod = Some ''windows''
            then Inl (no_result\<lparr>fx_Error := Some (BadArgs ''vGPU does not support windows pod'')\<rparr>)
            else if (case ea_NodeNames args of None \<Rightarrow> False | Some names \<Rightarrow> names \<noteq> [])
            then Inr (req, getNodesOnCache fe (case ea_NodeNames args of None \<Rightarrow> [] | Some names \<Rightarrow> names))
            else if (case ea_Nodes args of None \<Rightarrow> False | Some items \<Rightarrow> items \<noteq> [])
            then Inr (req, (case ea_Nodes args of None \<Rightarrow> [] | Some items \<Rightarrow> items), [])
            else Inl (no_result\<lparr>fx_Nodes := ea_Nodes args, fx_NodeNames := ea_NodeNames args,
                                fx_Error := Some (BadArgs ''No schedulable nodes'')\<rparr>))"

section \<open>Remote pods\<close>

definition remote_consumer :: "node list \<times> reasons \<Rightarrow> node \<Rightarrow> node list \<times> reasons" where
  "remote_consumer s n =
     (if n_Deleting n then (fst s, AList.update (n_Name n) (Some (New_reason NodeDeleting)) (snd s))
      else if \<not> IsRemoteConsumerNode n
      then (fst s, AList.update (n_Name n) (Some (New_reason NodeNotRemoteConsumer)) (snd s))
      else (fst s @ [n], snd s))"

text \<open>The consumers, and the map of failures with the other candidates added.\<close>

definition remoteConsumerNodes :: "node list \<Rightarrow> reasons \<Rightarrow> node list \<times> reasons" where
  "remoteConsumerNodes nodes failed = foldl remote_consumer ([], failed) nodes"

definition clusterHardTaint :: "taint \<Rightarrow> bool" where
  "clusterHardTaint t =
     (if taint_Effect t \<noteq> ''NoSchedule'' \<and> taint_Effect t \<noteq> ''NoExecute'' then False
      else let key = takeWhile (\<lambda>c. c \<noteq> CHR ''/'') (taint_Key t)
           in key = ''node.kubernetes.io'' \<or> key = ''node.cloudprovider.kubernetes.io'')"

definition serverInService :: "filter_env \<Rightarrow> pod \<Rightarrow> node \<Rightarrow> bool" where
  "serverInService fe p n = (\<not> fe_untolerated fe (n_Taints n) (p_Tolerations p) clusterHardTaint)"

definition server_label :: "node \<Rightarrow> bool" where
  "server_label n = (map_of (n_Labels n) NodeRemoteServerLabel = Some ''true'')"

definition remoteServerNodes :: "filter_env \<Rightarrow> allocation_request \<Rightarrow> node list \<Rightarrow> string + node list" where
  "remoteServerNodes fe req nodes =
     (let selVal = anno_or_empty (ar_Pod req) NodeRemoteSelectorsAnnotation in
      case (if selVal = [] then Inr server_label
            else map_sum id (\<lambda>sel n. server_label n \<and> sel n) (fe_parseSelector fe selVal)) of
        Inl err \<Rightarrow> Inl err
      | Inr remoteSelector \<Rightarrow>
          (case fe_listNodes fe remoteSelector of
             Inl err \<Rightarrow> Inl err
           | Inr cached \<Rightarrow>
               let ok = (\<lambda>n. IsRemoteServerNode n \<and> serverInService fe (ar_Pod req) n);
                   fromCache = filter ok cached;
                   others = filter (\<lambda>n. n_Name n \<notin> n_Name ` set fromCache \<and> remoteSelector n \<and> ok n) nodes
               in Inr (go_sort (\<lambda>a b. str_less (n_Name a) (n_Name b)) (fromCache @ others))))"

definition remoteFilterResult ::
  "node list \<Rightarrow> node list \<Rightarrow> int \<Rightarrow> reasons \<Rightarrow> reasons \<Rightarrow> node list \<times> reasons" where
  "remoteFilterResult consumers servers totalServers serverReasons nodeReasons =
     (if consumers = [] \<or> servers \<noteq> [] then (consumers, nodeReasons)
      else let unfit =
          (if totalServers > 0
           then reject RemoteServerUnfit (FormatAggregate totalServers serverReasons aggregateBucketNodeLimit)
           else reject NoRemoteServer ''no node is labeled as a remote server and has the endpoints annotation'')
        in ([], foldl (\<lambda>m n. AList.update (n_Name n) unfit m) nodeReasons consumers))"

section \<open>The node stage\<close>

definition GetMemoryPolicyFunc :: "filter_env \<Rightarrow> pod \<Rightarrow> node_config \<Rightarrow> filter_reason option" where
  "GetMemoryPolicyFunc fe p =
     (let policy = to_lower (trim_space (anno_or_empty p MemorySchedulerPolicyAnnotation)) in
      if policy = ''virtual'' \<or> prefix ''virt'' policy
      then (\<lambda>config. if nc_MemoryScaling config \<le> 1
             then reject NodeMemoryTypeMismatch
                    (''requires virtual memory but node memoryScaling='' @ fe_scalingText fe (nc_MemoryScaling config))
             else None)
      else if policy = ''physical'' \<or> prefix ''phy'' policy
      then (\<lambda>config. if nc_MemoryScaling config > 1
             then reject NodeMemoryTypeMismatch
                    (''requires physical memory but node memoryScaling='' @ fe_scalingText fe (nc_MemoryScaling config))
             else None)
      else (\<lambda>config. None))"

text \<open>What a node publishes: its devices, its configuration and, on a server, its endpoints.\<close>

type_synonym published = "device_info list \<times> node_config \<times> server_endpoint_info option"

definition read_node :: "filter_env \<Rightarrow> node \<Rightarrow> filter_reason + published" where
  "read_node fe n =
     (let register = node_annotation n NodeDeviceRegisterAnnotation;
          configText = node_annotation n NodeConfigInfoAnnotation in
      if \<not> IsVGPUEnabledNode n then Inl (New_reason NodeNotVGPUEnabled)
      else if register = [] then Inl (New_reason NodeNoVGPURegister)
      else case ParseNodeDeviceInfo (fe_env fe) register of
        None \<Rightarrow> Inl ((New_reason NodeBadVGPURegister)\<lparr>fr_Detail := fe_decodeText fe register\<rparr>)
      | Some devices \<Rightarrow>
          if configText = [] then Inl (New_reason NodeNoVGPUConfig)
          else (case NodeConfigInfo_Decode (fe_env fe) configText of
            None \<Rightarrow> Inl ((New_reason NodeBadVGPUConfig)\<lparr>fr_Detail := fe_decodeText fe configText\<rparr>)
          | Some config \<Rightarrow>
              if nc_DeviceSplit config \<le> 0
              then Inl ((New_reason NodeNotVGPUEnabled)\<lparr>fr_Detail := ''deviceSplit='' @ itoa (nc_DeviceSplit config)\<rparr>)
              else if nc_MemoryFactor config \<le> 0
              then Inl ((New_reason NodeBadMemoryFactor)\<lparr>fr_Detail := ''memoryFactor='' @ itoa (nc_MemoryFactor config)\<rparr>)
              else if IsRemoteServerNode n
              then (case GetServerEndpointInfo (fe_net fe) n of
                      Inl err \<Rightarrow> Inl ((New_reason (if err = ServerUnreachable then NodeRemoteServerUnreachable
                                                else NodeBadRemoteEndpoint))\<lparr>fr_Detail := fe_serverErrorText fe err\<rparr>)
                    | Inr endpoint \<Rightarrow> Inr (devices, config, Some endpoint))
              else Inr (devices, config, None)))"

definition CheckNode :: "filter_env \<Rightarrow> node \<Rightarrow> (node \<Rightarrow> published \<Rightarrow> filter_reason option) list \<Rightarrow> filter_reason option" where
  "CheckNode fe n checkNodeFuncs =
     (case read_node fe n of
        Inl r \<Rightarrow> Some r
      | Inr pub \<Rightarrow> fold (\<lambda>f r. case r of None \<Rightarrow> f n pub | Some r \<Rightarrow> Some r) checkNodeFuncs None)"

text \<open>The cycle state: what was read of each node that passed, by node name.\<close>

type_synonym cycle_state = "(string, published) gomap"

definition nodeFilter ::
  "filter_env \<Rightarrow> allocation_request \<Rightarrow> node list \<Rightarrow> cycle_state \<Rightarrow> node list \<times> reasons \<times> cycle_state" where
  "nodeFilter fe req nodes state =
     foldl (\<lambda>(passed, failed, state) n.
       if n_Deleting n then (passed, AList.update (n_Name n) (Some (New_reason NodeDeleting)) failed, state)
       else if ar_AccessMode req = AccessModeLocal \<and> IsRemoteServerNode n
       then (passed, AList.update (n_Name n) (Some (New_reason NodeIsRemoteServer)) failed, state)
       else (case CheckNode fe n [\<lambda>n (devices, config, endpoint). GetMemoryPolicyFunc fe (ar_Pod req) config] of
               Some r \<Rightarrow> (passed, AList.update (n_Name n) (Some r) failed, state)
             | None \<Rightarrow> (passed @ [n], failed,
                        (case read_node fe n of Inl r \<Rightarrow> state | Inr pub \<Rightarrow> AList.update (n_Name n) pub state))))
     ([], [], state) nodes"

section \<open>The request and pods already scheduled\<close>

definition MaxDeviceCount :: int where
  "MaxDeviceCount = 16"

definition checkNumberRequest :: "container_need \<Rightarrow> string option" where
  "checkNumberRequest need =
     (if cn_Number need > MaxDeviceCount
      then Some (''container '' @ cn_Name need @ '' requests vGPU number exceeding limit'') else None)"

definition checkCoreRequest :: "container_need \<Rightarrow> string option" where
  "checkCoreRequest need =
     (if cn_Cores need > HundredCore
      then Some (''container '' @ cn_Name need @ '' requests vGPU core exceeding limit'') else None)"

fun first_error :: "container_need list \<Rightarrow> string option" where
  "first_error [] = None"
| "first_error (need # needs) =
     (case checkCoreRequest need of
        Some err \<Rightarrow> Some err
      | None \<Rightarrow> (case checkNumberRequest need of Some err \<Rightarrow> Some err | None \<Rightarrow> first_error needs))"

definition CheckDeviceRequest :: "allocation_request \<Rightarrow> filter_mode \<Rightarrow> string option \<times> filter_effect list" where
  "CheckDeviceRequest req mode =
     (case first_error (ar_Containers req) of
        None \<Rightarrow> (None, [])
      | Some err \<Rightarrow> (Some err, if isDryRun mode then [] else [EventSent ''ResourceInvalid'' err]))"

definition IsScheduled :: "pod \<Rightarrow> string \<times> bool" where
  "IsScheduled p =
     (let nodeName = anno_or_empty p PodPredicateNodeAnnotation; preAlloc = anno_or_empty p PodVGPUPreAllocAnnotation in
      if nodeName = [] then ([], False)
      else if preAlloc = [] then ([], False)
      else (nodeName, case PodDeviceClaim_UnmarshalText preAlloc of Inl err \<Rightarrow> False | Inr claims \<Rightarrow> True))"

section \<open>The gang's domain\<close>

definition vote_less :: "string \<times> int \<Rightarrow> string \<times> int \<Rightarrow> bool" where
  "vote_less a b = (if snd a \<noteq> snd b then snd a > snd b else str_less (fst a) (fst b))"

definition majorityKey :: "(string, int) gomap \<Rightarrow> string" where
  "majorityKey votes = (if votes = [] then [] else fst (hd (go_sort vote_less votes)))"

definition gang_option :: node_info_option where
  "gang_option = \<lparr>no_excludedUids = {}, no_nodePods = [], no_nodeConfig = None, no_nodeDevice = None,
     no_resetUsed = False, no_resetPods = False, no_gpuTopologyEnabled = True\<rparr>"

text \<open>
  The node of a sibling: a candidate, or one built on demand and kept for the next sibling.
  The outer \<^term>\<open>None\<close> is a panic while building it.
\<close>

definition sibling_node ::
  "filter_env \<Rightarrow> (string, node_info) gomap \<Rightarrow> (string, node_info) gomap \<Rightarrow> string \<Rightarrow>
   (node_info option \<times> (string, node_info) gomap) option" where
  "sibling_node fe byName built nodeName =
     (case map_of byName nodeName of
        Some info \<Rightarrow> Some (Some info, built)
      | None \<Rightarrow>
          (case map_of built nodeName of
             Some info \<Rightarrow> Some (Some info, built)
           | None \<Rightarrow>
               (case fe_getNode fe nodeName of
                  Inl err \<Rightarrow> Some (None, built)
                | Inr node \<Rightarrow>
                    (case NewNodeInfo (fe_env fe) node gang_option of
                       Inl IndexPanic \<Rightarrow> None
                     | Inl (Rejected c) \<Rightarrow> Some (None, built)
                     | Inr info \<Rightarrow> Some (Some info, AList.update nodeName info built)))))"

definition vote_opt :: "(string, int) gomap \<Rightarrow> string option \<Rightarrow> (string, int) gomap" where
  "vote_opt m k = (case k of None \<Rightarrow> m | Some k \<Rightarrow> vote m k)"

definition is_gang_sibling :: "filter_env \<Rightarrow> allocation_request \<Rightarrow> pod \<Rightarrow> bool" where
  "is_gang_sibling fe req p =
     (p_UID p \<noteq> p_UID (ar_Pod req) \<and> ShouldCountPodDeviceAllocation (fe_env fe) p \<and> PodPreAllocatedUUIDs p \<noteq> [])"

fun sibling_votes ::
  "filter_env \<Rightarrow> (string, node_info) gomap \<Rightarrow> pod list \<Rightarrow> (string, node_info) gomap \<Rightarrow>
   (string, int) gomap \<Rightarrow> (string, int) gomap \<Rightarrow> ((string, int) gomap \<times> (string, int) gomap) option" where
  "sibling_votes fe byName [] built domains rails = Some (domains, rails)"
| "sibling_votes fe byName (p # ps) built domains rails =
     (case sibling_node fe byName built (PodPlanSchedulingNode p) of
        None \<Rightarrow> None
      | Some (None, built') \<Rightarrow> sibling_votes fe byName ps built' domains rails
      | Some (Some info, built') \<Rightarrow>
          sibling_votes fe byName ps built'
            (vote_opt domains (DomainOfUUIDs info (PodPreAllocatedUUIDs p)))
            (vote_opt rails (RailSignatureOfUUIDs info (PodPreAllocatedUUIDs p))))"

definition FindGangSiblingDomain ::
  "filter_env \<Rightarrow> pod list \<Rightarrow> (string, node_info) gomap \<Rightarrow> allocation_request \<Rightarrow> (string \<times> string) option" where
  "FindGangSiblingDomain fe pods byName req =
     map_option (\<lambda>(domains, rails). (majorityKey domains, majorityKey rails))
       (sibling_votes fe byName (filter (is_gang_sibling fe req) pods) [] [] [])"

section \<open>Building the nodes in batches\<close>

text \<open>The pods of each node, as the pod lister groups them.\<close>

definition NodeMapByIndexValue :: "pod list \<Rightarrow> (string, pod list) gomap" where
  "NodeMapByIndexValue pods =
     foldl (\<lambda>m p. AList.update (PodPlanSchedulingNode p)
              ((case map_of m (PodPlanSchedulingNode p) of None \<Rightarrow> [] | Some ps \<Rightarrow> ps) @ [p]) m) [] pods"

definition topologyEnabled :: "filter_env \<Rightarrow> allocation_request \<Rightarrow> bool" where
  "topologyEnabled fe req = (fe_gpuTopology fe \<and> UsesLinkTiers (ar_Topology req))"

definition needGangOrdinal :: "filter_env \<Rightarrow> allocation_request \<Rightarrow> bool" where
  "needGangOrdinal fe req =
     (ar_CrossPodTopology req \<and> topologyEnabled fe req \<and> BaseTopology (ar_Topology req) = LinkTopology \<and>
      (ar_GangName req \<noteq> [] \<or> ar_ControllerOwner req \<noteq> None))"

datatype verdict = Keep ranked_node | Drop filter_reason | Crash

definition node_option ::
  "filter_env \<Rightarrow> allocation_request \<Rightarrow> (string, pod list) gomap \<Rightarrow> cycle_state \<Rightarrow> node \<Rightarrow> node_info_option" where
  "node_option fe req nodePods state n =
     \<lparr>no_excludedUids = {p_UID (ar_Pod req)},
      no_nodePods = (case map_of nodePods (n_Name n) of None \<Rightarrow> [] | Some ps \<Rightarrow> ps),
      no_nodeConfig = map_option (fst \<circ> snd) (map_of state (n_Name n)),
      no_nodeDevice = map_option fst (map_of state (n_Name n)),
      no_resetUsed = False, no_resetPods = False, no_gpuTopologyEnabled = topologyEnabled fe req\<rparr>"

definition judge_node ::
  "filter_env \<Rightarrow> allocation_request \<Rightarrow> (string, pod list) gomap \<Rightarrow> cycle_state \<Rightarrow> node \<Rightarrow> verdict" where
  "judge_node fe req nodePods state n =
     (case NewNodeInfo (fe_env fe) n (node_option fe req nodePods state n) of
        Inl IndexPanic \<Rightarrow> Crash
      | Inl (Rejected c) \<Rightarrow> Drop ((New_reason NodeInfoBuildFailed)\<lparr>fr_Detail := Short (Some (New_reason c))\<rparr>)
      | Inr info \<Rightarrow>
          let snapshot = ResetStatistics (Some info) req in
          (case nodeCapacityGate snapshot info of
             Some r \<Rightarrow> Drop r
           | None \<Rightarrow> Keep \<lparr>rn_info = info, rn_request = Some snapshot\<rparr>))"

text \<open>What a worker brings back: its surviving nodes, its failures and the positions it saw.\<close>

record batch_out =
  bo_infos :: "ranked_node list"
  bo_failed :: reasons
  bo_position :: "(string, int) gomap"

fun work :: "(node \<Rightarrow> verdict) \<Rightarrow> (int \<times> node) list \<Rightarrow> batch_out \<Rightarrow> batch_out option" where
  "work judge [] out = Some out"
| "work judge ((index, n) # rest) out =
     (let out = out\<lparr>bo_position := AList.update (n_Name n) index (bo_position out)\<rparr> in
      case judge n of
        Crash \<Rightarrow> None
      | Drop r \<Rightarrow> work judge rest (out\<lparr>bo_failed := AList.update (n_Name n) (Some r) (bo_failed out)\<rparr>)
      | Keep info \<Rightarrow> work judge rest (out\<lparr>bo_infos := bo_infos out @ [info]\<rparr>))"

definition empty_out :: batch_out where
  "empty_out = \<lparr>bo_infos = [], bo_failed = [], bo_position = []\<rparr>"

definition run_batch :: "(node \<Rightarrow> verdict) \<Rightarrow> node list \<Rightarrow> batch_config \<Rightarrow> batch_out option" where
  "run_batch judge nodes b = work judge (map (\<lambda>i. (i, nodes ! nat i)) (batch_indices b)) empty_out"

definition copy_into :: "('k, 'v) gomap \<Rightarrow> ('k, 'v) gomap \<Rightarrow> ('k, 'v) gomap" where
  "copy_into dst src = foldl (\<lambda>m (k, v). AList.update k v m) dst src"

text \<open>The critical section at the end of a worker.\<close>

definition merge_batch :: "batch_out \<Rightarrow> batch_out \<Rightarrow> batch_out" where
  "merge_batch acc out =
     \<lparr>bo_infos = bo_infos acc @ bo_infos out, bo_failed = copy_into (bo_failed acc) (bo_failed out),
      bo_position = copy_into (bo_position acc) (bo_position out)\<rparr>"

definition batches_of :: "filter_env \<Rightarrow> node list \<Rightarrow> batch_config list" where
  "batches_of fe nodes =
     (let count = int (length nodes) in BalanceBatches count ((count + fe_workers fe - 1) div fe_workers fe))"

text \<open>The order in which the workers reach the critical section; a single batch runs in place.\<close>

definition finish_order :: "filter_env \<Rightarrow> nat \<Rightarrow> nat list" where
  "finish_order fe k = (if k = 1 then [0] else fe_finish fe k)"

definition build_nodes :: "filter_env \<Rightarrow> (node \<Rightarrow> verdict) \<Rightarrow> node list \<Rightarrow> batch_out option" where
  "build_nodes fe judge nodes =
     (let outs = map (run_batch judge nodes) (batches_of fe nodes) in
      if list_ex (\<lambda>out. out = None) outs then None
      else Some (foldl (\<lambda>acc i. merge_batch acc (the (outs ! i))) empty_out (finish_order fe (length outs))))"

definition gang_list :: "filter_env \<Rightarrow> allocation_request \<Rightarrow> string + pod list" where
  "gang_list fe req =
     (if ar_GangName req \<noteq> [] then fe_gangPods fe (ar_GangName req)
      else (case ar_ControllerOwner req of None \<Rightarrow> Inr [] | Some uid \<Rightarrow> fe_ownerPods fe uid))"

definition preFilterNodeInfos ::
  "filter_env \<Rightarrow> allocation_request \<Rightarrow> node list \<Rightarrow> cycle_state \<Rightarrow> filter_error + allocation_request \<times> batch_out" where
  "preFilterNodeInfos fe req nodes state =
     (case fe_vgpuPods fe of
        Inl err \<Rightarrow> Inl (ListFailed err)
      | Inr pods \<Rightarrow>
          (case build_nodes fe (judge_node fe req (NodeMapByIndexValue pods) state) nodes of
             None \<Rightarrow> Inl Crashed
           | Some out \<Rightarrow>
               if bo_infos out = [] \<or> \<not> needGangOrdinal fe req then Inr (req, out)
               else (case gang_list fe req of
                       Inl err \<Rightarrow> Inl (ListFailed err)
                     | Inr gangPods \<Rightarrow>
                         (case FindGangSiblingDomain fe gangPods (copy_into [] (map (\<lambda>r. (rn_name r, rn_info r)) (bo_infos out))) req of
                            None \<Rightarrow> Inl Crashed
                          | Some (domain, rail) \<Rightarrow> Inr (req\<lparr>ar_GangDomainKey := domain, ar_GangRailKey := rail\<rparr>, out)))))"

section \<open>Ranking the nodes\<close>

definition by_position :: "(string, int) gomap \<Rightarrow> ranked_node \<Rightarrow> ranked_node \<Rightarrow> bool" where
  "by_position position p1 p2 =
     ((case map_of position (rn_name p1) of None \<Rightarrow> 0 | Some i \<Rightarrow> i) <
      (case map_of position (rn_name p2) of None \<Rightarrow> 0 | Some i \<Rightarrow> i))"

definition sortNodeInfos ::
  "allocation_request \<Rightarrow> ranked_node list \<Rightarrow> (string, int) gomap \<Rightarrow> filter_mode \<Rightarrow> ranked_node list \<times> filter_effect list" where
  "sortNodeInfos req infos position mode =
     (let policy = ar_NodePolicy req;
          default = sortPriority (ApplyTopologyMode req [by_position position]) infos in
      if policy = BinpackPolicy \<or> policy = SpreadPolicy then (sortPriority (NewNodePolicyPriority req) infos, [])
      else if policy = NonePolicy then (default, [])
      else (default, if isDryRun mode then []
                     else [EventSent ''PolicyInvalid'' (''unsupported node scheduling policy '' @ policy)]))"

section \<open>The device stage\<close>

definition PolicyLabel :: "scheduler_policy \<Rightarrow> string" where
  "PolicyLabel p =
     (if p = BinpackPolicy \<or> p = SpreadPolicy \<or> p = NonePolicy then p
      else if p = [] then NonePolicy
      else ''other'')"

fun TopologyLabel :: "topology_mode \<Rightarrow> string" where
  "TopologyLabel NUMATopology = ''numa''"
| "TopologyLabel LinkTopology = ''link''"
| "TopologyLabel PCIeTopology = ''pcie''"
| "TopologyLabel NoneTopology = ''none''"
| "TopologyLabel (OtherTopology m) = (if m = [] then ''none'' else ''other'')"
| "TopologyLabel m = ''other''"

definition recordPlacement :: "allocation_request \<Rightarrow> filter_effect list" where
  "recordPlacement req =
     (let mode = TopologyLabel (BaseTopology (ar_Topology req)); out = ar_topoOutcome req in
      PodPolicy (PolicyLabel (ar_NodePolicy req)) (PolicyLabel (ar_DevicePolicy req)) mode
      # (if to_Result out \<noteq> [] then [TopologyPlacement mode (to_Result out)] else [])
      @ (if to_Alignment out \<noteq> [] then [CrossPodAlignment (to_Alignment out)] else []))"

text \<open>The loop over the ranked nodes: what it has kept, the failures, the request and the trace.\<close>

record scan =
  sc_nodes :: "node list"
  sc_failed :: reasons
  sc_request :: allocation_request
  sc_trace :: "filter_effect list"

definition taken_detail :: "node \<Rightarrow> string" where
  "taken_detail n = ''pod already matched to '' @ n_Name n @ '' in this Filter pass''"

text \<open>The pre-allocation on a node that took the pod.\<close>

definition commit :: "filter_env \<Rightarrow> node \<Rightarrow> pod \<Rightarrow> scan \<Rightarrow> filter_error option \<times> scan" where
  "commit fe n newPod sc =
     (case fe_ctxCommit fe of
        Some err \<Rightarrow> (Some (ContextDone err), sc)
      | None \<Rightarrow>
          (case PatchPodPreAllocatedMetadata (fe_env fe) (fe_server fe) newPod of
             (Some err, p) \<Rightarrow> (Some (PatchFailed err), sc)
           | (None, p) \<Rightarrow>
               (None, sc\<lparr>sc_nodes := sc_nodes sc @ [n],
                         sc_trace := sc_trace sc @ [PodPatched p, PodMutated p] @ recordPlacement (sc_request sc)\<rparr>)))"

definition scan_node ::
  "filter_env \<Rightarrow> filter_mode \<Rightarrow> bool \<Rightarrow> ranked_node \<Rightarrow> scan \<Rightarrow> filter_error option \<times> scan" where
  "scan_node fe mode first r sc =
     (let n = ni_node (rn_info r) in
      if \<not> isDryRun mode \<and> sc_nodes sc \<noteq> []
      then (None, sc\<lparr>sc_failed := AList.update (n_Name n)
                        (reject AlreadyScheduledElsewhere (taken_detail (hd (sc_nodes sc)))) (sc_failed sc)\<rparr>)
      else
        (case Allocate (fe_env fe) \<lparr>ao_recorder = first, ao_simulate = isDryRun mode\<rparr>
                \<lparr>as_nodeInfo = rn_info r, as_request = sc_request sc, as_trace = []\<rparr> of
           (res, s) \<Rightarrow>
             let sc' = sc\<lparr>sc_request := as_request s, sc_trace := sc_trace sc @ map AllocatorSaw (as_trace s)\<rparr> in
             (case res of
                Failed err \<Rightarrow> (Some (AllocatorFailed err), sc')
              | Refused rsn \<Rightarrow> (None, sc'\<lparr>sc_failed := AList.update (n_Name n) (Some rsn) (sc_failed sc')\<rparr>)
              | Placed newPod \<Rightarrow>
                  if isDryRun mode then (None, sc'\<lparr>sc_nodes := sc_nodes sc' @ [n]\<rparr>)
                  else commit fe n newPod sc')))"

fun scan_nodes ::
  "filter_env \<Rightarrow> filter_mode \<Rightarrow> bool \<Rightarrow> ranked_node list \<Rightarrow> scan \<Rightarrow> filter_error option \<times> scan" where
  "scan_nodes fe mode first [] sc = (None, sc)"
| "scan_nodes fe mode first (r # rs) sc =
     (case scan_node fe mode first r sc of
        (Some err, sc') \<Rightarrow> (Some err, sc')
      | (None, sc') \<Rightarrow> scan_nodes fe mode False rs sc')"

text \<open>A pod with a current pre-allocation is steered back to its node.\<close>

definition steer_step :: "string \<Rightarrow> node list \<times> reasons \<Rightarrow> node \<Rightarrow> node list \<times> reasons" where
  "steer_step nodeName s n =
     (if fst s = [] \<and> n_Name n = nodeName then ([n], snd s)
      else (fst s, AList.update (n_Name n)
             (reject AlreadyScheduledElsewhere (''pod already predicated on node '' @ nodeName)) (snd s)))"

definition steer :: "string \<Rightarrow> node list \<Rightarrow> node list \<times> reasons" where
  "steer nodeName nodes = foldl (steer_step nodeName) ([], []) nodes"

definition success_events :: "allocation_request \<Rightarrow> filter_mode \<Rightarrow> node list \<Rightarrow> filter_effect list" where
  "success_events req mode nodes =
     (if nodes = [] \<or> isDryRun mode then []
      else [EventSent ''FilteringSucceed''
             ((if ar_AccessMode req = AccessModeRemote then ''Successfully matched remote gpu node '' else ''Successfully matched node '')
              @ n_Name (hd nodes))])"

definition allocate_nodes ::
  "filter_env \<Rightarrow> allocation_request \<Rightarrow> node list \<Rightarrow> cycle_state \<Rightarrow> filter_mode \<Rightarrow>
   (filter_error + node list \<times> reasons) \<times> filter_effect list" where
  "allocate_nodes fe req nodes state mode =
     (case preFilterNodeInfos fe req nodes state of
        Inl err \<Rightarrow> (Inl err, [])
      | Inr (req, out) \<Rightarrow>
          if bo_infos out = [] then (Inr ([], bo_failed out), [])
          else (case sortNodeInfos req (bo_infos out) (bo_position out) mode of
            (ranked, events) \<Rightarrow>
              (case scan_nodes fe mode True ranked
                      \<lparr>sc_nodes = [], sc_failed = bo_failed out, sc_request = req, sc_trace = events\<rparr> of
                 (Some err, sc) \<Rightarrow> (Inl err, sc_trace sc)
               | (None, sc) \<Rightarrow> (Inr (sc_nodes sc, sc_failed sc), sc_trace sc @ success_events req mode (sc_nodes sc)))))"

definition deviceFilter ::
  "filter_env \<Rightarrow> allocation_request \<Rightarrow> node list \<Rightarrow> cycle_state \<Rightarrow> filter_mode \<Rightarrow>
   (filter_error + node list \<times> reasons) \<times> filter_effect list" where
  "deviceFilter fe req nodes state mode =
     (if nodes = [] then (Inr ([], []), [])
      else case CheckDeviceRequest req mode of
        (Some err, events) \<Rightarrow> (Inl (InvalidRequest err), events)
      | (None, events) \<Rightarrow>
          if isDryRun mode then allocate_nodes fe req nodes state mode
          else (case IsScheduled (ar_Pod req) of
            (nodeName, scheduled) \<Rightarrow>
              if scheduled \<and> ShouldCountPodDeviceAllocation (fe_env fe) (ar_Pod req)
              then (let (kept, failed) = steer nodeName nodes in
                    if kept \<noteq> [] then (Inr (kept, failed), []) else (Inl (Predicated (p_UID (ar_Pod req))), []))
              else (case fe_ctxLocked fe of
                      Some err \<Rightarrow> (Inl (ContextDone err), [])
                    | None \<Rightarrow> allocate_nodes fe req nodes state mode)))"

section \<open>The verb\<close>

definition NodeNamesOfResult :: "filter_result \<Rightarrow> string list" where
  "NodeNamesOfResult res =
     (case fx_NodeNames res of
        Some names \<Rightarrow> names
      | None \<Rightarrow> (case fx_Nodes res of None \<Rightarrow> [] | Some items \<Rightarrow> map n_Name items))"

definition filterResultLabel :: "filter_result \<Rightarrow> string" where
  "filterResultLabel res =
     (if fx_Error res \<noteq> None then ''error'' else if NodeNamesOfResult res \<noteq> [] then ''fit'' else ''no_fit'')"

definition reasonsToFailedNodesMap :: "reasons \<Rightarrow> filter_mode \<Rightarrow> (string, string) gomap" where
  "reasonsToFailedNodesMap rs mode = map (\<lambda>(name, r). (name, if isDryRun mode then Detailed r else Short r)) rs"

definition failureBreakdown :: "reasons \<Rightarrow> (code, int) gomap" where
  "failureBreakdown rs = foldl vote [] (List.map_filter (map_option fr_Primary) (vals rs))"

definition buildFilterResult :: "extender_args \<Rightarrow> node list \<Rightarrow> reasons \<Rightarrow> filter_mode \<Rightarrow> filter_result" where
  "buildFilterResult args nodes rs mode =
     (let byName = (case ea_NodeNames args of None \<Rightarrow> False | Some names \<Rightarrow> names \<noteq> []) in
      \<lparr>fx_Nodes = (if byName then None else Some nodes),
       fx_NodeNames = (if byName then Some (map n_Name nodes) else None),
       fx_FailedNodes = reasonsToFailedNodesMap rs mode, fx_Error = None\<rparr>)"

definition recordNodeRejects :: "string \<Rightarrow> reasons \<Rightarrow> filter_effect list" where
  "recordNodeRejects v rs =
     map (\<lambda>c. NodeRejected v c) (filter (\<lambda>c. c \<noteq> AlreadyScheduledElsewhere) (List.map_filter (map_option fr_Primary) (vals rs)))"

text \<open>
  The two stages on the chain's nodes. A stage is skipped when no node is left, and the failures
  of both are copied into the map the chain was given.
\<close>

definition chain ::
  "filter_env \<Rightarrow> allocation_request \<Rightarrow> node list \<Rightarrow> reasons \<Rightarrow> filter_mode \<Rightarrow>
   (filter_error + node list \<times> reasons) \<times> filter_effect list" where
  "chain fe req nodes rs mode =
     (if nodes = [] then (Inr ([], rs), [])
      else case nodeFilter fe req nodes [] of
        (passed, failed, state) \<Rightarrow>
          let rs = copy_into rs failed in
          if passed = [] then (Inr ([], rs), [])
          else (case deviceFilter fe req passed state mode of
                  (Inl err, events) \<Rightarrow> (Inl err, events)
                | (Inr (kept, failed), events) \<Rightarrow> (Inr (kept, copy_into rs failed), events)))"

definition remote_detail :: "reasons \<Rightarrow> node list \<Rightarrow> string" where
  "remote_detail rs consumers =
     (case consumers of
        [] \<Rightarrow> []
      | c # cs \<Rightarrow>
          (case map_of rs (n_Name c) of
             Some (Some r) \<Rightarrow> if fr_Detail r \<noteq> [] then '' Remote GPU servers: '' @ fr_Detail r else []
           | _ \<Rightarrow> []))"

text \<open>The reporting at the end of a call: reject counters and the aggregate event.\<close>

definition finish ::
  "extender_args \<Rightarrow> filter_mode \<Rightarrow> int \<Rightarrow> string \<Rightarrow> node list \<Rightarrow> reasons \<Rightarrow> filter_result \<times> filter_effect list" where
  "finish args mode totalCandidates suffixText nodes rs =
     (let res = buildFilterResult args nodes rs mode in
      (res, recordNodeRejects (verb mode) rs
        @ (if \<not> isDryRun mode \<and> nodes = [] \<and> totalCandidates > 0
           then [EventSent ''FilteringFailed''
                  (FormatAggregate totalCandidates rs aggregateBucketNodeLimit @ suffixText)] else [])
        @ [VerbObserved (verb mode) (filterResultLabel res)]))"

definition fail :: "filter_mode \<Rightarrow> filter_error \<Rightarrow> filter_result \<times> filter_effect list" where
  "fail mode err = (no_result\<lparr>fx_Error := Some err\<rparr>, [VerbObserved (verb mode) ''error''])"

definition after :: "filter_effect list \<Rightarrow> filter_result \<times> filter_effect list \<Rightarrow> filter_result \<times> filter_effect list" where
  "after events r = (fst r, events @ snd r)"

definition filter_local ::
  "filter_env \<Rightarrow> extender_args \<Rightarrow> filter_mode \<Rightarrow> allocation_request \<Rightarrow> node list \<Rightarrow> reasons \<Rightarrow> filter_result \<times> filter_effect list" where
  "filter_local fe args mode req nodes rs =
     (let totalCandidates = int (length nodes + length rs) in
      case chain fe req nodes rs mode of
        (Inl err, events) \<Rightarrow> after events (fail mode err)
      | (Inr (kept, rs), events) \<Rightarrow> after events (finish args mode totalCandidates [] kept rs))"

definition filter_remote ::
  "filter_env \<Rightarrow> extender_args \<Rightarrow> filter_mode \<Rightarrow> allocation_request \<Rightarrow> node list \<Rightarrow> reasons \<Rightarrow> filter_result \<times> filter_effect list" where
  "filter_remote fe args mode req nodes rs =
     (let totalCandidates = int (length nodes + length rs);
          warn = (if ar_CrossPodTopology req \<and> \<not> isDryRun mode
                  then [EventSent ''TopologyFallback'' ''Remote access mode does not support cross pod topology''] else []);
          req = req\<lparr>ar_CrossPodTopology := False\<rparr> in
      case remoteConsumerNodes nodes rs of
        (consumers, rs) \<Rightarrow>
          (case remoteServerNodes fe req nodes of
             Inl err \<Rightarrow> after warn (fail mode (ListFailed err))
           | Inr servers \<Rightarrow>
               (case chain fe req (if consumers \<noteq> [] then servers else []) [] mode of
                  (Inl err, events) \<Rightarrow> after (warn @ events) (fail mode err)
                | (Inr (kept, serverReasons), events) \<Rightarrow>
                    (case remoteFilterResult consumers kept (int (length servers)) serverReasons rs of
                       (kept, rs) \<Rightarrow>
                         after (warn @ events) (finish args mode totalCandidates (remote_detail rs consumers) kept rs)))))"

definition filter_nodes :: "filter_env \<Rightarrow> extender_args \<Rightarrow> filter_mode \<Rightarrow> filter_result \<times> filter_effect list" where
  "filter_nodes fe args mode =
     (case preFilterRequestNodes fe args of
        Inl res \<Rightarrow> (res, [VerbObserved (verb mode) (filterResultLabel res)])
      | Inr (req, nodes, rs) \<Rightarrow>
          if ar_AccessMode req = AccessModeRemote then filter_remote fe args mode req nodes rs
          else filter_local fe args mode req nodes rs)"

definition Filter :: "filter_env \<Rightarrow> extender_args \<Rightarrow> filter_result \<times> filter_effect list" where
  "Filter fe args = filter_nodes fe args liveFilter"

definition FilterDryRun :: "filter_env \<Rightarrow> extender_args \<Rightarrow> filter_result \<times> filter_effect list" where
  "FilterDryRun fe args = filter_nodes fe args dryRunFilter"

end
