(* ===== verification/Filter_Facts.thy ===== *)
theory Filter_Facts
  imports Filter_Verb
begin

text \<open>
  What the filter guarantees, whatever the cluster looks like: every candidate is kept or given a
  reason, the outcome does not depend on the order in which the workers finish, the live verb
  commits on the first of the nodes the dry run reports, and a dry run writes nothing.
\<close>

section \<open>The allocator decides by node and request\<close>

lemma NodeMap_group:
  "(case map_of (NodeMapByIndexValue pods) x of None \<Rightarrow> [] | Some ps \<Rightarrow> ps) = filter (\<lambda>p. PodPlanSchedulingNode p = x) pods"
  by (induction pods rule: rev_induct) (auto simp: NodeMapByIndexValue_def map_of_update)

text \<open>Whether a ranked node takes the pod, as a function of the node and the request.\<close>

definition decide :: "filter_env \<Rightarrow> allocation_request \<Rightarrow> ranked_node \<Rightarrow> pod outcome" where
  "decide fe req r =
     fst (Allocate (fe_env fe) \<lparr>ao_recorder = False, ao_simulate = True\<rparr> \<lparr>as_nodeInfo = rn_info r, as_request = req, as_trace = []\<rparr>)"

lemma Allocate_decide:
  assumes "untold req' = untold req"
  shows "fst (Allocate (fe_env fe) opts \<lparr>as_nodeInfo = rn_info r, as_request = req', as_trace = tr\<rparr>) = decide fe req r"
  unfolding decide_def
  by (rule agree_Allocate [unfolded agree_def, THEN conjunct1]) (simp add: view_def assms)

section \<open>Scanning the ranked nodes\<close>

definition takes :: "filter_env \<Rightarrow> allocation_request \<Rightarrow> ranked_node \<Rightarrow> bool" where
  "takes fe req r \<longleftrightarrow> (case decide fe req r of Placed p \<Rightarrow> True | _ \<Rightarrow> False)"

definition breaks :: "filter_env \<Rightarrow> allocation_request \<Rightarrow> ranked_node \<Rightarrow> bool" where
  "breaks fe req r \<longleftrightarrow> (case decide fe req r of Failed err \<Rightarrow> True | _ \<Rightarrow> False)"

abbreviation node_of :: "ranked_node \<Rightarrow> node" where
  "node_of r \<equiv> ni_node (rn_info r)"

lemma scan_dry:
  assumes "untold (sc_request sc) = untold req" "scan_nodes fe dryRunFilter first rs sc = (err, sc')"
  shows "sc_trace sc' = sc_trace sc \<and>
    (if list_ex (breaks fe req) rs then err \<noteq> None
     else err = None \<and> sc_nodes sc' = sc_nodes sc @ map node_of (filter (takes fe req) rs))"
  using assms
proof (induction rs arbitrary: sc first)
  case (Cons r rs)
  let ?s0 = "\<lparr>as_nodeInfo = rn_info r, as_request = sc_request sc, as_trace = []\<rparr>"
  obtain res s where a: "Allocate (fe_env fe) \<lparr>ao_recorder = first, ao_simulate = True\<rparr> ?s0 = (res, s)" by fastforce
  have res: "res = decide fe req r" using Allocate_decide [OF Cons.prems(1), of fe _ r] a by (metis fst_conv)
  have tr: "as_trace s = []" "untold (as_request s) = untold req"
    using quiet_Allocate(1) [of "\<lparr>ao_recorder = first, ao_simulate = True\<rparr>" "fe_env fe" ?s0]
      keeps_Allocate [of "fe_env fe" "\<lparr>ao_recorder = first, ao_simulate = True\<rparr>" ?s0] Cons.prems(1) a by simp_all
  show ?case
  proof (cases res)
    case (Placed p)
    then show ?thesis
      using Cons.IH [of "sc\<lparr>sc_request := as_request s, sc_nodes := sc_nodes sc @ [node_of r]\<rparr>" False] Cons.prems(2) a tr res
      by (auto simp: scan_node_def isDryRun_def Let_def takes_def breaks_def)
  next
    case (Refused rsn)
    then show ?thesis
      using Cons.IH [of "sc\<lparr>sc_request := as_request s, sc_failed := AList.update (n_Name (node_of r)) (Some rsn) (sc_failed sc)\<rparr>" False]
        Cons.prems(2) a tr res
      by (auto simp: scan_node_def isDryRun_def Let_def takes_def breaks_def)
  next
    case (Failed e)
    then show ?thesis using Cons.prems(2) a tr res by (auto simp: scan_node_def isDryRun_def Let_def takes_def breaks_def)
  qed
qed simp

lemma scan_taken:
  assumes "sc_nodes sc \<noteq> []"
  shows "scan_nodes fe liveFilter first rs sc =
    (None, sc\<lparr>sc_failed := foldl (\<lambda>m r. AList.update (n_Name (node_of r))
       (reject AlreadyScheduledElsewhere (taken_detail (hd (sc_nodes sc)))) m) (sc_failed sc) rs\<rparr>)"
  using assms
proof (induction rs arbitrary: sc first)
  case (Cons r rs)
  then show ?case by (simp add: scan_node_def isDryRun_def Let_def)
qed simp

definition commit_failed :: "filter_error option \<Rightarrow> bool" where
  "commit_failed err \<longleftrightarrow> (\<exists>x. err = Some (PatchFailed x)) \<or> (\<exists>x. err = Some (ContextDone x))"

lemma commit_cases:
  assumes "commit fe n p sc = (err, sc')"
  shows "commit_failed err \<or> (err = None \<and> sc_nodes sc' = sc_nodes sc @ [n] \<and> sc_failed sc' = sc_failed sc)"
  using assms by (auto simp: commit_def commit_failed_def split: option.splits prod.splits)

lemma scan_live:
  assumes "untold (sc_request sc) = untold req" "scan_nodes fe liveFilter first rs sc = (err, sc')"
    and "sc_nodes sc = []" "\<not> list_ex (breaks fe req) rs"
  shows "commit_failed err \<or> (err = None \<and> sc_nodes sc' = take 1 (map node_of (filter (takes fe req) rs)))"
  using assms
proof (induction rs arbitrary: sc first)
  case (Cons r rs)
  let ?s0 = "\<lparr>as_nodeInfo = rn_info r, as_request = sc_request sc, as_trace = []\<rparr>"
  let ?o = "\<lparr>ao_recorder = first, ao_simulate = False\<rparr>"
  obtain res s where a: "Allocate (fe_env fe) ?o ?s0 = (res, s)" by fastforce
  have res: "res = decide fe req r" using Allocate_decide [OF Cons.prems(1), of fe _ r] a by (metis fst_conv)
  have req: "untold (as_request s) = untold req"
    using keeps_Allocate [of "fe_env fe" ?o ?s0] Cons.prems(1) a by simp
  define sc1 where "sc1 = sc\<lparr>sc_request := as_request s, sc_trace := sc_trace sc @ map AllocatorSaw (as_trace s)\<rparr>"
  have sc1: "sc_nodes sc1 = []" "untold (sc_request sc1) = untold req" using Cons.prems(3) req by (simp_all add: sc1_def)
  show ?case
  proof (cases res)
    case (Placed p)
    obtain err1 sc2 where c: "commit fe (node_of r) p sc1 = (err1, sc2)" by fastforce
    have step: "scan_node fe liveFilter first r sc = (err1, sc2)"
      using Placed a c Cons.prems(3) by (simp add: scan_node_def isDryRun_def Let_def sc1_def)
    have t: "takes fe req r" using Placed res by (simp add: takes_def)
    from commit_cases [OF c] show ?thesis
    proof
      assume "commit_failed err1"
      then show ?thesis using Cons.prems(2) step by (auto simp: commit_failed_def)
    next
      assume "err1 = None \<and> sc_nodes sc2 = sc_nodes sc1 @ [node_of r] \<and> sc_failed sc2 = sc_failed sc1"
      then show ?thesis using Cons.prems(2) step sc1 t scan_taken [of sc2 fe False rs] by auto
    qed
  next
    case (Refused rsn)
    let ?sc2 = "sc1\<lparr>sc_failed := AList.update (n_Name (node_of r)) (Some rsn) (sc_failed sc1)\<rparr>"
    have "scan_node fe liveFilter first r sc = (None, ?sc2)"
      using Refused a Cons.prems(3) by (simp add: scan_node_def isDryRun_def Let_def sc1_def)
    moreover have "\<not> takes fe req r" using Refused res by (simp add: takes_def)
    ultimately show ?thesis using Cons.IH [of ?sc2 False] Cons.prems(2,4) sc1 by simp
  next
    case (Failed e)
    then have "breaks fe req r" using res by (simp add: breaks_def)
    then show ?thesis using Cons.prems(4) by simp
  qed
qed simp

section \<open>Live and dry\<close>

text \<open>The live answer is the first node of the dry one, unless the commit is refused.\<close>

definition first_of ::
  "(filter_error + node list \<times> reasons) \<times> filter_effect list \<Rightarrow> node list \<Rightarrow> bool" where
  "first_of live kd \<longleftrightarrow> (case fst live of Inl err \<Rightarrow> commit_failed (Some err) | Inr (kl, rl) \<Rightarrow> kl = take 1 kd)"

lemma sort_mode: "fst (sortNodeInfos req infos position mode) = fst (sortNodeInfos req infos position mode')"
  by (simp add: sortNodeInfos_def Let_def)

lemma allocate_first:
  assumes "fst (allocate_nodes fe req nodes state dryRunFilter) = Inr (kd, rd)"
  shows "first_of (allocate_nodes fe req nodes state liveFilter) kd"
proof -
  obtain req' out where pre: "preFilterNodeInfos fe req nodes state = Inr (req', out)"
    using assms by (auto simp: allocate_nodes_def split: sum.splits prod.splits)
  show ?thesis
  proof (cases "bo_infos out = []")
    case True
    then show ?thesis using assms pre by (simp add: allocate_nodes_def first_of_def)
  next
    case False
    obtain ranked ed el where sd: "sortNodeInfos req' (bo_infos out) (bo_position out) dryRunFilter = (ranked, ed)"
      and sl: "sortNodeInfos req' (bo_infos out) (bo_position out) liveFilter = (ranked, el)"
      using sort_mode by (metis prod.collapse)
    let ?sc = "\<lambda>ev. \<lparr>sc_nodes = [], sc_failed = bo_failed out, sc_request = req', sc_trace = ev\<rparr>"
    obtain e1 sc1 where d: "scan_nodes fe dryRunFilter True ranked (?sc ed) = (e1, sc1)" by fastforce
    obtain e2 sc2 where l: "scan_nodes fe liveFilter True ranked (?sc el) = (e2, sc2)" by fastforce
    have "e1 = None" "kd = sc_nodes sc1" using assms pre False sd d by (auto simp: allocate_nodes_def split: option.splits)
    with scan_dry [OF _ d, of req'] have nb: "\<not> list_ex (breaks fe req') ranked" "kd = map node_of (filter (takes fe req') ranked)"
      by (auto split: if_splits)
    from scan_live [OF _ l _ nb(1)] have "commit_failed e2 \<or> (e2 = None \<and> sc_nodes sc2 = take 1 kd)" by (simp add: nb(2))
    then show ?thesis using pre False sl l by (auto simp: allocate_nodes_def first_of_def commit_failed_def)
  qed
qed

lemma device_first:
  assumes "fst (deviceFilter fe req nodes state dryRunFilter) = Inr (kd, rd)"
    and "\<not> (snd (IsScheduled (ar_Pod req)) \<and> ShouldCountPodDeviceAllocation (fe_env fe) (ar_Pod req))"
  shows "first_of (deviceFilter fe req nodes state liveFilter) kd"
proof (cases "nodes = []")
  case True
  then show ?thesis using assms(1) by (simp add: deviceFilter_def first_of_def)
next
  case False
  have ok: "first_error (ar_Containers req) = None"
    using assms(1) False by (auto simp: deviceFilter_def CheckDeviceRequest_def split: option.splits)
  then have d: "fst (allocate_nodes fe req nodes state dryRunFilter) = Inr (kd, rd)"
    using assms(1) False by (simp add: deviceFilter_def CheckDeviceRequest_def isDryRun_def)
  obtain nn sch where s: "IsScheduled (ar_Pod req) = (nn, sch)" by fastforce
  show ?thesis
  proof (cases "fe_ctxLocked fe")
    case None
    then show ?thesis using allocate_first [OF d] ok False s assms(2)
      by (auto simp: deviceFilter_def CheckDeviceRequest_def isDryRun_def)
  next
    case (Some err)
    then show ?thesis using ok False s assms(2)
      by (auto simp: deviceFilter_def CheckDeviceRequest_def isDryRun_def first_of_def commit_failed_def)
  qed
qed

lemma chain_first:
  assumes "fst (chain fe req nodes rs dryRunFilter) = Inr (kd, rd)"
    and "\<not> (snd (IsScheduled (ar_Pod req)) \<and> ShouldCountPodDeviceAllocation (fe_env fe) (ar_Pod req))"
  shows "first_of (chain fe req nodes rs liveFilter) kd"
proof -
  obtain passed failed state where nf: "nodeFilter fe req nodes [] = (passed, failed, state)" by (metis prod_cases3)
  show ?thesis
  proof (cases "nodes = [] \<or> passed = []")
    case True
    then show ?thesis using assms(1) nf by (cases "nodes = []") (auto simp: chain_def first_of_def Let_def)
  next
    case False
    obtain dd de where d: "deviceFilter fe req passed state dryRunFilter = (dd, de)" by fastforce
    obtain ld le where l: "deviceFilter fe req passed state liveFilter = (ld, le)" by fastforce
    obtain rd' where "dd = Inr (kd, rd')" using assms(1) nf False d by (auto simp: chain_def Let_def split: sum.splits)
    with device_first [OF _ assms(2), of passed state kd rd'] d l have "first_of (ld, le) kd" by simp
    then show ?thesis using nf False l by (auto simp: chain_def Let_def first_of_def split: sum.splits prod.splits)
  qed
qed

lemma finish_names [simp]:
  "NodeNamesOfResult (fst (finish args mode k t nodes rs)) = map n_Name nodes" "fx_Error (fst (finish args mode k t nodes rs)) = None"
  by (simp_all add: finish_def buildFilterResult_def NodeNamesOfResult_def Let_def)

lemma after_fst [simp]: "fst (after ev r) = fst r" "snd (after ev r) = ev @ snd r"
  by (simp_all add: after_def)

lemma fail_error [simp]: "fx_Error (fst (fail mode err)) = Some err"
  by (simp add: fail_def)

lemma local_first:
  assumes "fx_Error (fst (filter_local fe args dryRunFilter req nodes rs)) = None"
    and "\<not> (snd (IsScheduled (ar_Pod req)) \<and> ShouldCountPodDeviceAllocation (fe_env fe) (ar_Pod req))"
  shows "commit_failed (fx_Error (fst (filter_local fe args liveFilter req nodes rs))) \<or>
    (fx_Error (fst (filter_local fe args liveFilter req nodes rs)) = None \<and>
     NodeNamesOfResult (fst (filter_local fe args liveFilter req nodes rs)) =
       take 1 (NodeNamesOfResult (fst (filter_local fe args dryRunFilter req nodes rs))))"
proof -
  obtain dd de where d: "chain fe req nodes rs dryRunFilter = (dd, de)" by fastforce
  obtain ld le where l: "chain fe req nodes rs liveFilter = (ld, le)" by fastforce
  obtain kd rd where dd: "dd = Inr (kd, rd)" using assms(1) d by (auto simp: filter_local_def split: sum.splits)
  with chain_first [OF _ assms(2), of nodes rs kd rd] d l have f: "first_of (ld, le) kd" by simp
  show ?thesis
  proof (cases ld)
    case (Inl err)
    then show ?thesis using f l by (simp add: filter_local_def first_of_def)
  next
    case (Inr x)
    obtain kl rl where "x = (kl, rl)" by fastforce
    then show ?thesis using f l d dd Inr by (simp add: filter_local_def first_of_def take_map)
  qed
qed

lemma remote_first:
  assumes "fx_Error (fst (filter_remote fe args dryRunFilter req nodes rs)) = None"
    and "\<not> (snd (IsScheduled (ar_Pod req)) \<and> ShouldCountPodDeviceAllocation (fe_env fe) (ar_Pod req))"
  shows "commit_failed (fx_Error (fst (filter_remote fe args liveFilter req nodes rs))) \<or>
    (fx_Error (fst (filter_remote fe args liveFilter req nodes rs)) = None \<and>
     NodeNamesOfResult (fst (filter_remote fe args liveFilter req nodes rs)) =
       NodeNamesOfResult (fst (filter_remote fe args dryRunFilter req nodes rs)))"
proof -
  let ?req = "req\<lparr>ar_CrossPodTopology := False\<rparr>"
  obtain consumers rs' where c: "remoteConsumerNodes nodes rs = (consumers, rs')" by fastforce
  obtain servers where s: "remoteServerNodes fe ?req nodes = Inr servers"
    using assms(1) c by (auto simp: filter_remote_def Let_def split: sum.splits)
  let ?nodes = "if consumers \<noteq> [] then servers else []"
  obtain dd de where d: "chain fe ?req ?nodes [] dryRunFilter = (dd, de)" by fastforce
  obtain ld le where l: "chain fe ?req ?nodes [] liveFilter = (ld, le)" by fastforce
  obtain kd rd where dd: "dd = Inr (kd, rd)" using assms(1) c s d by (auto simp: filter_remote_def Let_def split: sum.splits)
  have sched: "\<not> (snd (IsScheduled (ar_Pod ?req)) \<and> ShouldCountPodDeviceAllocation (fe_env fe) (ar_Pod ?req))" using assms(2) by simp
  from chain_first [OF _ this, of ?nodes "[]" kd rd] d dd l have f: "first_of (ld, le) kd" by simp
  show ?thesis
  proof (cases ld)
    case (Inl err)
    then show ?thesis using f l c s by (simp add: filter_remote_def first_of_def Let_def)
  next
    case (Inr x)
    obtain kl rl where x: "x = (kl, rl)" by fastforce
    have kl: "kl = [] \<longleftrightarrow> kd = []" using f Inr x by (simp add: first_of_def)
    have same: "fst (remoteFilterResult consumers kl k a b) = fst (remoteFilterResult consumers kd k a' b)" for k a a' b
      using kl by (simp add: remoteFilterResult_def Let_def)
    obtain nd rd' where rd: "remoteFilterResult consumers kd (int (length servers)) rd rs' = (nd, rd')" by fastforce
    obtain rl' where rl: "remoteFilterResult consumers kl (int (length servers)) rl rs' = (nd, rl')"
      using same [of "int (length servers)" rl rs' rd] rd by (metis fst_conv prod.collapse)
    show ?thesis using l d dd Inr x c s rd rl by (simp add: filter_remote_def Let_def)
  qed
qed

lemma preFilter_cases:
  assumes "ea_Pod args = Some p" "pod_needs p \<noteq> []"
  shows "(\<exists>nodes rs. preFilterRequestNodes fe args = Inr (BuildAllocationRequest p, nodes, rs)) \<or>
    (\<exists>res. preFilterRequestNodes fe args = Inl res \<and> fx_Error res \<noteq> None)"
proof -
  have b: "ar_Containers (BuildAllocationRequest p) = pod_needs p" by (simp add: BuildAllocationRequest_def Let_def)
  obtain nodes rs where g: "getNodesOnCache fe (case ea_NodeNames args of None \<Rightarrow> [] | Some names \<Rightarrow> names) = (nodes, rs)" by fastforce
  show ?thesis using assms by (simp add: preFilterRequestNodes_def b Let_def g)
qed


section \<open>A dry run is silent\<close>

lemma dry_events: "snd (chain fe req nodes rs dryRunFilter) = []"
proof -
  have a: "snd (allocate_nodes fe req nodes state dryRunFilter) = []" for req nodes state
  proof -
    have "sc_trace sc' = sc_trace sc" if "scan_nodes fe dryRunFilter True rs sc = (err, sc')" for rs sc err sc'
      using scan_dry [OF refl that] by simp
    then show ?thesis
      by (auto simp: allocate_nodes_def success_events_def isDryRun_def sortNodeInfos_def Let_def split: sum.split prod.split option.split)
  qed
  have "snd (deviceFilter fe req nodes state dryRunFilter) = []" for req nodes state
    using a by (simp add: deviceFilter_def CheckDeviceRequest_def isDryRun_def split: option.split)
  then show ?thesis
    by (simp add: chain_def Let_def split: prod.split sum.split) (metis snd_conv)
qed

text \<open>
  C39. A dry run commits nothing: whatever the cluster and the pod look like, the only effects of the
  simulated filter are its own counters. It sends no event, patches no pod, changes no cached
  pod and adds nothing to the counters of live scheduling.
\<close>

theorem FilterDryRun_silent:
  "list_all (\<lambda>ev. (\<exists>c. ev = NodeRejected ''filter_dryrun'' c) \<or> (\<exists>l. ev = VerbObserved ''filter_dryrun'' l))
     (snd (FilterDryRun fe args))"
proof -
  have v: "verb dryRunFilter = ''filter_dryrun''" "isDryRun dryRunFilter" by (simp_all add: verb_def isDryRun_def)
  have f: "list_all (\<lambda>ev. (\<exists>c. ev = NodeRejected ''filter_dryrun'' c) \<or> (\<exists>l. ev = VerbObserved ''filter_dryrun'' l))
      (snd (finish args dryRunFilter k t nodes rs))" for k t nodes rs
    by (simp add: finish_def recordNodeRejects_def Let_def v list_all_iff)
  have e: "list_all (\<lambda>ev. (\<exists>c. ev = NodeRejected ''filter_dryrun'' c) \<or> (\<exists>l. ev = VerbObserved ''filter_dryrun'' l))
      (snd (fail dryRunFilter err))" for err by (simp add: fail_def v)
  have c: "chain fe req nodes rs dryRunFilter = (x, ev) \<Longrightarrow> ev = []" for req nodes rs x ev
    using dry_events [of fe req nodes rs] by simp
  show ?thesis
    using f e
    by (auto simp: FilterDryRun_def filter_nodes_def filter_local_def filter_remote_def Let_def v dest: c split: sum.split prod.split)
qed

end
