(* ===== verification/Filter_Order.thy ===== *)
theory Filter_Order
  imports Filter_Facts
begin

text \<open>
  The parallel part of the filter: what the workers build is a permutation of what one loop over
  the candidates would build, so neither the ranking nor any answer depends on which worker
  finishes first.
\<close>

section \<open>Copying maps\<close>

lemma update_new: "k \<notin> set (keys m) \<Longrightarrow> AList.update k v m = m @ [(k, v)]"
  by (induction m) auto

lemma copy_into_simps [simp]:
  "copy_into m [] = m" "copy_into m ((k, v) # d) = copy_into (AList.update k v m) d"
  by (simp_all add: copy_into_def)

lemma copy_into_disjoint:
  "distinct (keys d) \<Longrightarrow> set (keys m) \<inter> set (keys d) = {} \<Longrightarrow> copy_into m d = m @ d"
proof (induction d arbitrary: m)
  case (Cons x d)
  obtain k v where x: "x = (k, v)" by (cases x)
  have "copy_into (m @ [(k, v)]) d = (m @ [(k, v)]) @ d"
    using Cons.prems by (intro Cons.IH) (auto simp: x keys_def)
  then show ?case using Cons.prems by (simp add: x update_new)
qed simp

lemma keys_copy_into: "set (keys (copy_into m d)) = set (keys m) \<union> set (keys d)"
  by (induction d arbitrary: m) (auto simp: keys_update split: if_splits)

lemma distinct_copy_into: "distinct (keys m) \<Longrightarrow> distinct (keys (copy_into m d))"
  by (induction d arbitrary: m) (auto simp: distinct_keys_update)

lemma map_of_copy_into:
  "distinct (keys d) \<Longrightarrow> map_of (copy_into m d) x = (case map_of d x of None \<Rightarrow> map_of m x | Some v \<Rightarrow> Some v)"
  using map_of_updates [of d m x] by (simp add: copy_into_def keys_def)

section \<open>One worker\<close>

definition kept :: "verdict \<Rightarrow> ranked_node option" where
  "kept v = (case v of Keep r \<Rightarrow> Some r | _ \<Rightarrow> None)"

definition dropped :: "string \<Rightarrow> verdict \<Rightarrow> (string \<times> filter_reason option) option" where
  "dropped name v = (case v of Drop r \<Rightarrow> Some (name, Some r) | _ \<Rightarrow> None)"

text \<open>What a loop over indexed nodes builds.\<close>

definition built :: "(node \<Rightarrow> verdict) \<Rightarrow> (int \<times> node) list \<Rightarrow> batch_out" where
  "built judge ps =
     \<lparr>bo_infos = List.map_filter (\<lambda>(i, n). kept (judge n)) ps,
      bo_failed = List.map_filter (\<lambda>(i, n). dropped (n_Name n) (judge n)) ps,
      bo_position = map (\<lambda>(i, n). (n_Name n, i)) ps\<rparr>"

definition join_out :: "batch_out \<Rightarrow> batch_out \<Rightarrow> batch_out" where
  "join_out a b = \<lparr>bo_infos = bo_infos a @ bo_infos b, bo_failed = bo_failed a @ bo_failed b,
     bo_position = bo_position a @ bo_position b\<rparr>"

lemma join_out_simps:
  "join_out empty_out a = a" "join_out a empty_out = a" "join_out (join_out a b) c = join_out a (join_out b c)"
  "built judge [] = empty_out" "built judge (ps @ qs) = join_out (built judge ps) (built judge qs)"
  by (simp_all add: join_out_def empty_out_def built_def map_filter_simps List.map_filter_def)

abbreviation names_of :: "(int \<times> node) list \<Rightarrow> string list" where
  "names_of ps \<equiv> map (\<lambda>p. n_Name (snd p)) ps"

lemma built_keys:
  "keys (bo_position (built judge ps)) = names_of ps" "set (keys (bo_failed (built judge ps))) \<subseteq> set (names_of ps)"
  by (auto simp: built_def keys_def comp_def case_prod_beta List.map_filter_def dropped_def split: verdict.splits)
    force

lemma built_failed_distinct: "distinct (names_of ps) \<Longrightarrow> distinct (keys (bo_failed (built judge ps)))"
proof (induction ps)
  case (Cons p ps)
  obtain i n where p: "p = (i, n)" by (cases p)
  have "n_Name n \<notin> set (keys (bo_failed (built judge ps)))" using Cons.prems built_keys(2) [of judge ps] by (auto simp: p)
  then show ?case using Cons by (auto simp: p built_def map_filter_simps dropped_def split: verdict.split)
qed (simp add: built_def map_filter_simps)

lemma work_built:
  assumes "distinct (names_of ps)" "set (keys (bo_failed out)) \<inter> set (names_of ps) = {}"
    and "set (keys (bo_position out)) \<inter> set (names_of ps) = {}"
  shows "work judge ps out = (if list_ex (\<lambda>(i, n). judge n = Crash) ps then None else Some (join_out out (built judge ps)))"
  using assms
proof (induction ps arbitrary: out)
  case Nil
  then show ?case by (simp add: join_out_simps)
next
  case (Cons p ps)
  obtain i n where p: "p = (i, n)" by (cases p)
  have new: "AList.update (n_Name n) i (bo_position out) = bo_position out @ [(n_Name n, i)]"
    "AList.update (n_Name n) (Some r) (bo_failed out) = bo_failed out @ [(n_Name n, Some r)]" for r
    using Cons.prems(2,3) by (auto simp: p intro!: update_new)
  let ?o = "out\<lparr>bo_position := bo_position out @ [(n_Name n, i)]\<rparr>"
  show ?case
  proof (cases "judge n")
    case (Keep r)
    have "work judge ps (?o\<lparr>bo_infos := bo_infos ?o @ [r]\<rparr>) =
        (if list_ex (\<lambda>(i, n). judge n = Crash) ps then None else Some (join_out (?o\<lparr>bo_infos := bo_infos ?o @ [r]\<rparr>) (built judge ps)))"
      using Cons.prems by (intro Cons.IH) (auto simp: p keys_def)
    then show ?thesis using Keep new by (simp add: p Let_def join_out_def built_def map_filter_simps kept_def dropped_def)
  next
    case (Drop r)
    have "work judge ps (?o\<lparr>bo_failed := bo_failed ?o @ [(n_Name n, Some r)]\<rparr>) =
        (if list_ex (\<lambda>(i, n). judge n = Crash) ps then None
         else Some (join_out (?o\<lparr>bo_failed := bo_failed ?o @ [(n_Name n, Some r)]\<rparr>) (built judge ps)))"
      using Cons.prems by (intro Cons.IH) (auto simp: p keys_def)
    then show ?thesis using Drop new by (simp add: p Let_def join_out_def built_def map_filter_simps kept_def dropped_def)
  next
    case Crash
    then show ?thesis by (simp add: p Let_def)
  qed
qed

section \<open>All workers\<close>

definition indexed :: "node list \<Rightarrow> (int \<times> node) list" where
  "indexed nodes = map (\<lambda>i. (i, nodes ! nat i)) [0 .. int (length nodes) - 1]"

lemma names_indexed: "names_of (indexed nodes) = map n_Name nodes" "map snd (indexed nodes) = nodes"
proof -
  show *: "map snd (indexed nodes) = nodes"
    by (rule nth_equalityI) (auto simp: indexed_def)
  show "names_of (indexed nodes) = map n_Name nodes" using arg_cong [OF *, of "map n_Name"] by (simp add: comp_def)
qed

lemma merge_disjoint:
  assumes "distinct (names_of (ps @ qs))"
  shows "merge_batch (built judge ps) (built judge qs) = built judge (ps @ qs)"
proof -
  have d: "set (names_of ps) \<inter> set (names_of qs) = {}" "distinct (names_of qs)" using assms by auto
  have "copy_into (bo_failed (built judge ps)) (bo_failed (built judge qs)) = bo_failed (built judge ps) @ bo_failed (built judge qs)"
    using d built_keys(2) [of judge ps] built_keys(2) [of judge qs] by (intro copy_into_disjoint built_failed_distinct) blast+
  moreover have "copy_into (bo_position (built judge ps)) (bo_position (built judge qs)) =
      bo_position (built judge ps) @ bo_position (built judge qs)"
    using d built_keys(1) [of judge] by (intro copy_into_disjoint) simp_all
  ultimately show ?thesis by (simp add: merge_batch_def join_out_simps(5)) (simp add: join_out_def)
qed

lemma merge_all:
  assumes "distinct (names_of (ps @ concat (map f order)))"
  shows "foldl (\<lambda>acc i. merge_batch acc (built judge (f i))) (built judge ps) order = built judge (ps @ concat (map f order))"
  using assms
proof (induction order arbitrary: ps)
  case (Cons i order)
  have "distinct (names_of (ps @ f i))" using Cons.prems by auto
  then show ?case using Cons.IH [of "ps @ f i"] Cons.prems by (simp add: merge_disjoint)
qed simp

lemma mset_concat_order:
  assumes "mset order = mset [0 ..< length xss]"
  shows "mset (concat (map ((!) xss) order)) = mset (concat xss)"
proof -
  have "mset (map ((!) xss) order) = mset (map ((!) xss) [0 ..< length xss])" using assms by simp
  then have "mset (map ((!) xss) order) = mset xss" by (simp add: map_nth)
  then have "sum_mset (image_mset mset (mset (map ((!) xss) order))) = sum_mset (image_mset mset (mset xss))" by simp
  then show ?thesis by (simp add: mset_concat sum_mset_sum_list [symmetric] image_mset.compositionality comp_def)
qed

definition fair :: "filter_env \<Rightarrow> bool" where
  "fair fe \<longleftrightarrow> 0 < fe_workers fe \<and> (\<forall>k. mset (fe_finish fe k) = mset [0 ..< k])"

lemma finish_perm: "fair fe \<Longrightarrow> mset (finish_order fe k) = mset [0 ..< k]"
  by (simp add: fair_def finish_order_def)

lemma batches_cover:
  assumes "fair fe" "nodes \<noteq> []"
  shows "concat (map batch_indices (batches_of fe nodes)) = [0 .. int (length nodes) - 1]"
proof -
  let ?n = "int (length nodes)" and ?w = "fe_workers fe"
  have n: "0 < ?n" "0 < ?w" using assms by (simp_all add: fair_def)
  have "1 * ?w \<le> ?n + ?w - 1" using n by simp
  then have "0 < (?n + ?w - 1) div ?w" using n(2) by (simp add: pos_imp_zdiv_pos_iff)
  then show ?thesis using BalanceBatches_cover n(1) by (simp add: batches_of_def Let_def)
qed

lemma build_nodes_perm:
  assumes "fair fe" "distinct (map n_Name nodes)" "nodes \<noteq> []"
  shows "\<exists>ps. mset ps = mset (indexed nodes) \<and>
    build_nodes fe judge nodes = (if list_ex (\<lambda>n. judge n = Crash) nodes then None else Some (built judge ps))"
proof -
  define bs where "bs = batches_of fe nodes"
  define f where "f = (\<lambda>b. map (\<lambda>i. (i, nodes ! nat i)) (batch_indices b))"
  define order where "order = finish_order fe (length bs)"
  have perm: "mset order = mset [0 ..< length (map f bs)]" unfolding order_def length_map by (rule finish_perm [OF assms(1)])
  have cat: "concat (map f bs) = indexed nodes"
  proof -
    have "concat (map f bs) = map (\<lambda>i. (i, nodes ! nat i)) (concat (map batch_indices bs))" by (simp add: f_def map_concat comp_def)
    then show ?thesis using batches_cover [OF assms(1,3)] by (simp add: bs_def indexed_def)
  qed
  have dist: "distinct (names_of (concat (map f bs)))" unfolding cat names_indexed by (rule assms(2))
  have one: "run_batch judge nodes b = (if list_ex (\<lambda>(i, n). judge n = Crash) (f b) then None else Some (built judge (f b)))"
    if "b \<in> set bs" for b
  proof -
    have "distinct (names_of (f b))" using dist that by (induction bs) auto
    from work_built [OF this, of empty_out judge] show ?thesis by (simp add: run_batch_def f_def empty_out_def join_out_simps [unfolded empty_out_def])
  qed
  have crash: "list_ex (\<lambda>out. out = None) (map (run_batch judge nodes) bs) \<longleftrightarrow> list_ex (\<lambda>n. judge n = Crash) nodes"
  proof -
    have "list_ex (\<lambda>out. out = None) (map (run_batch judge nodes) bs) \<longleftrightarrow> (\<exists>b \<in> set bs. \<exists>p \<in> set (f b). judge (snd p) = Crash)"
      using one by (auto simp: list_ex_iff case_prod_beta)
    also have "\<dots> \<longleftrightarrow> (\<exists>p \<in> set (concat (map f bs)). judge (snd p) = Crash)" by auto
    also have "\<dots> \<longleftrightarrow> (\<exists>n \<in> set (map snd (indexed nodes)). judge n = Crash)" unfolding cat by auto
    finally show ?thesis by (simp add: names_indexed list_ex_iff)
  qed
  let ?ps = "concat (map ((!) (map f bs)) order)"
  have ps: "mset ?ps = mset (indexed nodes)" using mset_concat_order [OF perm] cat by simp
  have distp: "distinct (names_of ([] @ ?ps))"
    using dist mset_concat_order [OF perm] by (metis append_Nil mset_eq_imp_distinct_iff mset_map)
  have "build_nodes fe judge nodes = (if list_ex (\<lambda>n. judge n = Crash) nodes then None else Some (built judge ?ps))"
  proof (cases "list_ex (\<lambda>n. judge n = Crash) nodes")
    case True
    then show ?thesis using crash by (simp add: build_nodes_def bs_def Let_def)
  next
    case False
    have "the (map (run_batch judge nodes) bs ! i) = built judge (map f bs ! i)" if "i \<in> set order" for i
    proof -
      have i: "i < length bs" using perm that by (metis atLeastLessThan_iff length_map set_mset_mset set_upt)
      have "judge (snd q) \<noteq> Crash" if q: "q \<in> set (f (bs ! i))" for q
      proof -
        have "q \<in> set (indexed nodes)" using q i unfolding cat [symmetric] by auto
        then have "snd q \<in> set (map snd (indexed nodes))" by simp
        then show ?thesis using False unfolding names_indexed by (simp add: list_ex_iff)
      qed
      then have "\<not> list_ex (\<lambda>(i, n). judge n = Crash) (f (bs ! i))" by (auto simp: list_ex_iff)
      then show ?thesis using i one [of "bs ! i"] by simp
    qed
    then have "foldl (\<lambda>acc i. merge_batch acc (the (map (run_batch judge nodes) bs ! i))) empty_out order =
        foldl (\<lambda>acc i. merge_batch acc (built judge (map f bs ! i))) (built judge []) order"
      by (intro foldl_cong) (simp_all add: join_out_simps)
    also have "\<dots> = built judge ?ps" using merge_all [OF distp] by simp
    finally show ?thesis using False crash by (simp add: build_nodes_def bs_def [symmetric] order_def [symmetric] Let_def)
  qed
  then show ?thesis using ps by blast
qed

section \<open>The order of the workers is irrelevant elsewhere\<close>

text \<open>An environment that differs in nothing but the order in which the workers finish.\<close>

abbreviation reorder :: "(nat \<Rightarrow> nat list) \<Rightarrow> filter_env \<Rightarrow> filter_env" where
  "reorder g fe \<equiv> fe\<lparr>fe_finish := g\<rparr>"

lemma reorder_fields [simp]:
  "fe_env (reorder g fe) = fe_env fe" "fe_net (reorder g fe) = fe_net fe" "fe_getNode (reorder g fe) = fe_getNode fe"
  "fe_listNodes (reorder g fe) = fe_listNodes fe" "fe_parseSelector (reorder g fe) = fe_parseSelector fe" "fe_untolerated (reorder g fe) = fe_untolerated fe"
  "fe_vgpuPods (reorder g fe) = fe_vgpuPods fe" "fe_gangPods (reorder g fe) = fe_gangPods fe" "fe_ownerPods (reorder g fe) = fe_ownerPods fe"
  "fe_server (reorder g fe) = fe_server fe" "fe_ctxLocked (reorder g fe) = fe_ctxLocked fe" "fe_ctxCommit (reorder g fe) = fe_ctxCommit fe"
  "fe_workers (reorder g fe) = fe_workers fe" "fe_gpuTopology (reorder g fe) = fe_gpuTopology fe" "fe_decodeText (reorder g fe) = fe_decodeText fe"
  "fe_scalingText (reorder g fe) = fe_scalingText fe" "fe_serverErrorText (reorder g fe) = fe_serverErrorText fe"
  by simp_all

lemma reorder_nodes [simp]:
  "preFilterRequestNodes (reorder g fe) args = preFilterRequestNodes fe args"
  "remoteServerNodes (reorder g fe) req ns = remoteServerNodes fe req ns"
  "read_node (reorder g fe) n = read_node fe n" "GetMemoryPolicyFunc (reorder g fe) p = GetMemoryPolicyFunc fe p"
  unfolding preFilterRequestNodes_def getNodesOnCache_def remoteServerNodes_def serverInService_def
    read_node_def GetMemoryPolicyFunc_def reorder_fields by (rule refl)+

lemma reorder_checks [simp]:
  "CheckNode (reorder g fe) n fs = CheckNode fe n fs" "nodeFilter (reorder g fe) req ns st = nodeFilter fe req ns st"
  "sibling_node (reorder g fe) byName bt nn = sibling_node fe byName bt nn" "is_gang_sibling (reorder g fe) req p = is_gang_sibling fe req p"
  "needGangOrdinal (reorder g fe) req = needGangOrdinal fe req" "gang_list (reorder g fe) req = gang_list fe req"
  unfolding CheckNode_def nodeFilter_def sibling_node_def is_gang_sibling_def needGangOrdinal_def topologyEnabled_def gang_list_def
    reorder_nodes reorder_fields by (rule refl)+

lemma reorder_judge [simp]:
  "judge_node (reorder g fe) req pods st n = judge_node fe req pods st n"
  "batches_of (reorder g fe) ns = batches_of fe ns" "scan_node (reorder g fe) mode first r sc = scan_node fe mode first r sc"
  unfolding judge_node_def node_option_def topologyEnabled_def batches_of_def scan_node_def commit_def reorder_fields by (rule refl)+

lemma reorder_scan [simp]: "scan_nodes (reorder g fe) mode first rs sc = scan_nodes fe mode first rs sc"
proof (induction rs arbitrary: first sc)
  case (Cons r rs)
  then show ?case by (simp split: prod.split option.split)
qed simp

lemma reorder_votes [simp]: "sibling_votes (reorder g fe) byName ps b d r = sibling_votes fe byName ps b d r"
  by (induction fe byName ps b d r rule: sibling_votes.induct) (simp_all split: option.split prod.split)

lemma reorder_gang [simp]: "FindGangSiblingDomain (reorder g fe) pods b req = FindGangSiblingDomain fe pods b req"
proof -
  have "is_gang_sibling (reorder g fe) req = is_gang_sibling fe req" by (intro ext) simp
  then show ?thesis by (simp add: FindGangSiblingDomain_def)
qed

lemma reorder_judges: "judge_node (reorder g fe) req pods st = judge_node fe req pods st"
  by (intro ext) simp

section \<open>Lookups do not see the order\<close>

lemma map_of_perm:
  assumes "distinct (keys m)" "mset m = mset m'"
  shows "map_of m = map_of m'"
proof -
  have "distinct (keys m')" using assms by (metis keys_def mset_eq_imp_distinct_iff mset_map)
  moreover have "set m = set m'" using assms(2) by (rule mset_eq_setD)
  ultimately show ?thesis using assms(1) by (metis keys_def map_of_inject_set)
qed

text \<open>Two maps with the same entries, whatever their order.\<close>

definition like :: "('k, 'v) gomap \<Rightarrow> ('k, 'v) gomap \<Rightarrow> bool" where
  "like a b \<longleftrightarrow> map_of a = map_of b \<and> distinct (keys a) \<and> distinct (keys b)"

lemma like_mset: "like a b \<Longrightarrow> mset a = mset b"
  by (auto simp: like_def intro: mset_of_map)

lemma mset_like: "mset a = mset b \<Longrightarrow> distinct (keys a) \<Longrightarrow> like a b"
  unfolding like_def using map_of_perm [of a b] by (metis keys_def mset_eq_imp_distinct_iff mset_map)

lemma like_update: "like a b \<Longrightarrow> like (AList.update k v a) (AList.update k v b)"
  by (simp add: like_def fun_eq_iff map_of_update distinct_keys_update)

lemma like_copy: "like a b \<Longrightarrow> distinct (keys m) \<Longrightarrow> like (copy_into m a) (copy_into m b)"
  by (simp add: like_def fun_eq_iff map_of_copy_into distinct_copy_into)

lemma sibling_node_cong: "map_of b = map_of b' \<Longrightarrow> sibling_node fe b = sibling_node fe b'"
  by (simp add: fun_eq_iff sibling_node_def)

lemma sibling_votes_cong:
  assumes "map_of b = map_of b'"
  shows "sibling_votes fe b ps bt d r = sibling_votes fe b' ps bt d r"
proof (induction ps arbitrary: bt d r)
  case (Cons p ps)
  then show ?case using sibling_node_cong [OF assms] by (simp split: option.split prod.split)
qed simp

lemma FindGang_cong: "map_of b = map_of b' \<Longrightarrow> FindGangSiblingDomain fe pods b req = FindGangSiblingDomain fe pods b' req"
  using sibling_votes_cong [of b b'] by (simp add: FindGangSiblingDomain_def)

lemma commit_like:
  "commit fe n p (sc\<lparr>sc_failed := f\<rparr>) = (fst (commit fe n p sc), (snd (commit fe n p sc))\<lparr>sc_failed := f\<rparr>)"
  "sc_failed (snd (commit fe n p sc)) = sc_failed sc"
  by (simp_all add: commit_def split: option.split prod.split)

lemma scan_node_alloc:
  assumes "isDryRun mode \<or> sc_nodes sc = []"
    and a: "Allocate (fe_env fe) \<lparr>ao_recorder = first, ao_simulate = isDryRun mode\<rparr>
        \<lparr>as_nodeInfo = rn_info r, as_request = sc_request sc, as_trace = []\<rparr> = (res, s)"
    and sc': "sc' = sc\<lparr>sc_request := as_request s, sc_trace := sc_trace sc @ map AllocatorSaw (as_trace s)\<rparr>"
  shows "scan_node fe mode first r sc =
    (case res of
       Failed err \<Rightarrow> (Some (AllocatorFailed err), sc')
     | Refused rsn \<Rightarrow> (None, sc'\<lparr>sc_failed := AList.update (n_Name (node_of r)) (Some rsn) (sc_failed sc')\<rparr>)
     | Placed newPod \<Rightarrow>
         if isDryRun mode then (None, sc'\<lparr>sc_nodes := sc_nodes sc' @ [node_of r]\<rparr>) else commit fe (node_of r) newPod sc')"
proof -
  have "(\<not> isDryRun mode \<and> sc_nodes sc \<noteq> []) = False" using assms(1) by simp
  then show ?thesis unfolding scan_node_def Let_def a sc' by (simp only: if_False prod.case)
qed

lemma scan_node_like:
  assumes "like (sc_failed sc) f"
  shows "\<exists>f'. scan_node fe mode first r (sc\<lparr>sc_failed := f\<rparr>) =
    (fst (scan_node fe mode first r sc), (snd (scan_node fe mode first r sc))\<lparr>sc_failed := f'\<rparr>) \<and>
    like (sc_failed (snd (scan_node fe mode first r sc))) f'"
proof (cases "isDryRun mode \<or> sc_nodes sc = []")
  case True
  obtain res s where a: "Allocate (fe_env fe) \<lparr>ao_recorder = first, ao_simulate = isDryRun mode\<rparr>
      \<lparr>as_nodeInfo = rn_info r, as_request = sc_request sc, as_trace = []\<rparr> = (res, s)" by fastforce
  define sc1 where "sc1 = sc\<lparr>sc_request := as_request s, sc_trace := sc_trace sc @ map AllocatorSaw (as_trace s)\<rparr>"
  have f: "sc_failed sc1 = sc_failed sc" by (simp add: sc1_def)
  note one = scan_node_alloc [OF True a sc1_def]
  have two: "scan_node fe mode first r (sc\<lparr>sc_failed := f\<rparr>) =
    (case res of
       Failed err \<Rightarrow> (Some (AllocatorFailed err), sc1\<lparr>sc_failed := f\<rparr>)
     | Refused rsn \<Rightarrow> (None, sc1\<lparr>sc_failed := AList.update (n_Name (node_of r)) (Some rsn) f\<rparr>)
     | Placed newPod \<Rightarrow>
         if isDryRun mode then (None, sc1\<lparr>sc_nodes := sc_nodes sc1 @ [node_of r], sc_failed := f\<rparr>)
         else commit fe (node_of r) newPod (sc1\<lparr>sc_failed := f\<rparr>))"
    using scan_node_alloc [of mode "sc\<lparr>sc_failed := f\<rparr>" fe first r res s "sc1\<lparr>sc_failed := f\<rparr>"] True a
    by (simp add: sc1_def split: outcome.split)
  show ?thesis
  proof (cases res)
    case (Placed p)
    then show ?thesis unfolding one two using assms f commit_like(1) [of fe "node_of r" p f sc1] commit_like(2) [of fe "node_of r" p sc1] by (intro exI [of _ f]) simp
  next
    case (Refused rsn)
    then show ?thesis unfolding one two using like_update [OF assms] f
      by (intro exI [of _ "AList.update (n_Name (node_of r)) (Some rsn) f"]) simp
  next
    case (Failed err)
    then show ?thesis unfolding one two using assms f by (intro exI [of _ f]) simp
  qed
next
  case False
  then show ?thesis using like_update [OF assms] by (auto simp: scan_node_def Let_def)
qed

lemma scan_like:
  assumes "like (sc_failed sc) f"
  shows "\<exists>f'. scan_nodes fe mode first rs (sc\<lparr>sc_failed := f\<rparr>) =
    (fst (scan_nodes fe mode first rs sc), (snd (scan_nodes fe mode first rs sc))\<lparr>sc_failed := f'\<rparr>) \<and>
    like (sc_failed (snd (scan_nodes fe mode first rs sc))) f'"
  using assms
proof (induction rs arbitrary: sc f first)
  case (Cons r rs)
  obtain e sc1 where one: "scan_node fe mode first r sc = (e, sc1)" by fastforce
  obtain f1 where f1: "scan_node fe mode first r (sc\<lparr>sc_failed := f\<rparr>) = (e, sc1\<lparr>sc_failed := f1\<rparr>)" "like (sc_failed sc1) f1"
    using scan_node_like [OF Cons.prems, of fe mode first r] one by auto
  show ?case
  proof (cases e)
    case None
    then show ?thesis using Cons.IH [OF f1(2), of False] one f1(1) by simp
  next
    case (Some err)
    then show ?thesis using one f1 by auto
  qed
qed auto

section \<open>The nodes that are built\<close>

lemma ni_node_add: "AddUsedResources n c = Inr n' \<Longrightarrow> ni_node n' = ni_node n" "addFootprintResources n fp = Inr n' \<Longrightarrow> ni_node n' = ni_node n"
  by (auto simp: AddUsedResources_def addFootprintResources_def add_node_usage_def Let_def split: option.splits if_splits)

lemma ni_node_keep [simp]: "ni_node (or_keep n (AddUsedResources n c)) = ni_node n" "ni_node (or_keep n (addFootprintResources n fp)) = ni_node n"
  by (auto simp: or_keep_def dest: ni_node_add split: sum.split)

lemma ni_node_fold: "(\<And>n x. ni_node (f n x) = ni_node n) \<Longrightarrow> ni_node (foldl f n xs) = ni_node n"
  by (induction xs arbitrary: n) simp_all

lemma ni_node_pod [simp]: "ni_node (AddPodUsedResources e n p) = ni_node n"
  by (simp add: AddPodUsedResources_def Let_def ni_node_fold)

lemma ni_node_pods [simp]: "ni_node (AddPodsUsedResources e n ps opt) = ni_node n"
proof -
  have "ni_node (foldl (\<lambda>n p. if p_UID p \<in> no_excludedUids opt then n
      else AddPodUsedResources e (n\<lparr>ni_nodePods := ni_nodePods n @ [p]\<rparr>) p) m qs) = ni_node m" for m qs
    by (rule ni_node_fold) simp
  then show ?thesis by (simp add: AddPodsUsedResources_def Let_def resetResourceUsage_def)
qed

lemma ni_node_Refresh [simp]: "ni_node (RefreshResourcesData n) = ni_node n"
proof -
  have "ni_node (fst (foldl refresh_device (m, f, sm, c) ds)) = ni_node m" for m f sm c ds
    by (induction ds arbitrary: m f sm c) (simp_all add: refresh_device_def)
  then show ?thesis by (simp add: RefreshResourcesData_def Let_def case_prod_beta)
qed

lemma NewNodeInfo_node: "NewNodeInfo e n opt = Inr info \<Longrightarrow> ni_node info = n"
  by (auto simp: NewNodeInfo_def link_maps_def Let_def split: sum.splits prod.splits if_splits)

lemma judge_name: "judge_node fe req pods st n = Keep r \<Longrightarrow> node_of r = n"
  by (auto simp: judge_node_def Let_def dest: NewNodeInfo_node split: sum.splits gather_error.splits option.splits)

lemma built_names:
  assumes "\<And>n r. judge n = Keep r \<Longrightarrow> node_of r = n"
  shows "rn_name ` set (bo_infos (built judge ps)) \<subseteq> set (names_of ps)"
proof (rule image_subsetI)
  fix r assume "r \<in> set (bo_infos (built judge ps))"
  then obtain i n where "(i, n) \<in> set ps" "judge n = Keep r"
    by (auto simp: built_def List.map_filter_def kept_def split: verdict.splits)
  then show "rn_name r \<in> set (names_of ps)" using assms [of n r] by (force simp: rn_name_def)
qed

lemma built_like:
  assumes "mset ps = mset qs" "distinct (names_of ps)" "\<And>n r. judge n = Keep r \<Longrightarrow> node_of r = n"
  shows "mset (bo_infos (built judge ps)) = mset (bo_infos (built judge qs))" "distinct (map rn_name (bo_infos (built judge ps)))"
    "like (bo_failed (built judge ps)) (bo_failed (built judge qs))" "map_of (bo_position (built judge ps)) = map_of (bo_position (built judge qs))"
proof -
  show "mset (bo_infos (built judge ps)) = mset (bo_infos (built judge qs))"
    using assms(1) by (simp add: built_def List.map_filter_def)
  have "mset (bo_failed (built judge ps)) = mset (bo_failed (built judge qs))" using assms(1) by (simp add: built_def List.map_filter_def)
  then show "like (bo_failed (built judge ps)) (bo_failed (built judge qs))" by (rule mset_like [OF _ built_failed_distinct [OF assms(2)]])
  show "map_of (bo_position (built judge ps)) = map_of (bo_position (built judge qs))"
    using assms(1,2) by (intro map_of_perm) (simp_all add: built_keys(1), simp add: built_def)
  show "distinct (map rn_name (bo_infos (built judge ps)))" using assms(2)
  proof (induction ps)
    case (Cons p ps)
    obtain i n where p: "p = (i, n)" by (cases p)
    show ?case using Cons built_names [of judge ps] assms(3) by (auto simp: p built_def map_filter_simps kept_def rn_name_def split: verdict.split)
  qed (simp add: built_def map_filter_simps)
qed

lemma built_positions:
  assumes "mset ps = mset (indexed nodes)" "distinct (map n_Name nodes)" "a \<in> set (names_of ps)" "b \<in> set (names_of ps)" "a \<noteq> b"
  shows "\<exists>i j. map_of (bo_position (built judge ps)) a = Some i \<and> map_of (bo_position (built judge ps)) b = Some j \<and> i \<noteq> j"
proof -
  have ps: "set ps = set (indexed nodes)" using assms(1) by (rule mset_eq_setD)
  have "distinct (names_of (indexed nodes))" unfolding names_indexed by (rule assms(2))
  then have d: "distinct (names_of ps)" using assms(1) by (metis mset_eq_imp_distinct_iff mset_map)
  have look: "map_of (bo_position (built judge ps)) (n_Name n) = Some i" if "(i, n) \<in> set ps" for i n
    using that d by (intro map_of_is_SomeI) (force simp: built_def comp_def case_prod_beta)+
  obtain i n where a: "(i, n) \<in> set ps" "a = n_Name n" using assms(3) by auto
  obtain j m where b: "(j, m) \<in> set ps" "b = n_Name m" using assms(4) by auto
  have "i \<noteq> j" using a b assms(5) unfolding ps by (auto simp: indexed_def)
  then show ?thesis using look [OF a(1)] look [OF b(1)] a(2) b(2) by blast
qed

lemma sort_like:
  assumes "mset infos = mset infos'" "distinct (map rn_name infos)" "map_of pos = map_of pos'"
    and pos: "\<And>a b. a \<in> rn_name ` set infos \<Longrightarrow> b \<in> rn_name ` set infos \<Longrightarrow> a \<noteq> b \<Longrightarrow>
       \<exists>i j. map_of pos a = Some i \<and> map_of pos b = Some j \<and> i \<noteq> j"
  shows "sortNodeInfos req infos pos mode = sortNodeInfos req infos' pos' mode"
proof -
  let ?fs = "ApplyTopologyMode req [by_position pos]"
  have "by_position pos = by_position pos'" by (simp add: fun_eq_iff by_position_def assms(3))
  moreover have "sortPriority ?fs infos = sortPriority ?fs infos'"
    unfolding sortPriority_def
  proof (rule go_sort_order_independent [OF comparator_chain assms(1)])
    have "comparator (by_position pos)"
      using comparator_key [of "\<lambda>p. case map_of pos (rn_name p) of None \<Rightarrow> 0 | Some i \<Rightarrow> i"]
      by (simp add: by_position_def [abs_def])
    moreover have "comparator lt" if "lt \<in> set ?fs" "lt \<noteq> by_position pos" for lt
      using that comparator_node [of lt req] by (auto simp: ApplyTopologyMode_def NewNodePolicyPriority_def split: topology_mode.splits)
    ultimately show "\<forall>lt \<in> set ?fs. comparator lt" by blast
    fix a b assume ab: "a \<in> set infos" "b \<in> set infos" "a \<noteq> b"
    then have "rn_name a \<noteq> rn_name b" using assms(2) by (auto simp: distinct_map inj_on_def)
    then obtain i j where "map_of pos (rn_name a) = Some i" "map_of pos (rn_name b) = Some j" "i \<noteq> j"
      using pos [of "rn_name a" "rn_name b"] ab by auto
    then have "by_position pos a b \<or> by_position pos b a" by (auto simp: by_position_def)
    then show "chain_less ?fs a b \<or> chain_less ?fs b a" by (auto simp: ApplyTopologyMode_def split: topology_mode.splits)
  qed
  ultimately show ?thesis using node_order_deterministic [OF assms(1,2)] by (simp add: sortNodeInfos_def Let_def)
qed

end
