(* ===== verification/Filter_Answer.thy ===== *)
theory Filter_Answer
  imports Filter_Order
begin

text \<open>
  What the filter answers. The answer does not depend on the order in which the parallel workers
  finish, and every candidate of a call is accounted for: it is kept or it has a reason.
\<close>

section \<open>The stages under another order\<close>

definition same_out :: "batch_out \<Rightarrow> batch_out \<Rightarrow> bool" where
  "same_out a b \<longleftrightarrow> mset (bo_infos a) = mset (bo_infos b) \<and> distinct (map rn_name (bo_infos a)) \<and>
     like (bo_failed a) (bo_failed b) \<and> map_of (bo_position a) = map_of (bo_position b) \<and>
     (\<forall>x \<in> rn_name ` set (bo_infos a). \<forall>y \<in> rn_name ` set (bo_infos a). x \<noteq> y \<longrightarrow>
        (\<exists>i j. map_of (bo_position a) x = Some i \<and> map_of (bo_position a) y = Some j \<and> i \<noteq> j))"

lemma build_like:
  assumes "fair fe" "fair (reorder g fe)" "distinct (map n_Name nodes)" "nodes \<noteq> []"
    and judge: "\<And>n r. judge n = Keep r \<Longrightarrow> node_of r = n"
  shows "rel_option same_out (build_nodes fe judge nodes) (build_nodes (reorder g fe) judge nodes)"
proof -
  obtain ps where ps: "mset ps = mset (indexed nodes)"
    "build_nodes fe judge nodes = (if list_ex (\<lambda>n. judge n = Crash) nodes then None else Some (built judge ps))"
    using build_nodes_perm [OF assms(1,3,4)] by blast
  obtain qs where qs: "mset qs = mset (indexed nodes)"
    "build_nodes (reorder g fe) judge nodes = (if list_ex (\<lambda>n. judge n = Crash) nodes then None else Some (built judge qs))"
    using build_nodes_perm [OF assms(2,3,4)] by blast
  have "distinct (names_of (indexed nodes))" unfolding names_indexed by (rule assms(3))
  then have d: "distinct (names_of ps)" using ps(1) by (metis mset_eq_imp_distinct_iff mset_map)
  have eq: "mset ps = mset qs" using ps(1) qs(1) by simp
  have "\<exists>i j. map_of (bo_position (built judge ps)) x = Some i \<and> map_of (bo_position (built judge ps)) y = Some j \<and> i \<noteq> j"
    if "x \<in> rn_name ` set (bo_infos (built judge ps))" "y \<in> rn_name ` set (bo_infos (built judge ps))" "x \<noteq> y" for x y
    using built_names [of judge ps, OF judge] that by (intro built_positions [OF ps(1) assms(3)]) (simp_all add: subset_iff)
  then have "same_out (built judge ps) (built judge qs)"
    unfolding same_out_def using built_like [of ps qs judge, OF eq d judge] by simp
  then show ?thesis by (simp add: ps(2) qs(2))
qed

lemma names_map: "same_out a b \<Longrightarrow>
    map_of (copy_into [] (map (\<lambda>r. (rn_name r, rn_info r)) (bo_infos a))) = map_of (copy_into [] (map (\<lambda>r. (rn_name r, rn_info r)) (bo_infos b)))"
proof -
  assume s: "same_out a b"
  let ?m = "\<lambda>o'. map (\<lambda>r. (rn_name r, rn_info r)) (bo_infos o')"
  have m: "mset (?m a) = mset (?m b)" using s by (simp add: same_out_def)
  have d: "distinct (keys (?m a))" using s by (simp add: same_out_def keys_def comp_def)
  have "mset (keys (?m a)) = mset (keys (?m b))" unfolding keys_def mset_map [of fst] m by (rule refl)
  then have d': "distinct (keys (?m b))" using d mset_eq_imp_distinct_iff by blast
  show ?thesis using map_of_perm [OF d m] by (simp add: copy_into_disjoint d d')
qed

lemma same_out_sort:
  assumes "same_out a b"
  shows "sortNodeInfos q (bo_infos a) (bo_position a) mode = sortNodeInfos q (bo_infos b) (bo_position b) mode"
proof (rule sort_like)
  show "\<exists>i j. map_of (bo_position a) x = Some i \<and> map_of (bo_position a) y = Some j \<and> i \<noteq> j"
    if "x \<in> rn_name ` set (bo_infos a)" "y \<in> rn_name ` set (bo_infos a)" "x \<noteq> y" for x y
    using assms that unfolding same_out_def by blast
qed (use assms in \<open>simp_all add: same_out_def\<close>)

lemma pre_like:
  assumes "fair fe" "fair (reorder g fe)" "distinct (map n_Name nodes)" "nodes \<noteq> []"
  shows "rel_sum (=) (rel_prod (=) same_out) (preFilterNodeInfos fe req nodes st) (preFilterNodeInfos (reorder g fe) req nodes st)"
proof (cases "fe_vgpuPods fe")
  case (Inr pods)
  let ?judge = "judge_node fe req (NodeMapByIndexValue pods) st"
  have rel: "rel_option same_out (build_nodes fe ?judge nodes) (build_nodes (reorder g fe) ?judge nodes)"
    by (rule build_like [OF assms judge_name])
  show ?thesis
  proof (cases "build_nodes fe ?judge nodes")
    case None
    then show ?thesis using rel Inr by (simp add: preFilterNodeInfos_def reorder_judges)
  next
    case (Some a)
    then obtain b where b: "build_nodes (reorder g fe) ?judge nodes = Some b" "same_out a b"
      using rel by (auto simp: option_rel_Some1)
    have "bo_infos a = [] \<longleftrightarrow> bo_infos b = []" using b(2) unfolding same_out_def by (metis mset_zero_iff)
    then show ?thesis using Some b Inr FindGang_cong [OF names_map [OF b(2)]]
      by (simp add: preFilterNodeInfos_def reorder_judges split: sum.split option.split)
  qed
qed (simp add: preFilterNodeInfos_def)

definition alike ::
  "(filter_error + node list \<times> reasons) \<times> filter_effect list \<Rightarrow> (filter_error + node list \<times> reasons) \<times> filter_effect list \<Rightarrow> bool" where
  "alike = rel_prod (rel_sum (=) (rel_prod (=) like)) (=)"

lemma allocate_like:
  assumes "fair fe" "fair (reorder g fe)" "distinct (map n_Name nodes)" "nodes \<noteq> []"
  shows "alike (allocate_nodes fe req nodes st mode) (allocate_nodes (reorder g fe) req nodes st mode)"
proof (cases "preFilterNodeInfos fe req nodes st")
  case (Inl err)
  then show ?thesis using pre_like [OF assms, of req st] by (auto simp: allocate_nodes_def alike_def elim: rel_sum.cases)
next
  case (Inr x)
  then obtain q a where x: "preFilterNodeInfos fe req nodes st = Inr (q, a)" by (cases x) simp
  then obtain b where b: "preFilterNodeInfos (reorder g fe) req nodes st = Inr (q, b)" "same_out a b"
    using pre_like [OF assms, of req st] by (cases "preFilterNodeInfos (reorder g fe) req nodes st") auto
  have none: "bo_infos a = [] \<longleftrightarrow> bo_infos b = []" using b(2) unfolding same_out_def by (metis mset_zero_iff)
  have sort: "sortNodeInfos q (bo_infos b) (bo_position b) mode = sortNodeInfos q (bo_infos a) (bo_position a) mode"
    by (rule same_out_sort [OF b(2), symmetric])
  obtain ranked events where r: "sortNodeInfos q (bo_infos a) (bo_position a) mode = (ranked, events)" by fastforce
  let ?sc = "\<lparr>sc_nodes = [], sc_failed = bo_failed a, sc_request = q, sc_trace = events\<rparr>"
  have failed: "like (bo_failed a) (bo_failed b)" using b(2) by (simp add: same_out_def)
  then obtain f where f: "scan_nodes fe mode True ranked (?sc\<lparr>sc_failed := bo_failed b\<rparr>) =
      (fst (scan_nodes fe mode True ranked ?sc), (snd (scan_nodes fe mode True ranked ?sc))\<lparr>sc_failed := f\<rparr>)"
      "like (sc_failed (snd (scan_nodes fe mode True ranked ?sc))) f"
    using scan_like [of ?sc "bo_failed b" fe mode True ranked] by auto
  show ?thesis
  proof (cases "bo_infos a = []")
    case True
    then show ?thesis using none failed by (simp add: allocate_nodes_def x b alike_def)
  next
    case False
    obtain e sc where s: "scan_nodes fe mode True ranked ?sc = (e, sc)" by fastforce
    show ?thesis using False none f s by (cases e) (simp_all add: allocate_nodes_def x b r sort alike_def)
  qed
qed

lemma device_like:
  assumes "fair fe" "fair (reorder g fe)" "distinct (map n_Name nodes)"
  shows "alike (deviceFilter fe req nodes st mode) (deviceFilter (reorder g fe) req nodes st mode)"
proof -
  have refl: "alike (Inl e, ev) (Inl e, ev)" "alike (Inr ([], []), ev) (Inr ([], []), ev)"
    "alike (Inr (steer nm nodes), ev) (Inr (steer nm nodes), ev)" for e ev nm
  proof -
    have "distinct (keys (snd (foldl (steer_step nm) s ns)))" if "distinct (keys (snd s))" for s ns
      using that by (induction ns arbitrary: s) (simp_all add: steer_step_def distinct_keys_update)
    from this [of "([], [])" nodes] show "alike (Inr (steer nm nodes), ev) (Inr (steer nm nodes), ev)"
      by (cases "steer nm nodes") (simp add: alike_def like_def steer_def)
  qed (simp_all add: alike_def like_def)
  have go: "nodes \<noteq> [] \<Longrightarrow> alike (allocate_nodes fe req nodes st mode) (allocate_nodes (reorder g fe) req nodes st mode)"
    by (rule allocate_like [OF assms])
  show ?thesis unfolding deviceFilter_def reorder_fields
    using refl go by (simp add: Let_def case_prod_beta split: option.split)
qed

lemma nodeFilter_names:
  "nodeFilter fe req nodes st = (passed, failed, st') \<Longrightarrow> subseq passed nodes \<and> distinct (keys failed)"
proof -
  let ?f = "\<lambda>(passed, failed, state) n.
       if n_Deleting n then (passed, AList.update (n_Name n) (Some (New_reason NodeDeleting)) failed, state)
       else if ar_AccessMode req = AccessModeLocal \<and> IsRemoteServerNode n
       then (passed, AList.update (n_Name n) (Some (New_reason NodeIsRemoteServer)) failed, state)
       else (case CheckNode fe n [\<lambda>n (devices, config, endpoint). GetMemoryPolicyFunc fe (ar_Pod req) config] of
               Some r \<Rightarrow> (passed, AList.update (n_Name n) (Some r) failed, state)
             | None \<Rightarrow> (passed @ [n], failed,
                        (case read_node fe n of Inl r \<Rightarrow> state | Inr pub \<Rightarrow> AList.update (n_Name n) pub state)))"
  have "foldl ?f ([], [], st) nodes = (p, f, s) \<Longrightarrow> subseq p nodes \<and> distinct (keys f)" for p f s
    by (induction nodes arbitrary: p f s rule: rev_induct)
      (auto simp: distinct_keys_update split: prod.splits if_splits option.splits intro: subseq_append' list_emb_append2)
  then show "nodeFilter fe req nodes st = (passed, failed, st') \<Longrightarrow> ?thesis" unfolding nodeFilter_def by blast
qed

lemma chain_like:
  assumes "fair fe" "fair (reorder g fe)" "distinct (map n_Name nodes)" "distinct (keys rs)"
  shows "alike (chain fe req nodes rs mode) (chain (reorder g fe) req nodes rs mode)"
proof -
  obtain passed failed st where n: "nodeFilter fe req nodes [] = (passed, failed, st)" by (cases "nodeFilter fe req nodes []")
  have k: "distinct (keys (copy_into rs failed))" by (rule distinct_copy_into [OF assms(4)])
  have "distinct (map n_Name passed)"
    using nodeFilter_names [OF n] assms(3) subseq_map [of passed nodes n_Name] by (metis subseq_conv_nths distinct_nthsI)
  from device_like [OF assms(1,2) this, of req st mode]
  show ?thesis using assms(4) k n
    by (cases "deviceFilter fe req passed st mode"; cases "deviceFilter (reorder g fe) req passed st mode")
      (auto simp: chain_def alike_def Let_def like_def split: sum.splits elim!: rel_sum.cases intro!: like_copy [unfolded like_def])
qed

section \<open>The answer under another order\<close>

definition same_answer :: "filter_result \<times> filter_effect list \<Rightarrow> filter_result \<times> filter_effect list \<Rightarrow> bool" where
  "same_answer x y \<longleftrightarrow> fx_Nodes (fst x) = fx_Nodes (fst y) \<and> fx_NodeNames (fst x) = fx_NodeNames (fst y) \<and>
     fx_Error (fst x) = fx_Error (fst y) \<and> map_of (fx_FailedNodes (fst x)) = map_of (fx_FailedNodes (fst y)) \<and>
     mset (snd x) = mset (snd y)"

lemma same_answer_refl [simp]: "same_answer x x"
  by (simp add: same_answer_def)

lemma same_answer_after: "same_answer x y \<Longrightarrow> same_answer (after ev x) (after ev y)"
  by (simp add: same_answer_def after_def)

lemma finish_like:
  assumes "like rs rs'"
  shows "same_answer (finish args mode k suf nodes rs) (finish args mode k suf nodes rs')"
proof -
  have m: "mset rs = mset rs'" by (rule like_mset [OF assms])
  have "mset (recordNodeRejects v rs) = mset (recordNodeRejects v rs')" for v
    unfolding recordNodeRejects_def vals_def List.map_filter_def comp_def mset_map mset_filter m by (rule refl)
  moreover have "map_of (reasonsToFailedNodesMap rs mode) = map_of (reasonsToFailedNodesMap rs' mode)"
    using assms by (simp add: reasonsToFailedNodesMap_def like_def map_of_map)
  moreover have "filterResultLabel (buildFilterResult args nodes rs mode) = filterResultLabel (buildFilterResult args nodes rs' mode)"
    by (simp add: filterResultLabel_def NodeNamesOfResult_def buildFilterResult_def Let_def)
  ultimately show ?thesis using FormatAggregate_order [OF m]
    by (simp add: same_answer_def finish_def Let_def) (simp add: buildFilterResult_def Let_def)
qed

lemma local_like:
  assumes "fair fe" "fair (reorder g fe)" "distinct (map n_Name nodes)" "distinct (keys rs)"
  shows "same_answer (filter_local fe args mode req nodes rs) (filter_local (reorder g fe) args mode req nodes rs)"
  using chain_like [OF assms, of req mode]
  by (cases "chain fe req nodes rs mode"; cases "chain (reorder g fe) req nodes rs mode")
    (auto simp: filter_local_def alike_def Let_def elim!: rel_sum.cases intro!: same_answer_after finish_like)

lemma remoteResult_like:
  assumes "like sr sr'"
  shows "remoteFilterResult consumers servers k sr rs = remoteFilterResult consumers servers k sr' rs"
  unfolding remoteFilterResult_def FormatAggregate_order [OF like_mset [OF assms]] by (rule refl)

text \<open>What the informer's cache guarantees: a node is found under its name, and a list names a node once.\<close>

definition sound_cache :: "filter_env \<Rightarrow> bool" where
  "sound_cache fe \<longleftrightarrow> (\<forall>x n. fe_getNode fe x = Inr n \<longrightarrow> n_Name n = x) \<and>
     (\<forall>sel ns. fe_listNodes fe sel = Inr ns \<longrightarrow> distinct (map n_Name ns))"

lemma servers_from:
  assumes "remoteServerNodes fe req nodes = Inr servers"
  shows "\<exists>sel cached. fe_listNodes fe sel = Inr cached \<and>
    servers = (let ok = (\<lambda>n. IsRemoteServerNode n \<and> serverInService fe (ar_Pod req) n);
                   fromCache = filter ok cached;
                   others = filter (\<lambda>n. n_Name n \<notin> n_Name ` set fromCache \<and> sel n \<and> ok n) nodes
               in go_sort (\<lambda>a b. str_less (n_Name a) (n_Name b)) (fromCache @ others))"
  using assms by (auto simp: remoteServerNodes_def Let_def split: sum.splits if_splits)

lemma servers_distinct:
  assumes "sound_cache fe" "distinct (map n_Name nodes)" "remoteServerNodes fe req nodes = Inr servers"
  shows "distinct (map n_Name servers)"
proof -
  obtain sel cached where c: "fe_listNodes fe sel = Inr cached"
    and s: "servers = (let ok = (\<lambda>n. IsRemoteServerNode n \<and> serverInService fe (ar_Pod req) n);
                   fromCache = filter ok cached;
                   others = filter (\<lambda>n. n_Name n \<notin> n_Name ` set fromCache \<and> sel n \<and> ok n) nodes
               in go_sort (\<lambda>a b. str_less (n_Name a) (n_Name b)) (fromCache @ others))"
    using servers_from [OF assms(3)] by blast
  have "distinct (map n_Name cached)" using assms(1) c by (simp add: sound_cache_def)
  moreover have "n_Name ` A \<inter> n_Name ` set (filter (\<lambda>n. n_Name n \<notin> n_Name ` A \<and> P n) nodes) = {}" for A P
    by (force simp: image_iff)
  ultimately show ?thesis using assms(2) unfolding s Let_def
    by (simp only: distinct_map_go_sort map_append distinct_append distinct_map_filter set_map) simp
qed

lemma remote_like:
  assumes "sound_cache fe" "fair fe" "fair (reorder g fe)" "distinct (map n_Name nodes)" "distinct (keys rs)"
  shows "same_answer (filter_remote fe args mode req nodes rs) (filter_remote (reorder g fe) args mode req nodes rs)"
proof (cases "remoteServerNodes fe (req\<lparr>ar_CrossPodTopology := False\<rparr>) nodes")
  case (Inr servers)
  let ?req = "req\<lparr>ar_CrossPodTopology := False\<rparr>"
  obtain cs rs' where c: "remoteConsumerNodes nodes rs = (cs, rs')" by (cases "remoteConsumerNodes nodes rs")
  have "distinct (map n_Name (if cs \<noteq> [] then servers else []))" using servers_distinct [OF assms(1,4) Inr] by simp
  from chain_like [OF assms(2,3) this, of "[]" ?req mode] Inr c
  show ?thesis
    by (cases "chain fe ?req (if cs \<noteq> [] then servers else []) [] mode";
        cases "chain (reorder g fe) ?req (if cs \<noteq> [] then servers else []) [] mode")
      (auto simp: filter_remote_def alike_def Let_def keys_def remoteResult_like elim!: rel_sum.cases)
qed (simp add: filter_remote_def Let_def case_prod_beta)

text \<open>The nodes a call asks about; names win over objects, as in \<^verbatim>\<open>preFilterRequestNodes\<close>.\<close>

definition candidates :: "extender_args \<Rightarrow> string list" where
  "candidates args =
     (case ea_NodeNames args of
        Some (x # xs) \<Rightarrow> x # xs
      | _ \<Rightarrow> (case ea_Nodes args of None \<Rightarrow> [] | Some ns \<Rightarrow> map n_Name ns))"

text \<open>A split of some names into the nodes that are kept and those that carry a reason.\<close>

definition accounts :: "string list \<Rightarrow> node list \<Rightarrow> reasons \<Rightarrow> bool" where
  "accounts names nodes failed \<longleftrightarrow> set (map n_Name nodes) \<union> set (keys failed) = set names \<and>
     set (map n_Name nodes) \<inter> set (keys failed) = {} \<and> distinct (map n_Name nodes) \<and> distinct (keys failed)"

lemma keys_upd: "set (keys (AList.update k v m)) = insert k (set (keys m))"
  by (auto simp: keys_update)

lemma accounts_keep:
  "accounts names nodes failed \<Longrightarrow> n_Name n \<notin> set names \<Longrightarrow> accounts (names @ [n_Name n]) (nodes @ [n]) failed"
  "accounts names nodes failed \<Longrightarrow> x \<notin> set names \<Longrightarrow> accounts (names @ [x]) nodes (AList.update x v failed)"
  by (auto simp: accounts_def keys_upd distinct_keys_update)

lemma cache_accounts:
  assumes "sound_cache fe" "distinct names"
  shows "accounts names (fst (getNodesOnCache fe names)) (snd (getNodesOnCache fe names))"
  using assms(2)
proof (induction names rule: rev_induct)
  case Nil
  then show ?case by (simp add: getNodesOnCache_def accounts_def keys_def)
next
  case (snoc x names)
  obtain ns f where g: "getNodesOnCache fe names = (ns, f)" by fastforce
  have IH: "accounts names ns f" "x \<notin> set names" using snoc g by auto
  show ?case
  proof (cases "fe_getNode fe x")
    case (Inl err)
    then show ?thesis using accounts_keep(2) [OF IH] g by (simp add: getNodesOnCache_def)
  next
    case (Inr n)
    then have "n_Name n = x" using assms(1) by (simp add: sound_cache_def)
    then show ?thesis using accounts_keep(1) [of names ns f n] IH g Inr by (simp add: getNodesOnCache_def)
  qed
qed

lemma candidates_accounts:
  assumes "sound_cache fe" "distinct (candidates args)" "preFilterRequestNodes fe args = Inr (req, nodes, rs)"
  shows "accounts (candidates args) nodes rs"
proof -
  consider names where "ea_NodeNames args = Some names" "names \<noteq> []" "getNodesOnCache fe names = (nodes, rs)"
    | "ea_NodeNames args = None \<or> ea_NodeNames args = Some []" "ea_Nodes args = Some nodes" "rs = []"
    using assms(3) by (auto simp: preFilterRequestNodes_def Let_def split: option.splits if_splits)
  then show ?thesis
  proof cases
    case 1
    then have "candidates args = names" by (auto simp: candidates_def neq_Nil_conv)
    then show ?thesis using cache_accounts [OF assms(1), of names] assms(2) 1(3) by simp
  next
    case 2
    then have "candidates args = map n_Name nodes" by (auto simp: candidates_def)
    then show ?thesis using 2(3) assms(2) by (simp add: accounts_def keys_def)
  qed
qed

text \<open>
  C6. The answer does not depend on which worker finishes first. The filter builds the candidate
  nodes in parallel batches and merges them in completion order. Whatever that order, with a
  consistent node cache and distinct candidates the answer is the same: the same kept nodes in
  the same order, the same reason for every other node, the same error and the same events,
  patches and counters.
\<close>

theorem Filter_worker_order:
  assumes "sound_cache fe" "fair fe" "fair (reorder g fe)" "distinct (candidates args)"
  shows "same_answer (filter_nodes fe args mode) (filter_nodes (reorder g fe) args mode)"
proof (cases "preFilterRequestNodes fe args")
  case (Inr x)
  obtain req nodes rs where x: "preFilterRequestNodes fe args = Inr (req, nodes, rs)" using Inr by (cases x) simp
  have a: "distinct (map n_Name nodes)" "distinct (keys rs)"
    using candidates_accounts [OF assms(1,4) x] by (simp_all add: accounts_def)
  show ?thesis using local_like [OF assms(2,3) a] remote_like [OF assms(1-3) a] by (simp add: filter_nodes_def x)
qed (simp add: filter_nodes_def)

section \<open>Every candidate is accounted for\<close>

lemma nodeFilter_accounts:
  assumes "distinct (map n_Name nodes)" "nodeFilter fe req nodes st = (passed, failed, st')"
  shows "accounts (map n_Name nodes) passed failed"
  using assms
proof (induction nodes arbitrary: passed failed st' rule: rev_induct)
  case Nil
  then show ?case by (simp add: nodeFilter_def accounts_def keys_def)
next
  case (snoc n nodes)
  obtain ps f s where f: "nodeFilter fe req nodes st = (ps, f, s)" by (cases "nodeFilter fe req nodes st")
  have IH: "accounts (map n_Name nodes) ps f" using snoc f by simp
  have new: "n_Name n \<notin> set (map n_Name nodes)" using snoc.prems(1) by auto
  have "(passed = ps @ [n] \<and> failed = f) \<or> (passed = ps \<and> (\<exists>v. failed = AList.update (n_Name n) v f))"
    using snoc.prems(2) f unfolding nodeFilter_def
    by (auto split: if_splits option.splits)
  then show ?case using accounts_keep(1) [OF IH new] accounts_keep(2) [OF IH new] by auto
qed

lemma scan_node_accounts:
  assumes "scan_node fe mode first r sc = (None, sc')"
  shows "(sc_nodes sc' = sc_nodes sc @ [node_of r] \<and> sc_failed sc' = sc_failed sc) \<or>
    (sc_nodes sc' = sc_nodes sc \<and> (\<exists>v. sc_failed sc' = AList.update (rn_name r) v (sc_failed sc)))"
proof (cases "isDryRun mode \<or> sc_nodes sc = []")
  case True
  obtain res s where a: "Allocate (fe_env fe) \<lparr>ao_recorder = first, ao_simulate = isDryRun mode\<rparr>
      \<lparr>as_nodeInfo = rn_info r, as_request = sc_request sc, as_trace = []\<rparr> = (res, s)" by fastforce
  show ?thesis using assms scan_node_alloc [OF True a refl]
    by (auto simp: commit_def rn_name_def split: outcome.splits if_splits option.splits prod.splits)
next
  case False
  then show ?thesis using assms by (auto simp: scan_node_def Let_def rn_name_def)
qed

lemma scan_accounts:
  assumes "scan_nodes fe mode first rs sc = (None, sc')" "accounts names (sc_nodes sc) (sc_failed sc)"
    "distinct (names @ map rn_name rs)"
  shows "accounts (names @ map rn_name rs) (sc_nodes sc') (sc_failed sc')"
  using assms
proof (induction rs arbitrary: sc names first)
  case (Cons r rs)
  obtain sc1 where one: "scan_node fe mode first r sc = (None, sc1)" "scan_nodes fe mode False rs sc1 = (None, sc')"
    using Cons.prems(1) by (auto split: prod.splits option.splits)
  have new: "rn_name r \<notin> set names" "n_Name (node_of r) \<notin> set names" using Cons.prems(3) by (auto simp: rn_name_def)
  have "accounts (names @ [rn_name r]) (sc_nodes sc1) (sc_failed sc1)"
    using scan_node_accounts [OF one(1)] accounts_keep(1) [OF Cons.prems(2) new(2)] accounts_keep(2) [OF Cons.prems(2) new(1)]
    by (auto simp: rn_name_def)
  then show ?case using Cons.IH [OF one(2), of "names @ [rn_name r]"] Cons.prems(3) by simp
qed simp

lemma built_split:
  assumes "\<And>n r. judge n = Keep r \<Longrightarrow> node_of r = n" "distinct (names_of ps)" "\<not> list_ex (\<lambda>p. judge (snd p) = Crash) ps"
  shows "rn_name ` set (bo_infos (built judge ps)) \<union> set (keys (bo_failed (built judge ps))) = set (names_of ps)"
    "rn_name ` set (bo_infos (built judge ps)) \<inter> set (keys (bo_failed (built judge ps))) = {}"
proof -
  have "rn_name ` set (bo_infos (built judge ps)) \<union> set (keys (bo_failed (built judge ps))) = set (names_of ps) \<and>
    rn_name ` set (bo_infos (built judge ps)) \<inter> set (keys (bo_failed (built judge ps))) = {}"
    using assms(2,3)
  proof (induction ps)
    case (Cons p ps)
    obtain i n where p: "p = (i, n)" by (cases p)
    show ?case using Cons assms(1)
      by (cases "judge n") (auto simp: p built_def map_filter_simps kept_def dropped_def rn_name_def keys_def)
  qed (simp add: built_def map_filter_simps keys_def)
  then show "rn_name ` set (bo_infos (built judge ps)) \<union> set (keys (bo_failed (built judge ps))) = set (names_of ps)"
    "rn_name ` set (bo_infos (built judge ps)) \<inter> set (keys (bo_failed (built judge ps))) = {}" by blast+
qed

lemma pre_accounts:
  assumes "fair fe" "distinct (map n_Name nodes)" "nodes \<noteq> []" "preFilterNodeInfos fe req nodes st = Inr (q, out)"
  shows "distinct (map rn_name (bo_infos out))" "distinct (keys (bo_failed out))"
    "rn_name ` set (bo_infos out) \<union> set (keys (bo_failed out)) = set (map n_Name nodes)"
    "rn_name ` set (bo_infos out) \<inter> set (keys (bo_failed out)) = {}"
proof -
  obtain pods where out: "build_nodes fe (judge_node fe req (NodeMapByIndexValue pods) st) nodes = Some out"
    using assms(4) by (auto simp: preFilterNodeInfos_def split: sum.splits option.splits if_splits)
  define judge where "judge = judge_node fe req (NodeMapByIndexValue pods) st"
  have judge: "\<And>n r. judge n = Keep r \<Longrightarrow> node_of r = n" unfolding judge_def by (rule judge_name)
  obtain ps where ps: "mset ps = mset (indexed nodes)" "out = built judge ps" "\<not> list_ex (\<lambda>n. judge n = Crash) nodes"
    using build_nodes_perm [OF assms(1-3), of judge] out unfolding judge_def [symmetric] by (auto split: if_splits)
  have "mset (map (\<lambda>p. n_Name (snd p)) ps) = mset (map (\<lambda>p. n_Name (snd p)) (indexed nodes))" unfolding mset_map ps(1) by (rule refl)
  then have names: "mset (names_of ps) = mset (map n_Name nodes)" unfolding names_indexed .
  then have d: "distinct (names_of ps)" using assms(2) mset_eq_imp_distinct_iff by blast
  have "mset (map snd ps) = mset (map snd (indexed nodes))" unfolding mset_map ps(1) by (rule refl)
  then have "set (map snd ps) = set nodes" unfolding names_indexed by (rule mset_eq_setD)
  then have "\<not> list_ex (\<lambda>p. judge (snd p) = Crash) ps" using ps(3) by (auto simp: list_ex_iff)
  from built_split [of judge ps, OF judge d this] mset_eq_setD [OF names]
  show "rn_name ` set (bo_infos out) \<union> set (keys (bo_failed out)) = set (map n_Name nodes)"
    "rn_name ` set (bo_infos out) \<inter> set (keys (bo_failed out)) = {}" unfolding ps(2) by simp_all
  show "distinct (map rn_name (bo_infos out))" "distinct (keys (bo_failed out))"
    unfolding ps(2) using built_like(2) [of ps ps judge, OF refl d judge] built_failed_distinct [OF d] by simp_all
qed

lemma mset_sortNodeInfos: "mset (fst (sortNodeInfos req infos pos mode)) = mset infos"
  by (simp add: sortNodeInfos_def Let_def sortPriority_def)

lemma allocate_accounts:
  assumes "fair fe" "distinct (map n_Name nodes)" "nodes \<noteq> []" "allocate_nodes fe req nodes st mode = (Inr (stay, failed), ev)"
  shows "accounts (map n_Name nodes) stay failed"
proof -
  obtain q out where pre: "preFilterNodeInfos fe req nodes st = Inr (q, out)"
    using assms(4) by (auto simp: allocate_nodes_def split: sum.splits)
  note out = pre_accounts [OF assms(1-3) pre]
  show ?thesis
  proof (cases "bo_infos out = []")
    case True
    then show ?thesis using assms(4) out by (simp add: allocate_nodes_def pre accounts_def)
  next
    case False
    obtain ranked events where r: "sortNodeInfos q (bo_infos out) (bo_position out) mode = (ranked, events)" by fastforce
    have m: "mset ranked = mset (bo_infos out)" using mset_sortNodeInfos [of q "bo_infos out" "bo_position out" mode] r by simp
    then have rk: "set ranked = set (bo_infos out)" "distinct (map rn_name ranked)"
      using out(1) mset_eq_imp_distinct_iff [of "map rn_name ranked" "map rn_name (bo_infos out)"] by (auto dest: mset_eq_setD)
    obtain sc where sc: "scan_nodes fe mode True ranked \<lparr>sc_nodes = [], sc_failed = bo_failed out, sc_request = q, sc_trace = events\<rparr> = (None, sc)"
        "stay = sc_nodes sc" "failed = sc_failed sc"
      using assms(4) False by (auto simp: allocate_nodes_def pre r split: prod.splits option.splits)
    have "accounts (keys (bo_failed out) @ map rn_name ranked) stay failed"
      unfolding sc(2,3) using out rk by (intro scan_accounts [OF sc(1)]) (auto simp: accounts_def)
    then show ?thesis using out(3) rk(1) by (auto simp: accounts_def)
  qed
qed

lemma steer_accounts:
  assumes "distinct (map n_Name nodes)"
  shows "accounts (map n_Name nodes) (fst (steer nm nodes)) (snd (steer nm nodes))"
  using assms
proof (induction nodes rule: rev_induct)
  case Nil
  then show ?case by (simp add: steer_def accounts_def keys_def)
next
  case (snoc n nodes)
  have IH: "accounts (map n_Name nodes) (fst (steer nm nodes)) (snd (steer nm nodes))" using snoc by simp
  have new: "n_Name n \<notin> set (map n_Name nodes)" using snoc.prems by auto
  have "steer nm (nodes @ [n]) = steer_step nm (steer nm nodes) n" by (simp add: steer_def)
  then show ?case using accounts_keep(1) [OF IH new] accounts_keep(2) [OF IH new] by (auto simp: steer_step_def)
qed

lemma device_accounts:
  assumes "fair fe" "distinct (map n_Name nodes)" "deviceFilter fe req nodes st mode = (Inr (stay, failed), ev)"
  shows "accounts (map n_Name nodes) stay failed"
proof (cases "nodes = []")
  case True
  then show ?thesis using assms(3) by (simp add: deviceFilter_def accounts_def keys_def)
next
  case False
  then consider "allocate_nodes fe req nodes st mode = (Inr (stay, failed), ev)" | nm where "steer nm nodes = (stay, failed)"
    using assms(3) by (auto simp: deviceFilter_def Let_def split: prod.splits option.splits if_splits)
  then show ?thesis
  proof cases
    case 1
    then show ?thesis by (rule allocate_accounts [OF assms(1,2) False])
  next
    case (2 nm)
    then show ?thesis using steer_accounts [OF assms(2), of nm] by simp
  qed
qed

lemma copy_accounts:
  assumes "accounts names stay failed" "set (keys rs) \<inter> set names = {}" "distinct (keys rs)"
  shows "accounts (keys rs @ names) stay (copy_into rs failed)"
  using assms distinct_copy_into [OF assms(3), of failed] by (auto simp: accounts_def keys_copy_into)

lemma chain_accounts:
  assumes "fair fe" "accounts names nodes rs" "chain fe req nodes rs mode = (Inr (stay, rs'), ev)"
  shows "accounts names stay rs'"
proof (cases "nodes = []")
  case True
  then show ?thesis using assms(2,3) by (simp add: chain_def)
next
  case False
  obtain passed failed st where n: "nodeFilter fe req nodes [] = (passed, failed, st)" by (cases "nodeFilter fe req nodes []")
  have d: "distinct (map n_Name nodes)" "distinct (keys rs)" "set (keys rs) \<inter> set (map n_Name nodes) = {}"
    "set (keys rs @ map n_Name nodes) = set names" using assms(2) by (auto simp: accounts_def)
  have one: "accounts (keys rs @ map n_Name nodes) passed (copy_into rs failed)"
    by (rule copy_accounts [OF nodeFilter_accounts [OF d(1) n] d(3,2)])
  have "accounts (keys rs @ map n_Name nodes) stay rs'"
  proof (cases "passed = []")
    case True
    then show ?thesis using one assms(3) False n by (simp add: chain_def Let_def)
  next
    case passed: False
    obtain f2 ev2 where two: "deviceFilter fe req passed st mode = (Inr (stay, f2), ev2)" "rs' = copy_into (copy_into rs failed) f2"
      using assms(3) passed False n by (auto simp: chain_def Let_def split: prod.splits sum.splits)
    have p: "distinct (map n_Name passed)" "distinct (keys (copy_into rs failed))"
      "set (keys (copy_into rs failed)) \<inter> set (map n_Name passed) = {}"
      "set (keys (copy_into rs failed) @ map n_Name passed) = set (keys rs @ map n_Name nodes)" using one by (auto simp: accounts_def)
    from copy_accounts [OF device_accounts [OF assms(1) p(1) two(1)] p(3,2)] two(2) p(4)
    show ?thesis by (simp add: accounts_def)
  qed
  then show ?thesis using d(4) by (simp add: accounts_def)
qed

lemma fold_update_keys:
  "set (keys (foldl (\<lambda>m n. AList.update (n_Name n) v m) rs ns)) = set (keys rs) \<union> set (map n_Name ns)"
  "distinct (keys rs) \<Longrightarrow> distinct (keys (foldl (\<lambda>m n. AList.update (n_Name n) v m) rs ns))"
  by (induction ns arbitrary: rs) (auto simp: keys_upd distinct_keys_update)

lemma remoteResult_accounts:
  assumes "accounts names consumers rs"
  shows "accounts names (fst (remoteFilterResult consumers servers k sr rs)) (snd (remoteFilterResult consumers servers k sr rs))"
  using assms by (auto simp: remoteFilterResult_def Let_def accounts_def fold_update_keys)

lemma consumers_accounts:
  assumes "accounts names nodes rs"
  shows "accounts names (fst (remoteConsumerNodes nodes rs)) (snd (remoteConsumerNodes nodes rs))"
proof -
  have "accounts (keys rs @ map n_Name nodes) (fst (remoteConsumerNodes nodes rs)) (snd (remoteConsumerNodes nodes rs))"
    if "distinct (keys rs @ map n_Name nodes)"
    using that
  proof (induction nodes rule: rev_induct)
    case Nil
    then show ?case by (simp add: remoteConsumerNodes_def accounts_def)
  next
    case (snoc n nodes)
    have IH: "accounts (keys rs @ map n_Name nodes) (fst (remoteConsumerNodes nodes rs)) (snd (remoteConsumerNodes nodes rs))"
      using snoc by simp
    have new: "n_Name n \<notin> set (keys rs @ map n_Name nodes)" using snoc.prems by auto
    have "remoteConsumerNodes (nodes @ [n]) rs = remote_consumer (remoteConsumerNodes nodes rs) n" by (simp add: remoteConsumerNodes_def)
    then show ?case using accounts_keep(1) [OF IH new] accounts_keep(2) [OF IH new] by (simp add: remote_consumer_def)
  qed
  moreover have "distinct (keys rs @ map n_Name nodes)" "set (keys rs @ map n_Name nodes) = set names"
    using assms by (auto simp: accounts_def)
  ultimately show ?thesis by (simp add: accounts_def)
qed

lemma finish_accounts:
  assumes "accounts names stay rs" "r = fst (after ev (finish args mode k suf stay rs))"
  shows "set (NodeNamesOfResult r) \<union> set (keys (fx_FailedNodes r)) = set names"
    "set (NodeNamesOfResult r) \<inter> set (keys (fx_FailedNodes r)) = {}" "distinct (NodeNamesOfResult r)"
proof -
  have "NodeNamesOfResult r = map n_Name stay" "keys (fx_FailedNodes r) = keys rs"
    using assms(2) by (simp_all add: after_def finish_def Let_def NodeNamesOfResult_def buildFilterResult_def reasonsToFailedNodesMap_def
        keys_def comp_def case_prod_beta)
  then show "set (NodeNamesOfResult r) \<union> set (keys (fx_FailedNodes r)) = set names"
    "set (NodeNamesOfResult r) \<inter> set (keys (fx_FailedNodes r)) = {}" "distinct (NodeNamesOfResult r)"
    using assms(1) by (simp_all add: accounts_def)
qed

lemma remote_accounts:
  assumes "accounts names nodes rs" "fx_Error (fst (filter_remote fe args mode req nodes rs)) = None"
  shows "\<exists>ev k suf stay rs'. accounts names stay rs' \<and>
    fst (filter_remote fe args mode req nodes rs) = fst (after ev (finish args mode k suf stay rs'))"
proof -
  let ?req = "req\<lparr>ar_CrossPodTopology := False\<rparr>"
  obtain servers where s: "remoteServerNodes fe ?req nodes = Inr servers"
    using assms(2) by (auto simp: filter_remote_def Let_def after_def fail_def split: prod.splits sum.splits)
  obtain cs rs1 where c: "remoteConsumerNodes nodes rs = (cs, rs1)" by fastforce
  then have cs: "accounts names cs rs1" using consumers_accounts [OF assms(1)] by simp
  obtain stay sr ev where ch: "chain fe ?req (if cs \<noteq> [] then servers else []) [] mode = (Inr (stay, sr), ev)"
    using assms(2) s c
    by (cases "chain fe ?req (if cs \<noteq> [] then servers else []) [] mode")
      (auto simp: filter_remote_def Let_def after_def fail_def split: sum.splits)
  obtain ks rs2 where r: "remoteFilterResult cs stay (int (length servers)) sr rs1 = (ks, rs2)" by fastforce
  then have "accounts names ks rs2" using remoteResult_accounts [OF cs, of stay "int (length servers)" sr] by simp
  moreover have "fst (filter_remote fe args mode req nodes rs) =
      fst (after [] (finish args mode (int (length nodes) + int (length rs)) (remote_detail rs2 cs) ks rs2))"
    using s c ch r by (simp add: filter_remote_def Let_def after_def)
  ultimately show ?thesis by blast
qed

text \<open>
  C5. Every candidate of a call is accounted for exactly once. For a pod that asks for vGPUs, when the
  filter (live or simulated, for a local or a remote pod) answers without an error, a candidate
  is either among the kept nodes or in the map of failed nodes with its reason, never both, and
  nothing else is in either; no node is kept twice.
\<close>

theorem Filter_accounts:
  assumes "sound_cache fe" "fair fe" "distinct (candidates args)" "ea_Pod args = Some p" "pod_needs p \<noteq> []"
    and "r = fst (filter_nodes fe args mode)" "fx_Error r = None"
  shows "set (NodeNamesOfResult r) \<union> set (keys (fx_FailedNodes r)) = set (candidates args) \<and>
    set (NodeNamesOfResult r) \<inter> set (keys (fx_FailedNodes r)) = {} \<and> distinct (NodeNamesOfResult r)"
proof -
  obtain req nodes rs where x: "preFilterRequestNodes fe args = Inr (req, nodes, rs)"
    using preFilter_cases [OF assms(4,5), of fe] assms(6,7) by (auto simp: filter_nodes_def)
  have a: "accounts (candidates args) nodes rs" by (rule candidates_accounts [OF assms(1,3) x])
  have "\<exists>ev k suf stay rs'. accounts (candidates args) stay rs' \<and> r = fst (after ev (finish args mode k suf stay rs'))"
  proof (cases "ar_AccessMode req = AccessModeRemote")
    case True
    then show ?thesis using remote_accounts [OF a, of fe args mode req] assms(6,7) by (simp add: filter_nodes_def x)
  next
    case False
    then obtain stay rs' ev where c: "chain fe req nodes rs mode = (Inr (stay, rs'), ev)"
      using assms(6,7) by (auto simp: filter_nodes_def x filter_local_def Let_def after_def fail_def split: prod.splits sum.splits)
    have "r = fst (after ev (finish args mode (int (length nodes) + int (length rs)) [] stay rs'))"
      using assms(6) False c by (simp add: filter_nodes_def x filter_local_def Let_def)
    then show ?thesis using chain_accounts [OF assms(2) a c] by blast
  qed
  then show ?thesis using finish_accounts by metis
qed

end
