(* ===== verification/Bind.thy ===== *)
theory Bind
  imports Patch Filter_Verb
begin

text \<open>
  The bind verb of the scheduler extender (\<^verbatim>\<open>pkg/scheduler/bind/bind_predicate.go\<close>): it checks that a
  pod is bound where its devices were reserved and that the reservation still counts, moves it
  to the allocating phase and binds it. The API server is the record \<^verbatim>\<open>bind_env\<close>; what the call
  does to the cluster, its events and metrics are a trace. The lock and the durations have no definition.
\<close>

section \<open>The verb\<close>

text \<open>A failed read may come with an object, which the deferred cache update still takes.\<close>

record bind_env =
  be_env :: env
  be_get :: "string \<Rightarrow> string \<Rightarrow> (pod option \<times> string) + pod"
  be_server :: kube_server
  be_bind :: "pod \<Rightarrow> string \<Rightarrow> string option"

record binding_args =
  ba_PodName :: string
  ba_PodNamespace :: string
  ba_PodUID :: string
  ba_Node :: string

datatype bind_error =
    EmptyNode
  | GetFailed string
  | DifferentUid string
  | NodeMismatch string string
  | PreAllocExpired string
  | BindPatchFailed patch_error
  | BindRejected string

datatype bind_effect =
    BindPatched pod
  | BoundTo pod string
  | BindEvent string
  | BindMutated pod
  | BindObserved string

text \<open>
  The failure patch after a refused binding. Its own error is only logged. The pod the caller
  holds afterwards, and the trace.
\<close>

definition fail_allocation :: "kube_server \<Rightarrow> pod \<Rightarrow> pod \<times> bind_effect list" where
  "fail_allocation server p =
     (case PatchPodAllocationFailed server p of
        (None, p') \<Rightarrow> (p', if IsVGPUResourcePod p \<or> stray_metadata p then [BindPatched p'] else [])
      | (Some err, p') \<Rightarrow> (p', []))"

text \<open>The check before a vGPU pod is bound.\<close>

definition check_binding :: "env \<Rightarrow> pod \<Rightarrow> string \<Rightarrow> (bind_error \<times> string) option" where
  "check_binding e p node =
     (let nodeName = anno_or_empty p PodPredicateNodeAnnotation in
      if \<not> IsVGPUResourcePod p then None
      else if nodeName = [] \<or> (fst (PodVGPUAccessMode p) = AccessModeLocal \<and> nodeName \<noteq> node)
      then Some (NodeMismatch nodeName node, ''node_mismatch'')
      else if \<not> ShouldCountPodDeviceAllocation e p then Some (PreAllocExpired nodeName, ''prealloc_expired'')
      else None)"

definition bind_pod :: "bind_env \<Rightarrow> string \<Rightarrow> pod \<Rightarrow> bind_error option \<times> pod \<times> bind_effect list \<times> string" where
  "bind_pod be node p =
     (case check_binding (be_env be) p node of
        Some (err, outcome) \<Rightarrow>
          (case fail_allocation (be_server be) p of (p', es) \<Rightarrow> (Some err, p', BindEvent ''BindingFailed'' # es, outcome))
      | None \<Rightarrow>
          (case PatchPodAllocationAllocating (be_env be) (be_server be) p of
             (Some err, p1) \<Rightarrow> (Some (BindPatchFailed err), p1, [], ''patch_failed'')
           | (None, p1) \<Rightarrow>
               let patched = (if IsVGPUResourcePod p \<or> stray_metadata p then [BindPatched p1] else []) in
               (case be_bind be p1 node of
                  Some err \<Rightarrow>
                    (case fail_allocation (be_server be) p1 of
                       (p2, es) \<Rightarrow> (Some (BindRejected err), p2, patched @ BindEvent ''BindingFailed'' # es, ''bind_failed''))
                | None \<Rightarrow> (None, p1, patched @ [BoundTo p1 node, BindEvent ''BindingSucceed''], ''success''))))"

definition Bind :: "bind_env \<Rightarrow> binding_args \<Rightarrow> bind_error option \<times> bind_effect list" where
  "Bind be args =
     (if ba_Node args = [] then (Some EmptyNode, [BindObserved ''no_node''])
      else case be_get be (ba_PodNamespace args) (ba_PodName args) of
        Inl (got, err) \<Rightarrow>
          (Some (GetFailed err), (case got of None \<Rightarrow> [] | Some p \<Rightarrow> [BindMutated p]) @ [BindObserved ''pod_not_found''])
      | Inr p \<Rightarrow>
          if p_UID p \<noteq> ba_PodUID args
          then (Some (DifferentUid (ba_PodUID args)), [BindMutated p, BindObserved ''uid_mismatch''])
          else (case bind_pod be (ba_Node args) p of
                  (err, p', es, outcome) \<Rightarrow> (err, es @ [BindMutated p', BindObserved outcome])))"

section \<open>What a binding guarantees\<close>

text \<open>The server applies a patch as it documents a merge patch, or refuses it.\<close>

definition merging :: "kube_server \<Rightarrow> bool" where
  "merging server \<longleftrightarrow> (\<forall>p pm p'. server p pm = Inr p' \<longrightarrow> p' = merge_patch p pm)"

lemma merging_patch: "merging server \<Longrightarrow> PatchPodMetadata server p pm = (None, p') \<Longrightarrow> p' = merge_patch p pm"
  by (auto simp: PatchPodMetadata_def merging_def split: sum.splits)

lemma bound_trace:
  assumes "bind_pod be node p = (err, p', es, outcome)" "BoundTo p1 node' \<in> set es"
  shows "node' = node \<and> err = None \<and> check_binding (be_env be) p node = None \<and>
    PatchPodAllocationAllocating (be_env be) (be_server be) p = (None, p1) \<and> p' = p1 \<and> be_bind be p1 node = None"
proof -
  have no: "BoundTo q m \<notin> set (snd (fail_allocation srv x))" for q m srv x
    by (auto simp: fail_allocation_def split: prod.splits option.splits)
  show ?thesis using assms no
    by (auto simp: bind_pod_def Let_def split: option.splits prod.splits if_splits) (metis snd_conv)+
qed

lemma allocating_keeps:
  assumes "p' = merge_patch p (allocating_patch e p)"
  shows "GetPodDeviceClaim p' = GetPodDeviceClaim p" "anno_or_empty p' PodPredicateNodeAnnotation = anno_or_empty p PodPredicateNodeAnnotation"
    "PodVGPUAccessMode p' = PodVGPUAccessMode p"
  by (simp_all add: assms GetPodDeviceClaim_def allocating_patch_def Let_def merge_patch_def merge_simps PodVGPUAccessMode_def)

lemma allocating_result:
  assumes "merging server" "PatchPodAllocationAllocating e server p = (None, p')"
  shows "p' = p \<or> p' = merge_patch p (allocating_patch e p)" "IsVGPUResourcePod p \<Longrightarrow> p' = merge_patch p (allocating_patch e p)"
    "IsVGPUResourcePod p' = IsVGPUResourcePod p" "p_UID p' = p_UID p"
  using assms by (auto simp: PatchPodAllocationAllocating_def dest: merging_patch split: if_splits)

lemma failed_released:
  assumes "merging server" "fail_allocation server p = (p', es)" "BindPatched q \<in> set es" "IsVGPUResourcePod p" "p_NodeName p = []"
  shows "q = p'" "\<not> ShouldCountPodDeviceAllocation e p'"
  using assms failed_not_counted [of p e]
  by (auto simp: fail_allocation_def PatchPodAllocationFailed_def dest: merging_patch split: prod.splits option.splits if_splits)

text \<open>
  C3. A vGPU pod is only ever bound to hardware that is reserved for it. When the verb binds a pod, it is
  the pod the caller named, its reservation was counted at that moment and its claims are the
  reserved ones; a local pod is bound to the very node that holds its devices, and a remote pod
  keeps the server that does. The verb reports success exactly when it bound the pod.
\<close>

theorem Bind_reserved:
  assumes "merging (be_server be)" "Bind be args = (err, es)"
  shows "(err = None \<longleftrightarrow> (\<exists>p node. BoundTo p node \<in> set es)) \<and>
    (\<forall>p node. BoundTo p node \<in> set es \<longrightarrow>
       node = ba_Node args \<and> node \<noteq> [] \<and> p_UID p = ba_PodUID args \<and>
       (IsVGPUResourcePod p \<longrightarrow>
          (\<exists>p0. be_get be (ba_PodNamespace args) (ba_PodName args) = Inr p0 \<and>
             ShouldCountPodDeviceAllocation (be_env be) p0 \<and> GetPodDeviceClaim p = GetPodDeviceClaim p0 \<and>
             anno_or_empty p PodPredicateNodeAnnotation \<noteq> [] \<and>
             (fst (PodVGPUAccessMode p) = AccessModeLocal \<longrightarrow> anno_or_empty p PodPredicateNodeAnnotation = node))))"
proof (cases "\<exists>p0. ba_Node args \<noteq> [] \<and> be_get be (ba_PodNamespace args) (ba_PodName args) = Inr p0 \<and> p_UID p0 = ba_PodUID args")
  case True
  then obtain p0 where p0: "ba_Node args \<noteq> []" "be_get be (ba_PodNamespace args) (ba_PodName args) = Inr p0" "p_UID p0 = ba_PodUID args" by blast
  obtain e1 p1 es1 out where b: "bind_pod be (ba_Node args) p0 = (e1, p1, es1, out)" by (cases "bind_pod be (ba_Node args) p0")
  have r: "err = e1" "es = es1 @ [BindMutated p1, BindObserved out]" using assms(2) p0 b by (simp_all add: Bind_def)
  have "\<exists>p node. BoundTo p node \<in> set es1" if "e1 = None"
    using b that by (auto simp: bind_pod_def Let_def split: option.splits prod.splits if_splits)
  moreover have "node = ba_Node args \<and> e1 = None \<and> p_UID p = ba_PodUID args \<and>
      (IsVGPUResourcePod p \<longrightarrow> ShouldCountPodDeviceAllocation (be_env be) p0 \<and> GetPodDeviceClaim p = GetPodDeviceClaim p0 \<and>
             anno_or_empty p PodPredicateNodeAnnotation \<noteq> [] \<and>
             (fst (PodVGPUAccessMode p) = AccessModeLocal \<longrightarrow> anno_or_empty p PodPredicateNodeAnnotation = node))"
    if m: "BoundTo p node \<in> set es1" for p node
  proof -
    note t = bound_trace [OF b m]
    note a = allocating_result [OF assms(1) conjunct1 [OF conjunct2 [OF conjunct2 [OF conjunct2 [OF t]]]]]
    show ?thesis using t a allocating_keeps [of p p0 "be_env be"] p0(3)
      by (auto simp: check_binding_def Let_def split: if_splits)
  qed
  ultimately show ?thesis using p0 unfolding r by auto
next
  case False
  then show ?thesis using assms(2) by (auto simp: Bind_def split: if_splits sum.splits option.splits)
qed

end
