(* ===== verification/Node_Ledger.thy ===== *)
theory Node_Ledger
  imports Pod_Placement
begin

text \<open>
  The ledger a node is built with. What \<^verbatim>\<open>NewNodeInfo\<close> charges to the cards of a node is exactly the
  sum of what the counted pods planned on it hold there, and a node built from a well-formed
  register is well-formed.
\<close>

section \<open>What a pod is charged\<close>

fun dev_used :: "dim \<Rightarrow> device \<Rightarrow> int" where
  "dev_used Number d = d_usedNumber d"
| "dev_used Cores d = d_usedCores d"
| "dev_used Memory d = d_usedMemory d"

definition fp_of :: "device_claim \<Rightarrow> pod_footprint" where
  "fp_of c = \<lparr>fp_Id = dc_Id c, fp_Uuid = dc_Uuid c, fp_Number = 1, fp_Cores = dc_Cores c, fp_Memory = dc_Memory c\<rparr>"

text \<open>The additions \<^verbatim>\<open>AddPodUsedResources\<close> makes for a pod, in order.\<close>

definition pod_charges :: "env \<Rightarrow> pod \<Rightarrow> pod_footprint list" where
  "pod_charges e p =
     (if \<not> ShouldCountPodDeviceAllocation e p then []
      else if podHasVGPUInitContainer p then vals (ReducePodFootprint p (GetPodDeviceClaim p))
      else map fp_of (concat (map cdc_DeviceClaims (GetPodDeviceClaim p))))"

definition charged_on :: "dim \<Rightarrow> string \<Rightarrow> pod_footprint list \<Rightarrow> int" where
  "charged_on q u fps = sum_list (map (fp_dim q) (filter (\<lambda>f. fp_Uuid f = u) fps))"

definition pod_load :: "env \<Rightarrow> dim \<Rightarrow> string \<Rightarrow> pod \<Rightarrow> int" where
  "pod_load e q u p = charged_on q u (pod_charges e p)"

abbreviation add_fp :: "node_info \<Rightarrow> pod_footprint \<Rightarrow> node_info" where
  "add_fp n fp \<equiv> or_keep n (addFootprintResources n fp)"

lemma AddUsed_as_fp: "AddUsedResources n c = addFootprintResources n (fp_of c)"
proof -
  have "addUsedResources (dc_Cores c) (dc_Memory c) = addUsedResourcesN 1 (dc_Cores c) (dc_Memory c)"
    by (simp add: fun_eq_iff addUsedResources_def)
  then show ?thesis by (simp add: AddUsedResources_def addFootprintResources_def fp_of_def Let_def split: option.split)
qed

lemma AddPod_charges: "AddPodUsedResources e n p = foldl add_fp n (pod_charges e p)"
proof -
  have "foldl (\<lambda>n cc. foldl (\<lambda>n c. or_keep n (AddUsedResources n c)) n (cdc_DeviceClaims cc)) n pdc =
      foldl add_fp n (map fp_of (concat (map cdc_DeviceClaims pdc)))" for n and pdc :: pod_claim
    by (induction pdc arbitrary: n) (simp_all add: AddUsed_as_fp foldl_map)
  moreover have "ReducePodFootprint p [] = []" by (simp add: ReducePodFootprint_def Let_def)
  ultimately show ?thesis by (simp add: AddPodUsedResources_def pod_charges_def Let_def vals_def)
qed

lemma charged_on_append [simp]: "charged_on q u (xs @ ys) = charged_on q u xs + charged_on q u ys"
  by (simp add: charged_on_def)

lemma charged_on_Cons [simp]: "charged_on q u (f # fs) = (if fp_Uuid f = u then fp_dim q f else 0) + charged_on q u fs"
  by (simp add: charged_on_def)

lemma charged_on_Nil [simp]: "charged_on q u [] = 0"
  by (simp add: charged_on_def)

lemma charged_on_concat: "charged_on q u (concat xss) = sum_list (map (charged_on q u) xss)"
  by (induction xss) simp_all

lemma charged_on_nonneg: "\<forall>f \<in> set fs. \<forall>q. 0 \<le> fp_dim q f \<Longrightarrow> 0 \<le> charged_on q u fs"
  by (induction fs) auto

section \<open>The cards of a node under charges\<close>

definition shape :: "node_info \<Rightarrow> bool" where
  "shape n \<longleftrightarrow> distinct (keys (ni_deviceMap n)) \<and>
     (\<forall>(k, d) \<in> set (ni_deviceMap n). d_id d = k \<and> map_of (ni_deviceIndexMap n) (d_uuid d) = Some k) \<and>
     (\<forall>u k. map_of (ni_deviceIndexMap n) u = Some k \<longrightarrow> (\<exists>d. map_of (ni_deviceMap n) k = Some d \<and> d_uuid d = u))"

definition raise_fp :: "device \<Rightarrow> pod_footprint \<Rightarrow> device" where
  "raise_fp d fp = (if d_uuid d = fp_Uuid fp then addUsedResourcesN (fp_Number fp) (fp_Cores fp) (fp_Memory fp) d else d)"

lemma raise_static [simp]: "d_uuid (raise_fp d fp) = d_uuid d" "d_id (raise_fp d fp) = d_id d"
  by (simp_all add: raise_fp_def)

lemma map_entry_if: "AList.map_entry k f m = map (\<lambda>(k', d). (k', if k' = k then f d else d)) m" if "distinct (keys m)"
  using that
proof (induction m)
  case (Cons x m)
  have same: "map (\<lambda>(k', d). (k', if k' = k then f d else d)) m = m" if "k \<notin> set (keys m)"
    using that by (induction m) (auto simp: keys_def)
  show ?case using Cons same by (cases x) (auto simp: keys_def)
qed simp

lemma add_fp_cards:
  assumes "shape n"
  shows "ni_deviceMap (add_fp n fp) = map (\<lambda>(k, d). (k, raise_fp d fp)) (ni_deviceMap n)"
    "ni_deviceIndexMap (add_fp n fp) = ni_deviceIndexMap n" "ni_node (add_fp n fp) = ni_node n"
proof -
  let ?f = "addUsedResourcesN (fp_Number fp) (fp_Cores fp) (fp_Memory fp)"
  have s: "distinct (keys (ni_deviceMap n))" "\<And>k d. (k, d) \<in> set (ni_deviceMap n) \<Longrightarrow> map_of (ni_deviceIndexMap n) (d_uuid d) = Some k"
    "\<And>u k. map_of (ni_deviceIndexMap n) u = Some k \<Longrightarrow> \<exists>d. map_of (ni_deviceMap n) k = Some d \<and> d_uuid d = u"
    using assms by (auto simp: shape_def)
  show "ni_deviceMap (add_fp n fp) = map (\<lambda>(k, d). (k, raise_fp d fp)) (ni_deviceMap n)"
  proof (cases "map_of (ni_deviceIndexMap n) (fp_Uuid fp)")
    case None
    then have "raise_fp d fp = d" if "(k, d) \<in> set (ni_deviceMap n)" for k d using s(2) [OF that] by (auto simp: raise_fp_def)
    then have "map (\<lambda>(k, d). (k, raise_fp d fp)) (ni_deviceMap n) = ni_deviceMap n" by (auto intro: map_idI)
    then show ?thesis using None by (simp add: addFootprintResources_def or_keep_def)
  next
    case (Some k)
    then obtain d where d: "map_of (ni_deviceMap n) k = Some d" "d_uuid d = fp_Uuid fp" using s(3) by blast
    have "(k', if k' = k then ?f d' else d') = (k', raise_fp d' fp)" if "(k', d') \<in> set (ni_deviceMap n)" for k' d'
    proof -
      have "k' = k \<longleftrightarrow> d_uuid d' = fp_Uuid fp"
      proof
        assume "k' = k"
        then have "map_of (ni_deviceMap n) k = Some d'" using s(1) that by (simp add: keys_def)
        then show "d_uuid d' = fp_Uuid fp" using d by simp
      qed (use s(2) [OF that] Some in simp)
      then show ?thesis by (simp add: raise_fp_def)
    qed
    then have "AList.map_entry k ?f (ni_deviceMap n) = map (\<lambda>(k, d). (k, raise_fp d fp)) (ni_deviceMap n)"
      unfolding map_entry_if [OF s(1)] by (intro map_cong) auto
    then show ?thesis using Some d by (simp add: addFootprintResources_def or_keep_def Let_def add_node_usage_def)
  qed
qed (auto simp: addFootprintResources_def or_keep_def Let_def add_node_usage_def split: option.split)

lemma shape_raise:
  assumes "shape n" "ni_deviceMap n' = map (\<lambda>(k, d). (k, g d)) (ni_deviceMap n)" "ni_deviceIndexMap n' = ni_deviceIndexMap n"
    "\<And>d. d_uuid (g d) = d_uuid d" "\<And>d. d_id (g d) = d_id d"
  shows "shape n'"
proof -
  have "map_of (ni_deviceMap n') = map_option g \<circ> map_of (ni_deviceMap n)" unfolding assms(2) by (rule map_of_map)
  moreover have "keys (ni_deviceMap n') = keys (ni_deviceMap n)" unfolding assms(2) by (simp add: keys_def comp_def case_prod_beta)
  ultimately show ?thesis using assms(1) unfolding shape_def assms(2,3)
    by (fastforce simp: assms(4,5))
qed

lemma add_fps_cards:
  assumes "shape n"
  shows "ni_deviceMap (foldl add_fp n fps) = map (\<lambda>(k, d). (k, foldl raise_fp d fps)) (ni_deviceMap n)"
    "ni_deviceIndexMap (foldl add_fp n fps) = ni_deviceIndexMap n" "shape (foldl add_fp n fps)"
proof -
  have "shape n \<Longrightarrow> ni_deviceMap (foldl add_fp n fps) = map (\<lambda>(k, d). (k, foldl raise_fp d fps)) (ni_deviceMap n) \<and>
    ni_deviceIndexMap (foldl add_fp n fps) = ni_deviceIndexMap n \<and> shape (foldl add_fp n fps)" for n
  proof (induction fps arbitrary: n)
    case (Cons fp fps)
    note c = add_fp_cards [OF Cons.prems, of fp]
    have "shape (add_fp n fp)" by (rule shape_raise [OF Cons.prems c(1,2)]) simp_all
    from Cons.IH [OF this] c show ?case by (simp add: comp_def case_prod_beta)
  qed (simp add: case_prod_beta)
  then show "ni_deviceMap (foldl add_fp n fps) = map (\<lambda>(k, d). (k, foldl raise_fp d fps)) (ni_deviceMap n)"
    "ni_deviceIndexMap (foldl add_fp n fps) = ni_deviceIndexMap n" "shape (foldl add_fp n fps)" using assms by blast+
qed

text \<open>Charges that do not overflow add up.\<close>

lemma raise_used:
  assumes "\<forall>f \<in> set fps. \<forall>q. 0 \<le> fp_dim q f" "\<forall>q. 0 \<le> dev_used q d \<and> dev_used q d + charged_on q (d_uuid d) fps \<le> max_int"
  shows "dev_used q (foldl raise_fp d fps) = dev_used q d + charged_on q (d_uuid d) fps"
  using assms
proof (induction fps arbitrary: d)
  case (Cons fp fps)
  have nn: "0 \<le> charged_on q (d_uuid d) fps" "0 \<le> fp_dim q fp" for q using Cons.prems(1) by (auto intro: charged_on_nonneg)
  have u: "dev_used q (raise_fp d fp) = dev_used q d + (if fp_Uuid fp = d_uuid d then fp_dim q fp else 0)" for q
  proof (cases "fp_Uuid fp = d_uuid d")
    case True
    have "0 \<le> dev_used q d" "dev_used q d + (fp_dim q fp + charged_on q (d_uuid d) fps) \<le> max_int"
      using Cons.prems(2) True by simp_all
    then have "i64 (dev_used q d + fp_dim q fp) = dev_used q d + fp_dim q fp" using nn [of q] by (intro i64_between) auto
    then show ?thesis using True by (cases q) (simp_all add: raise_fp_def addUsedResourcesN_def)
  qed (simp add: raise_fp_def)
  have "dev_used q (foldl raise_fp (raise_fp d fp) fps) = dev_used q (raise_fp d fp) + charged_on q (d_uuid (raise_fp d fp)) fps"
    using Cons.prems nn by (intro Cons.IH) (auto simp: u add.assoc)
  then show ?case by (simp add: u)
qed simp

section \<open>The register of a node\<close>

text \<open>
  A register a node may publish: every card once, with a dense index and a unique uuid, sizes in
  range and totals that do not wrap.
\<close>

definition register_ok :: "device_info list \<Rightarrow> bool" where
  "register_ok ds \<longleftrightarrow> distinct (map di_Uuid ds) \<and> distinct (map di_Id ds) \<and>
     (\<forall>d \<in> set ds. 0 \<le> di_Id d \<and> di_Id d < int (length ds) \<and> dev_ok (NewDevice d)) \<and>
     (\<forall>q. sum_list (map (dev_total q) (filter schedulable (map NewDevice ds))) \<le> max_int)"

text \<open>The register \<^verbatim>\<open>NewNodeInfo\<close> works from.\<close>

definition register_of :: "env \<Rightarrow> node \<Rightarrow> node_info_option \<Rightarrow> device_info list" where
  "register_of e node opt =
     (case no_nodeDevice opt of
        Some ds \<Rightarrow> ds
      | None \<Rightarrow> (case node_anno node NodeDeviceRegisterAnnotation of
                  None \<Rightarrow> [] | Some v \<Rightarrow> (case ParseNodeDeviceInfo e v of None \<Rightarrow> [] | Some ds \<Rightarrow> ds)))"

lemma update_fresh: "k \<notin> set (keys m) \<Longrightarrow> AList.update k v m = m @ [(k, v)]"
  by (induction m) auto

lemma register_devices_maps:
  assumes "register_devices g ds = Some g'" "distinct (keys (gi_DeviceMap g) @ map di_Id ds)" "distinct (keys (gi_DeviceIndexMap g) @ map di_Uuid ds)"
  shows "gi_DeviceMap g' = gi_DeviceMap g @ map (\<lambda>d. (di_Id d, NewDevice d)) ds"
    "gi_DeviceIndexMap g' = gi_DeviceIndexMap g @ map (\<lambda>d. (di_Uuid d, di_Id d)) ds" "length (gi_DeviceList g') = length (gi_DeviceList g)"
proof -
  have "register_devices g ds = Some g' \<Longrightarrow> distinct (keys (gi_DeviceMap g) @ map di_Id ds) \<Longrightarrow> distinct (keys (gi_DeviceIndexMap g) @ map di_Uuid ds) \<Longrightarrow>
    gi_DeviceMap g' = gi_DeviceMap g @ map (\<lambda>d. (di_Id d, NewDevice d)) ds \<and>
    gi_DeviceIndexMap g' = gi_DeviceIndexMap g @ map (\<lambda>d. (di_Uuid d, di_Id d)) ds \<and> length (gi_DeviceList g') = length (gi_DeviceList g)" for g
  proof (induction ds arbitrary: g)
    case (Cons d ds)
    obtain g1 where g1: "register_device g d = Some g1" "register_devices g1 ds = Some g'" using Cons.prems(1) by (auto split: option.splits)
    have m: "gi_DeviceMap g1 = gi_DeviceMap g @ [(di_Id d, NewDevice d)]" "gi_DeviceIndexMap g1 = gi_DeviceIndexMap g @ [(di_Uuid d, di_Id d)]"
      "length (gi_DeviceList g1) = length (gi_DeviceList g)"
      using g1(1) Cons.prems(2,3) by (auto simp: register_device_def update_fresh split: if_splits)
    have "distinct (keys (gi_DeviceMap g1) @ map di_Id ds)" "distinct (keys (gi_DeviceIndexMap g1) @ map di_Uuid ds)"
      using Cons.prems(2,3) by (auto simp: m keys_def)
    from Cons.IH [OF g1(2) this] show ?case by (simp add: m)
  qed simp
  then show "gi_DeviceMap g' = gi_DeviceMap g @ map (\<lambda>d. (di_Id d, NewDevice d)) ds"
    "gi_DeviceIndexMap g' = gi_DeviceIndexMap g @ map (\<lambda>d. (di_Uuid d, di_Id d)) ds" "length (gi_DeviceList g') = length (gi_DeviceList g)"
    using assms by blast+
qed

definition list_uuids :: "device_list \<Rightarrow> string set" where
  "list_uuids ds = {ld_UUID l | l. Some l \<in> set ds}"

lemma link_by_uuid_found: "u \<in> list_uuids ds \<Longrightarrow> map_of (link_by_uuid ds) u \<noteq> None"
proof -
  have "map_of (foldl (\<lambda>m d. case d of None \<Rightarrow> m | Some l \<Rightarrow> AList.update (ld_UUID l) l m) m ds) u \<noteq> None"
    if "u \<in> list_uuids ds \<or> map_of m u \<noteq> None" for m ds
    using that by (induction ds arbitrary: m) (auto simp: list_uuids_def map_of_update split: option.splits)
  then show "u \<in> list_uuids ds \<Longrightarrow> ?thesis" unfolding link_by_uuid_def by blast
qed

lemma AddLink_uuids: "DeviceList_AddLink a b t ds = Some ds' \<Longrightarrow> list_uuids ds \<subseteq> list_uuids ds'"
proof -
  assume "DeviceList_AddLink a b t ds = Some ds'"
  then obtain x y where x: "at_index ds a = Some x" "ds' = ds[nat a := Some (Device_AddLink x y t)]"
    by (auto simp: DeviceList_AddLink_def split: option.splits)
  then have i: "nat a < length ds" "ds ! nat a = Some x" by (auto simp: at_index_def split: if_splits)
  have u: "ld_UUID (Device_AddLink x y t) = ld_UUID x" by (simp add: Device_AddLink_def Let_def)
  show ?thesis
  proof
    fix v assume "v \<in> list_uuids ds"
    then obtain j l where "j < length ds" "ds ! j = Some l" "v = ld_UUID l" by (auto simp: list_uuids_def in_set_conv_nth)
    then have "j < length ds'" "\<exists>l'. ds' ! j = Some l' \<and> ld_UUID l' = v" using i x(2) u by (auto simp: nth_list_update)
    then show "v \<in> list_uuids ds'" unfolding list_uuids_def by (metis (mono_tags, lifting) mem_Collect_eq nth_mem)
  qed
qed

lemma add_links_uuids:
  "add_links g ls = Some g' \<Longrightarrow> list_uuids (gi_DeviceList g) \<subseteq> list_uuids (gi_DeviceList g') \<and>
     gi_DeviceMap g' = gi_DeviceMap g \<and> gi_DeviceIndexMap g' = gi_DeviceIndexMap g"
proof (induction g ls rule: add_links.induct)
  case (2 g a b t ls)
  then obtain dl where dl: "DeviceList_AddLink a b t (gi_DeviceList g) = Some dl" by (auto split: option.splits)
  show ?case using 2 dl AddLink_uuids [OF dl] by auto
qed simp

lemma register_uuids:
  assumes "register_devices g ds = Some g'" "distinct (map di_Id ds)"
  shows "di_Uuid ` set ds \<subseteq> list_uuids (gi_DeviceList g')"
proof -
  have keep: "register_devices g ds = Some g' \<Longrightarrow> i \<notin> di_Id ` set ds \<Longrightarrow> 0 \<le> i \<Longrightarrow> gi_DeviceList g' ! nat i = gi_DeviceList g ! nat i" for g ds i
    by (induction g ds rule: register_devices.induct) (auto simp: register_device_def split: option.splits if_splits)
  have len: "register_devices g ds = Some g' \<Longrightarrow> length (gi_DeviceList g') = length (gi_DeviceList g)" for g ds
    by (induction g ds rule: register_devices.induct) (auto simp: register_device_def split: option.splits if_splits)
  show ?thesis using assms(1,2)
  proof (induction ds arbitrary: g)
    case (Cons d ds)
    obtain g1 where g1: "register_device g d = Some g1" "register_devices g1 ds = Some g'" using Cons.prems(1) by (auto split: option.splits)
    have i: "0 \<le> di_Id d" "nat (di_Id d) < length (gi_DeviceList g1)"
      "gi_DeviceList g1 ! nat (di_Id d) = Some (NewLinkDevice (di_Id d) (di_Uuid d) (di_BusId d))"
      using g1(1) by (auto simp: register_device_def split: if_splits)
    have "gi_DeviceList g' ! nat (di_Id d) = Some (NewLinkDevice (di_Id d) (di_Uuid d) (di_BusId d))"
      using keep [OF g1(2), of "di_Id d"] i Cons.prems(2) by simp
    then have "Some (NewLinkDevice (di_Id d) (di_Uuid d) (di_BusId d)) \<in> set (gi_DeviceList g')"
      using len [OF g1(2)] i(2) by (metis nth_mem)
    then have "di_Uuid d \<in> list_uuids (gi_DeviceList g')" by (force simp: list_uuids_def NewLinkDevice_def)
    then show ?case using Cons.IH [OF g1(2)] Cons.prems(2) by simp
  qed simp
qed

lemma gather_register:
  assumes "NewNodeDeviceGatherInfo e node opt = Inr g" "register_ok (register_of e node opt)"
  shows "gi_DeviceMap g = map (\<lambda>d. (di_Id d, NewDevice d)) (register_of e node opt)"
    "gi_DeviceIndexMap g = map (\<lambda>d. (di_Uuid d, di_Id d)) (register_of e node opt)"
    "di_Uuid ` set (register_of e node opt) \<subseteq> list_uuids (gi_DeviceList g)"
proof -
  let ?ds = "register_of e node opt"
  let ?g0 = "\<lambda>cfg. \<lparr>gi_DeviceMap = [], gi_DeviceList = replicate (length ?ds) None, gi_DeviceIndexMap = [],
                gi_EnabledGPUTopology = False, gi_EnabledNumaAffinity = False, gi_GPURail = [], gi_config = cfg\<rparr>"
  obtain cfg g1 where g1: "register_devices (?g0 cfg) ?ds = Some g1"
    and rest: "(if \<not> no_gpuTopologyEnabled opt then Inr g1
             else (case node_anno node NodeDeviceTopologyAnnotation of
                     None \<Rightarrow> Inr g1
                   | Some topoValue \<Rightarrow>
                       let topo = (case ParseNodeTopology e topoValue of None \<Rightarrow> [] | Some t \<Rightarrow> t) in
                       (case add_links g1 (topology_links topo) of
                          None \<Rightarrow> Inl IndexPanic
                        | Some g2 \<Rightarrow>
                            (case node_anno node NodeGPUDomainAnnotation of
                               None \<Rightarrow> Inr g2
                             | Some railValue \<Rightarrow>
                                 (case e_decodeRail e railValue of
                                    None \<Rightarrow> Inr g2
                                  | Some rail \<Rightarrow> Inr (g2\<lparr>gi_GPURail := rail\<rparr>)))))) = Inr g"
    using assms(1) by (auto simp: NewNodeDeviceGatherInfo_def register_of_def Let_def split: option.split_asm sum.split_asm)
  have g: "g = g1 \<or> (\<exists>ls g2. add_links g1 ls = Some g2 \<and> (g = g2 \<or> (\<exists>rail. g = g2\<lparr>gi_GPURail := rail\<rparr>)))"
  proof (cases "no_gpuTopologyEnabled opt \<and> node_anno node NodeDeviceTopologyAnnotation \<noteq> None")
    case True
    then obtain v where v: "node_anno node NodeDeviceTopologyAnnotation = Some v" by blast
    obtain g2 where g2: "add_links g1 (topology_links (case ParseNodeTopology e v of None \<Rightarrow> [] | Some t \<Rightarrow> t)) = Some g2"
      using rest True v by (cases "add_links g1 (topology_links (case ParseNodeTopology e v of None \<Rightarrow> [] | Some t \<Rightarrow> t))") (simp_all add: Let_def)
    have "g = g2 \<or> (\<exists>rail. g = g2\<lparr>gi_GPURail := rail\<rparr>)"
      using rest True v g2 by (auto simp: Let_def split: option.split_asm)
    then show ?thesis using g2 by blast
  next
    case False
    then show ?thesis using rest by (auto split: option.split_asm)
  qed
  have d: "distinct (map di_Id ?ds)" "distinct (map di_Uuid ?ds)" using assms(2) by (simp_all add: register_ok_def)
  have m: "gi_DeviceMap g1 = map (\<lambda>d. (di_Id d, NewDevice d)) ?ds" "gi_DeviceIndexMap g1 = map (\<lambda>d. (di_Uuid d, di_Id d)) ?ds"
    using register_devices_maps [OF g1] d by (simp_all add: keys_def)
  have "gi_DeviceMap g = gi_DeviceMap g1" "gi_DeviceIndexMap g = gi_DeviceIndexMap g1"
    "list_uuids (gi_DeviceList g1) \<subseteq> list_uuids (gi_DeviceList g)" using g by (auto dest!: add_links_uuids)
  then show "gi_DeviceMap g = map (\<lambda>d. (di_Id d, NewDevice d)) ?ds" "gi_DeviceIndexMap g = map (\<lambda>d. (di_Uuid d, di_Id d)) ?ds"
    "di_Uuid ` set ?ds \<subseteq> list_uuids (gi_DeviceList g)" using m register_uuids [OF g1 d(1)] by auto
qed

lemma register_shape:
  assumes "register_ok ds" "ni_deviceMap n = map (\<lambda>d. (di_Id d, NewDevice d)) ds" "ni_deviceIndexMap n = map (\<lambda>d. (di_Uuid d, di_Id d)) ds"
  shows "shape n"
proof -
  have d: "distinct (map di_Id ds)" "distinct (map di_Uuid ds)" using assms(1) by (simp_all add: register_ok_def)
  have i: "map_of (map (\<lambda>d. (di_Uuid d, di_Id d)) ds) u = Some k \<longleftrightarrow> (\<exists>d \<in> set ds. di_Uuid d = u \<and> di_Id d = k)" for u k
    using d(2) by (subst map_of_eq_Some_iff) (auto simp: comp_def)
  have c: "map_of (map (\<lambda>d. (di_Id d, NewDevice d)) ds) k = Some c \<longleftrightarrow> (\<exists>d \<in> set ds. di_Id d = k \<and> NewDevice d = c)" for k c
    using d(1) by (subst map_of_eq_Some_iff) (auto simp: comp_def)
  show ?thesis unfolding shape_def assms(2,3) i c using d(1) by (auto simp: keys_def comp_def NewDevice_def)
qed

section \<open>The charges of a node\<close>

definition node_charges :: "env \<Rightarrow> pod list \<Rightarrow> string set \<Rightarrow> string \<Rightarrow> pod_footprint list" where
  "node_charges e pods excluded node =
     concat (map (pod_charges e) (filter (\<lambda>p. p_UID p \<notin> excluded) (PodsOnNodeCallback pods node)))"

lemma AddPods_cards:
  fixes e :: env and pods :: "pod list"
  assumes "shape n" "\<not> no_resetUsed opt"
  defines "n' \<equiv> AddPodsUsedResources e n pods opt" and "fps \<equiv> node_charges e pods (no_excludedUids opt) (n_Name (ni_node n))"
  shows "ni_deviceMap n' = map (\<lambda>(k, d). (k, foldl raise_fp d fps)) (ni_deviceMap n)" "ni_deviceIndexMap n' = ni_deviceIndexMap n"
    "ni_deviceList n' = ni_deviceList n" "ni_gpuTopology n' = ni_gpuTopology n" "ni_node n' = ni_node n" "ni_config n' = ni_config n"
proof -
  let ?step = "\<lambda>n p. if p_UID p \<in> no_excludedUids opt then n else AddPodUsedResources e (n\<lparr>ni_nodePods := ni_nodePods n @ [p]\<rparr>) p"
  have same: "ni_deviceList (foldl add_fp m fps) = ni_deviceList m \<and> ni_gpuTopology (foldl add_fp m fps) = ni_gpuTopology m \<and>
      ni_node (foldl add_fp m fps) = ni_node m \<and> ni_config (foldl add_fp m fps) = ni_config m" for m fps
    by (induction fps arbitrary: m) (auto simp: addFootprintResources_def or_keep_def Let_def add_node_usage_def split: option.split)
  have go: "shape m \<Longrightarrow> ni_deviceMap (foldl ?step m qs) =
        map (\<lambda>(k, d). (k, foldl raise_fp d (concat (map (pod_charges e) (filter (\<lambda>p. p_UID p \<notin> no_excludedUids opt) qs))))) (ni_deviceMap m) \<and>
      ni_deviceIndexMap (foldl ?step m qs) = ni_deviceIndexMap m \<and> ni_deviceList (foldl ?step m qs) = ni_deviceList m \<and>
      ni_gpuTopology (foldl ?step m qs) = ni_gpuTopology m \<and> ni_node (foldl ?step m qs) = ni_node m \<and>
      ni_config (foldl ?step m qs) = ni_config m" for m qs
  proof (induction qs arbitrary: m)
    case (Cons p qs)
    have s: "shape (m\<lparr>ni_nodePods := ni_nodePods m @ [p]\<rparr>)" using Cons.prems by (simp add: shape_def)
    note c = add_fps_cards [OF s, of "pod_charges e p"]
    show ?case
    proof (cases "p_UID p \<in> no_excludedUids opt")
      case True
      then show ?thesis using Cons by simp
    next
      case False
      have "shape (foldl add_fp (m\<lparr>ni_nodePods := ni_nodePods m @ [p]\<rparr>) (pod_charges e p))" by (rule c(3))
      from Cons.IH [OF this] False c(1,2) same show ?thesis by (simp add: AddPod_charges comp_def case_prod_beta)
    qed
  qed (simp add: case_prod_beta)
  define m where "m = (if no_resetPods opt then n\<lparr>ni_nodePods := []\<rparr> else n)"
  have m: "shape m" "ni_deviceMap m = ni_deviceMap n" "ni_deviceIndexMap m = ni_deviceIndexMap n" "ni_deviceList m = ni_deviceList n"
    "ni_gpuTopology m = ni_gpuTopology n" "ni_node m = ni_node n" "ni_config m = ni_config n"
    using assms(1) by (auto simp: m_def shape_def)
  have n': "n' = foldl ?step m (PodsOnNodeCallback pods (n_Name (ni_node n)))"
    using assms(2) by (simp add: n'_def AddPodsUsedResources_def Let_def m_def)
  show "ni_deviceMap n' = map (\<lambda>(k, d). (k, foldl raise_fp d fps)) (ni_deviceMap n)" "ni_deviceIndexMap n' = ni_deviceIndexMap n"
    "ni_deviceList n' = ni_deviceList n" "ni_gpuTopology n' = ni_gpuTopology n" "ni_node n' = ni_node n" "ni_config n' = ni_config n"
    using go [OF m(1)] unfolding n' fps_def node_charges_def m(2-7) by blast+
qed

lemma NewNodeInfo_cards:
  assumes "NewNodeInfo e node opt = Inr info" "register_ok (register_of e node opt)" "\<not> no_resetUsed opt"
  defines "fps \<equiv> node_charges e (no_nodePods opt) (no_excludedUids opt) (n_Name node)"
  shows "ni_deviceMap info = map (\<lambda>d. (di_Id d, foldl raise_fp (NewDevice d) fps)) (register_of e node opt)"
    "ni_deviceIndexMap info = map (\<lambda>d. (di_Uuid d, di_Id d)) (register_of e node opt)"
    "di_Uuid ` set (register_of e node opt) \<subseteq> list_uuids (ni_deviceList info)" "\<exists>n. info = RefreshResourcesData n"
proof -
  obtain g where g: "NewNodeDeviceGatherInfo e node opt = Inr g" using assms(1) by (auto simp: NewNodeInfo_def split: sum.splits)
  note r = gather_register [OF g assms(2)]
  obtain n2 where n2: "info = RefreshResourcesData (AddPodsUsedResources e n2 (no_nodePods opt) opt)"
    "ni_deviceMap n2 = gi_DeviceMap g" "ni_deviceIndexMap n2 = gi_DeviceIndexMap g" "ni_deviceList n2 = gi_DeviceList g" "ni_node n2 = node"
    using assms(1) g by (auto simp: NewNodeInfo_def Let_def link_maps_def split: prod.splits if_splits)
  have s: "shape n2" by (rule register_shape [OF assms(2)]) (simp_all add: n2 r)
  note a = AddPods_cards [OF s assms(3), of e "no_nodePods opt"]
  have "ni_deviceList (RefreshResourcesData m) = ni_deviceList m" for m
  proof -
    have "ni_deviceList (fst (foldl refresh_device (m, f, sm, c) ds)) = ni_deviceList m" for m f sm c ds
      by (induction ds arbitrary: m f sm c) (simp_all add: refresh_device_def)
    then show ?thesis by (simp add: RefreshResourcesData_def Let_def case_prod_beta)
  qed
  then show "di_Uuid ` set (register_of e node opt) \<subseteq> list_uuids (ni_deviceList info)" using r(3) by (simp add: n2(1,4) a(3))
  show "ni_deviceMap info = map (\<lambda>d. (di_Id d, foldl raise_fp (NewDevice d) fps)) (register_of e node opt)"
    by (simp add: n2(1,2,5) Refresh_eqs a(1) r(1) fps_def comp_def)
  show "ni_deviceIndexMap info = map (\<lambda>d. (di_Uuid d, di_Id d)) (register_of e node opt)"
    by (simp add: n2(1,3) Refresh_eqs a(2) r(2))
  show "\<exists>n. info = RefreshResourcesData n" using n2(1) by blast
qed

lemma raise_total: "dev_total q (foldl raise_fp d fps) = dev_total q d" "schedulable (foldl raise_fp d fps) = schedulable d"
  "d_uuid (foldl raise_fp d fps) = d_uuid d" "d_id (foldl raise_fp d fps) = d_id d"
proof -
  have "dev_total q (raise_fp d fp) = dev_total q d" "schedulable (raise_fp d fp) = schedulable d" for d fp
    by (cases q; simp add: raise_fp_def addUsedResourcesN_def GetTotalNumber_def GetTotalCores_def GetTotalMemory_def)
      (simp add: raise_fp_def addUsedResourcesN_def schedulable_def)
  then show "dev_total q (foldl raise_fp d fps) = dev_total q d" "schedulable (foldl raise_fp d fps) = schedulable d"
    "d_uuid (foldl raise_fp d fps) = d_uuid d" "d_id (foldl raise_fp d fps) = d_id d"
    by (induction fps arbitrary: d) simp_all
qed

lemma dev_ok_used: "dev_ok d \<longleftrightarrow> (\<forall>q. counter (dev_used q d)) \<and> counter (d_totalNumber d) \<and> counter (d_totalCores d) \<and> counter (d_totalMemory d)"
  by (auto simp: dev_ok_def all_dims)

lemma raise_fields: "d_totalNumber (foldl raise_fp d fps) = d_totalNumber d" "d_totalCores (foldl raise_fp d fps) = d_totalCores d"
  "d_totalMemory (foldl raise_fp d fps) = d_totalMemory d"
proof -
  have "d_totalNumber (raise_fp d fp) = d_totalNumber d" "d_totalCores (raise_fp d fp) = d_totalCores d" "d_totalMemory (raise_fp d fp) = d_totalMemory d"
    for d fp by (simp_all add: raise_fp_def addUsedResourcesN_def)
  then show "d_totalNumber (foldl raise_fp d fps) = d_totalNumber d" "d_totalCores (foldl raise_fp d fps) = d_totalCores d"
    "d_totalMemory (foldl raise_fp d fps) = d_totalMemory d" by (induction fps arbitrary: d) simp_all
qed

text \<open>
  A node built from a well-formed register and charges that do not overflow is well-formed, and
  each card's use is the sum of the charges on it.
\<close>

lemma NewNodeInfo_sound:
  assumes "NewNodeInfo e node opt = Inr info" "register_ok (register_of e node opt)" "\<not> no_resetUsed opt"
    and fps: "fps = node_charges e (no_nodePods opt) (no_excludedUids opt) (n_Name node)"
    and nn: "\<forall>f \<in> set fps. \<forall>q. 0 \<le> fp_dim q f" and fit: "\<forall>q. \<forall>d \<in> set (register_of e node opt). charged_on q (di_Uuid d) fps \<le> max_int"
  shows "node_ok info" "ledger info" "links_ok info"
    "\<forall>d \<in> set (vals (ni_deviceMap info)). \<forall>q. dev_used q d = charged_on q (d_uuid d) fps"
    "map d_uuid (vals (ni_deviceMap info)) = map di_Uuid (register_of e node opt)"
    "map (dev_total q) (vals (ni_deviceMap info)) = map (\<lambda>d. dev_total q (NewDevice d)) (register_of e node opt)"
proof -
  let ?ds = "register_of e node opt"
  note c = NewNodeInfo_cards [OF assms(1-3), folded fps]
  have vals: "vals (ni_deviceMap info) = map (\<lambda>d. foldl raise_fp (NewDevice d) fps) ?ds" by (simp add: c(1) vals_def comp_def)
  have z: "dev_used q (NewDevice d) = 0" "d_uuid (NewDevice d) = di_Uuid d" "d_id (NewDevice d) = di_Id d" for q d
    by (cases q; simp add: NewDevice_def)+
  have used: "dev_used q (foldl raise_fp (NewDevice d) fps) = charged_on q (di_Uuid d) fps" if "d \<in> set ?ds" for q d
    using raise_used [OF nn, of "NewDevice d" q] fit that by (simp add: z)
  then show "\<forall>d \<in> set (vals (ni_deviceMap info)). \<forall>q. dev_used q d = charged_on q (d_uuid d) fps"
    by (auto simp: vals raise_total z)
  show "map d_uuid (vals (ni_deviceMap info)) = map di_Uuid ?ds" by (simp add: vals raise_total z comp_def)
  show "map (dev_total q) (vals (ni_deviceMap info)) = map (\<lambda>d. dev_total q (NewDevice d)) ?ds" for q by (simp add: vals raise_total comp_def)
  have devs: "dev_ok (foldl raise_fp (NewDevice d) fps)" if "d \<in> set ?ds" for d
  proof -
    have "dev_ok (NewDevice d)" using assms(2) that by (simp add: register_ok_def)
    moreover have "0 \<le> charged_on q (di_Uuid d) fps" "charged_on q (di_Uuid d) fps \<le> max_int" for q
      using charged_on_nonneg [OF nn] fit that by auto
    ultimately show ?thesis using used [OF that] by (simp add: dev_ok_used raise_fields counter_def)
  qed
  have "cards info = map (\<lambda>d. foldl raise_fp (NewDevice d) fps) (filter (\<lambda>d. schedulable (NewDevice d)) ?ds)"
    by (simp add: cards_def vals filter_map comp_def raise_total)
  then have tot: "sum_list (map (dev_total q) (cards info)) = sum_list (map (dev_total q) (filter schedulable (map NewDevice ?ds)))" for q
    by (simp add: filter_map comp_def raise_total)
  have idx: "map_of (map (\<lambda>d. (di_Uuid d, di_Id d)) ?ds) (di_Uuid d) = Some (di_Id d)" if "d \<in> set ?ds" for d
    using that assms(2) by (intro map_of_is_SomeI) (force simp: register_ok_def comp_def)+
  show ok: "node_ok info" unfolding node_ok_def tot c(1,2)
    using assms(2) devs idx by (auto simp: register_ok_def keys_def comp_def raise_total z)
  show "links_ok info" using c(3) link_by_uuid_found by (force simp: links_ok_def vals raise_total z)
  show "ledger info" using Refresh_ledger ok c(4) node_ok_Refresh by metis
qed

end
