(* ===== verification/Cluster_Load.thy ===== *)
theory Cluster_Load
  imports Node_Ledger Bind Filter_Answer
begin

text \<open>
  The load of a pod: what its recorded claims charge to each card once it is counted. A pod that
  the allocator places on a node loads every card by at most what the card has free.
\<close>

section \<open>Charges of recorded claims\<close>

definition claim_charges :: "pod \<Rightarrow> pod_footprint list" where
  "claim_charges p =
     (if podHasVGPUInitContainer p then vals (ReducePodFootprint p (GetPodDeviceClaim p))
      else map fp_of (concat (map cdc_DeviceClaims (GetPodDeviceClaim p))))"

lemma pod_charges_claims: "pod_charges e p = (if ShouldCountPodDeviceAllocation e p then claim_charges p else [])"
  by (simp add: pod_charges_def claim_charges_def)

lemma keyed_combine: "keyed r \<Longrightarrow> keyed (combine_fp b r u)"
  by (simp add: combine_fp_def Let_def keyed_update)

lemma keyed_Reduce: "keyed (ReducePodFootprint p pdc)"
proof -
  have "keyed m \<Longrightarrow> keyed (foldl (\<lambda>m cc. foldl sumClaimFootprint m (cdc_DeviceClaims cc)) m pdc)" for m and pdc :: pod_claim
    by (induction pdc arbitrary: m) (simp_all add: keyed_sumClaims)
  moreover have "keyed m \<Longrightarrow> keyed (foldl (combine_fp b) m us)" for b m us
    by (induction us arbitrary: m) (simp_all add: keyed_combine)
  moreover have "keyed []" by (simp add: keyed_def keys_def)
  ultimately show ?thesis by (simp add: ReducePodFootprint_def Let_def)
qed

lemma charged_keyed: "keyed m \<Longrightarrow> charged_on q u (vals m) = fp_dim q (fp_get m u)"
proof (induction m)
  case (Cons x m)
  obtain k f where x: "x = (k, f)" by (cases x)
  have k: "keyed m" "fp_Uuid f = k" "map_of m k = None" using Cons.prems by (auto simp: x keyed_def keys_def map_of_eq_None_iff)
  then show ?case using Cons.IH by (auto simp: x vals_def fp_get_def)
qed (simp add: vals_def)

lemma charged_claims: "charged_on q u (map fp_of (concat (map cdc_DeviceClaims pdc))) = usage_on q u pdc" for pdc :: pod_claim
proof -
  have "charged_on q u (map fp_of cs) = claims_on q u cs" for cs
    by (induction cs) (cases q; simp add: fp_of_def)+
  then show ?thesis by (simp add: claims_on_concat)
qed

lemma claim_charges_nonneg:
  assumes "claims_ok (GetPodDeviceClaim p)"
  shows "\<forall>f \<in> set (claim_charges p). \<forall>q. 0 \<le> fp_dim q f"
proof (intro ballI allI)
  fix f q assume f: "f \<in> set (claim_charges p)"
  let ?pdc = "GetPodDeviceClaim p"
  show "0 \<le> fp_dim q f"
  proof (cases "podHasVGPUInitContainer p")
    case True
    then have "f \<in> set (vals (ReducePodFootprint p ?pdc))" using f by (simp add: claim_charges_def)
    then obtain k where "(k, f) \<in> set (ReducePodFootprint p ?pdc)" by (auto simp: vals_def)
    then have "f = fp_get (ReducePodFootprint p ?pdc) k"
      using keyed_Reduce [of p ?pdc] by (simp add: fp_get_def keyed_def keys_def)
    moreover have "0 \<le> usage_on q k (sidecar_claims p ?pdc)" "0 \<le> usage_on q k (regular_claims p ?pdc)"
      unfolding sidecar_claims_def regular_claims_def by (rule claims_okD(2) [OF assms])+
    ultimately show ?thesis using ReducePodFootprint_value [OF assms, of q p k] by simp
  next
    case False
    then obtain cc c where "cc \<in> set ?pdc" "c \<in> set (cdc_DeviceClaims cc)" "f = fp_of c" using f by (auto simp: claim_charges_def)
    then show ?thesis using assms by (cases q) (auto simp: fp_of_def claims_ok_def)
  qed
qed

text \<open>The charge on a card is what some containers that run together take of it.\<close>

lemma charge_attained:
  assumes "claims_ok (GetPodDeviceClaim p)"
    and "\<not> podHasVGPUInitContainer p \<Longrightarrow> sequential_claims p (GetPodDeviceClaim p) = []"
  shows "\<exists>run. subseq run (GetPodDeviceClaim p) \<and> can_run p run \<and> charged_on q u (claim_charges p) = usage_on q u run"
proof (cases "podHasVGPUInitContainer p")
  case True
  then show ?thesis using footprint_attained [OF assms(1), of p q u] by (auto simp: claim_charges_def charged_keyed [OF keyed_Reduce])
next
  case False
  then show ?thesis using assms(2)
    by (intro exI [of _ "GetPodDeviceClaim p"]) (simp add: claim_charges_def charged_claims can_run_def)
qed

section \<open>A pod that was placed\<close>

lemma sequential_need_init:
  assumes "x \<in> set (pod_needs p)" "is_sequential x"
  shows "podHasVGPUInitContainer p"
proof -
  obtain c where c: "c \<in> set (p_InitContainers p)" "x \<in> set (container_need_of ContainerKindInit (c_Restartable c) c)"
    using assms by (auto simp: pod_needs_def is_sequential_def dest: need_of_container)
  then have "IsVGPURequiredContainer c" "\<not> c_Restartable c"
    using assms(2) need_of_container [OF c(2)] by (auto simp: container_need_of_def IsVGPURequiredContainer_def is_sequential_def Let_def split: if_splits)
  then show ?thesis using c(1) by (auto simp: podHasVGPUInitContainer_def list_ex_iff)
qed

lemma served_claim:
  assumes "serves n req need cc" "x \<in> set (cdc_DeviceClaims cc)"
  shows "\<exists>d \<in> set (vals (ni_deviceMap n)). d_uuid d = dc_Uuid x \<and> d_id d = dc_Id x"
proof -
  obtain ds c m where ds: "set ds \<subseteq> set (cards (resetResourceUsage n))" "mset (cdc_DeviceClaims cc) = mset (map (claim_for c m) ds)"
    using assms(1) by (auto simp: serves_def)
  then have "set (cdc_DeviceClaims cc) = claim_for c m ` set ds" by (metis set_map set_mset_mset)
  then obtain d where d: "d \<in> set (cards (resetResourceUsage n))" "x = claim_for c m d" using assms(2) ds(1) by auto
  then obtain k where "(k, d) \<in> set (ni_deviceMap (resetResourceUsage n))" by (auto simp: cards_def vals_def)
  then obtain d0 where "(k, d0) \<in> set (ni_deviceMap n)" "d = ResetUsed d0" by (auto simp: resetResourceUsage_def)
  then show ?thesis using d(2) by (force simp: claim_for_def ResetUsed_def vals_def)
qed

lemma claim_le_usage: "x \<in> set cs \<Longrightarrow> \<forall>c \<in> set cs. 0 \<le> dc_Cores c \<and> 0 \<le> dc_Memory c \<Longrightarrow> dc_dim q x \<le> claims_on q (dc_Uuid x) cs"
proof (induction cs)
  case (Cons c cs)
  have "0 \<le> claims_on q (dc_Uuid x) cs" by (rule claims_on_nonneg) (use Cons.prems in simp)
  moreover have "0 \<le> dc_dim q c" using Cons.prems by (cases q) auto
  ultimately show ?case using Cons by auto
qed simp

lemma claims_on_other: "u \<notin> dc_Uuid ` set cs \<Longrightarrow> claims_on q u cs = 0"
  by (induction cs) auto

text \<open>The bounds that keep the sums of a placed pod inside 64-bit integers and its text decodable.\<close>

definition node_small :: "node_info \<Rightarrow> bool" where
  "node_small n \<longleftrightarrow> (\<forall>d \<in> set (vals (ni_deviceMap n)). (\<forall>q. dev_total q d \<le> 2 ^ 40) \<and> 0 \<le> d_id d \<and> d_id d \<le> 2 ^ 40 \<and>
     free_of '' _,;]'' (d_uuid d))"

definition pod_small :: "pod \<Rightarrow> bool" where
  "pod_small p \<longleftrightarrow> pod_names_ok p \<and> length (pod_needs p) \<le> 2 ^ 20 \<and> (\<forall>x \<in> set (pod_needs p). free_of '' ;[]'' (cn_Name x))"

definition placed :: "node_info \<Rightarrow> allocation_request \<Rightarrow> pod \<Rightarrow> (container_need \<Rightarrow> container_claim) \<Rightarrow> bool" where
  "placed n req p f \<longleftrightarrow> node_ok n \<and> node_small n \<and> pod_small p \<and> needs_ok n (pod_needs p) \<and> pod_needs p \<noteq> [] \<and>
     pod_within n req (pod_needs p) f"

lemma placedD:
  assumes "placed n req p f"
  shows "node_ok n" "node_small n" "pod_small p" "needs_ok n (pod_needs p)" "pod_needs p \<noteq> []" "pod_within n req (pod_needs p) f"
    "\<And>x. x \<in> set (pod_needs p) \<Longrightarrow> serves n req x (f x)"
  using assms by (simp_all add: placed_def pod_within_def)

lemma claim_nonneg:
  assumes "placed n req p f" "x \<in> set (pod_needs p)" "c \<in> set (cdc_DeviceClaims (f x))"
  shows "0 \<le> dc_Cores c \<and> 0 \<le> dc_Memory c"
  using placedD(4) [OF assms(1)] assms(2)
  by (intro claims_served_nonneg [OF placedD(7) [OF assms(1,2)] _ placedD(1) [OF assms(1)] assms(3)]) (simp add: needs_ok_def)

lemma single_bound:
  assumes pl: "placed n req p f" and x: "x \<in> set (pod_needs p)"
  shows "claims_on q u (cdc_DeviceClaims (f x)) \<le> 2 ^ 40"
proof (cases "u \<in> dc_Uuid ` set (cdc_DeviceClaims (f x))")
  case True
  note node = placedD(1,2) [OF pl] and pod = placedD(3,4) [OF pl] and within = placedD(6) [OF pl]
  obtain d where d: "d \<in> set (vals (ni_deviceMap n))" "d_uuid d = u"
    using True served_claim [OF placedD(7) [OF pl x]] by auto
  have "subseq [f x] (map f (pod_needs p))" using x by (simp add: subseq_singleton_left)
  moreover have "can_run p [f x]" by (simp add: can_run_def sequential_claims_def regular_claims_def)
  ultimately have "usage_on q (d_uuid d) [f x] \<le> dev_free q d"
    using pod by (intro within_can_run [OF node(1) _ pod(2) within refl d(1)]) (simp_all add: pod_small_def)
  moreover have "dev_free q d \<le> dev_total q d" using node(1) d(1) dev_free_range node_okD(3) by (fastforce simp: vals_def)
  moreover have "dev_total q d \<le> 2 ^ 40" using node(2) d(1) by (simp add: node_small_def)
  ultimately show ?thesis using d(2) by simp
qed (simp add: claims_on_other)

lemma placed_claims_ok:
  assumes pl: "placed n req p f"
  shows "claims_ok (map f (pod_needs p))"
proof -
  have "usage_on q u (map f (pod_needs p)) \<le> int (length (pod_needs p)) * 2 ^ 40" for q u
  proof -
    have "sum_list (map (\<lambda>x. claims_on q u (cdc_DeviceClaims (f x))) xs) \<le> int (length xs) * 2 ^ 40" if "set xs \<subseteq> set (pod_needs p)" for xs
      using that single_bound [OF pl] by (induction xs) (auto simp: algebra_simps intro: add_mono)
    then show ?thesis by (simp add: usage_on_def comp_def)
  qed
  moreover have "int (length (pod_needs p)) * 2 ^ 40 \<le> 2 ^ 20 * 2 ^ 40" using placedD(3) [OF pl] by (simp add: pod_small_def)
  ultimately have "usage_on q u (map f (pod_needs p)) \<le> max_int" for q u
    by (rule order_trans [OF order_trans]) (simp add: max_int_def)
  then show ?thesis using claim_nonneg [OF pl] by (auto simp: claims_ok_def)
qed

lemma placed_servable:
  assumes pl: "placed n req p f"
  shows "servable (map f (pod_needs p))"
proof -
  note node = placedD(1,2) [OF pl] and pod = placedD(3-5) [OF pl]
  have name: "cdc_Name (f x) = cn_Name x" if "x \<in> set (pod_needs p)" for x using placedD(7) [OF pl that] by (simp add: serves_def)
  have "wf_device_claim c" if xc: "x \<in> set (pod_needs p)" "c \<in> set (cdc_DeviceClaims (f x))" for x c
  proof -
    obtain d where d: "d \<in> set (vals (ni_deviceMap n))" "d_uuid d = dc_Uuid c" "d_id d = dc_Id c"
      using served_claim [OF placedD(7) [OF pl xc(1)] xc(2)] by blast
    have "dc_dim q c \<le> 2 ^ 40" for q
      using claim_le_usage [OF that(2)] single_bound [OF pl that(1), of q "dc_Uuid c"] claim_nonneg [OF pl that(1)] by (meson order_trans)
    from this [of Cores] this [of Memory] show ?thesis
      using d node(2) claim_nonneg [OF pl that] by (auto simp: wf_device_claim_def node_small_def in_i64_def)
  qed
  moreover have "distinct (map cn_Name (pod_needs p))" using pod(1) distinct_pod_needs by (simp add: pod_small_def)
  then have "distinct (map cdc_Name (map f (pod_needs p)))" using name by (simp cong: map_cong)
  ultimately show ?thesis using pod name by (simp add: servable_def wf_container_claim_def pod_small_def list_all_iff)
qed

lemma placed_load:
  assumes pl: "placed n req p f" and "GetPodDeviceClaim p' = map f (pod_needs p)" "p_InitContainers p' = p_InitContainers p" "d \<in> set (vals (ni_deviceMap n))"
  shows "charged_on q (d_uuid d) (claim_charges p') \<le> dev_free q d"
proof -
  note node = placedD(1) [OF pl] and pod = placedD(3,4) [OF pl] and within = placedD(6) [OF pl]
  have names: "pod_names_ok p" using pod(1) by (simp add: pod_small_def)
  have same: "sequential_names p' = sequential_names p" "podHasVGPUInitContainer p' = podHasVGPUInitContainer p"
    using assms(3) by (simp_all add: sequential_names_def podHasVGPUInitContainer_def)
  have "cdc_Name (f x) \<notin> sequential_names p" if "x \<in> set (pod_needs p)" "\<not> podHasVGPUInitContainer p" for x
    using pod_needs_class(1) [OF names that(1)] sequential_need_init [OF that(1)] that within by (auto simp: pod_within_def serves_def)
  then have seq: "\<not> podHasVGPUInitContainer p' \<Longrightarrow> sequential_claims p' (GetPodDeviceClaim p') = []"
    by (simp add: same assms(2) sequential_claims_def filter_empty_conv)
  have "claims_ok (GetPodDeviceClaim p')" unfolding assms(2) by (rule placed_claims_ok [OF pl])
  from charge_attained [OF this seq] obtain run where
    r: "subseq run (map f (pod_needs p))" "can_run p' run" "charged_on q (d_uuid d) (claim_charges p') = usage_on q (d_uuid d) run"
    unfolding assms(2) by blast
  show ?thesis unfolding r(3) by (rule within_can_run [OF node names pod(2) within assms(3,4) r(1,2)])
qed

end
