(* ===== verification/Filter_Commit.thy ===== *)
theory Filter_Commit
  imports Filter_Answer
begin

text \<open>
  Where a write of the live filter comes from: every pod it patches was placed by the allocator on
  a candidate node, built from what that node publishes and from the pods planned on it.
\<close>

section \<open>The scan\<close>

lemma commit_trace:
  assumes "commit fe n np sc = (e, sc')" "PodPatched p' \<in> set (sc_trace sc')"
  shows "PodPatched p' \<in> set (sc_trace sc) \<or> PatchPodPreAllocatedMetadata (fe_env fe) (fe_server fe) np = (None, p')"
  using assms by (auto simp: commit_def recordPlacement_def Let_def split: option.splits prod.splits if_splits)

lemma commit_request: "commit fe n np sc = (e, sc') \<Longrightarrow> sc_request sc' = sc_request sc"
  by (auto simp: commit_def split: option.splits prod.splits)

text \<open>A ranked node the allocator took, and the write that followed.\<close>

definition wrote :: "filter_env \<Rightarrow> filter_mode \<Rightarrow> ranked_node \<Rightarrow> allocation_request \<Rightarrow> pod \<Rightarrow> bool" where
  "wrote fe mode r req p' \<longleftrightarrow> (\<exists>first req' np s. untold req' = untold req \<and>
     Allocate (fe_env fe) \<lparr>ao_recorder = first, ao_simulate = isDryRun mode\<rparr> \<lparr>as_nodeInfo = rn_info r, as_request = req', as_trace = []\<rparr> =
       (Placed np, s) \<and> PatchPodPreAllocatedMetadata (fe_env fe) (fe_server fe) np = (None, p'))"

lemma scan_node_patched:
  assumes "scan_node fe mode first r sc = (e, sc')"
  shows "untold (sc_request sc') = untold (sc_request sc)"
    "PodPatched p' \<in> set (sc_trace sc') \<Longrightarrow> PodPatched p' \<in> set (sc_trace sc) \<or> wrote fe mode r (sc_request sc) p'"
proof -
  let ?o = "\<lparr>ao_recorder = first, ao_simulate = isDryRun mode\<rparr>" and ?s = "\<lparr>as_nodeInfo = rn_info r, as_request = sc_request sc, as_trace = []\<rparr>"
  obtain res s where a: "Allocate (fe_env fe) ?o ?s = (res, s)" by fastforce
  have u: "untold (as_request s) = untold (sc_request sc)" using keeps_Allocate [of "fe_env fe" ?o ?s] a by simp
  show "untold (sc_request sc') = untold (sc_request sc)"
  proof (cases "isDryRun mode \<or> sc_nodes sc = []")
    case True
    note run = assms [unfolded scan_node_alloc [OF True a refl]]
    show ?thesis using run u by (cases res) (auto dest: commit_request split: if_splits)
  next
    case False
    then show ?thesis using assms by (auto simp: scan_node_def Let_def)
  qed
  assume t: "PodPatched p' \<in> set (sc_trace sc')"
  show "PodPatched p' \<in> set (sc_trace sc) \<or> wrote fe mode r (sc_request sc) p'"
  proof (cases "isDryRun mode \<or> sc_nodes sc = []")
    case True
    note run = assms [unfolded scan_node_alloc [OF True a refl]]
    show ?thesis
    proof (cases res)
      case (Placed np)
      have "PodPatched p' \<in> set (sc_trace sc) \<or> PatchPodPreAllocatedMetadata (fe_env fe) (fe_server fe) np = (None, p')"
        using run t Placed by (auto dest: commit_trace split: if_splits)
      then show ?thesis using a Placed unfolding wrote_def by blast
    qed (use run t in auto)
  next
    case False
    then show ?thesis using assms t by (auto simp: scan_node_def Let_def)
  qed
qed

lemma wrote_untold: "wrote fe mode r req p' \<Longrightarrow> untold req = untold req' \<Longrightarrow> wrote fe mode r req' p'"
  by (simp add: wrote_def)

lemma scan_patched:
  assumes "scan_nodes fe mode first rs sc = (e, sc')" "PodPatched p' \<in> set (sc_trace sc')"
  shows "PodPatched p' \<in> set (sc_trace sc) \<or> (\<exists>r \<in> set rs. wrote fe mode r (sc_request sc) p')"
  using assms
proof (induction rs arbitrary: sc first)
  case (Cons r rs)
  obtain e1 sc1 where one: "scan_node fe mode first r sc = (e1, sc1)" by fastforce
  note s = scan_node_patched [OF one]
  have "PodPatched p' \<in> set (sc_trace sc1) \<or> (\<exists>r \<in> set rs. wrote fe mode r (sc_request sc1) p')"
    using Cons one by (cases e1) auto
  then show ?case using s(2) wrote_untold [OF _ s(1)] unfolding list.set by blast
qed simp

section \<open>The stages\<close>

lemma sort_events: "PodPatched p' \<notin> set (snd (sortNodeInfos req infos pos mode))" "set (fst (sortNodeInfos req infos pos mode)) = set infos"
  using mset_sortNodeInfos [of req infos pos mode] by (auto simp: sortNodeInfos_def Let_def dest: mset_eq_setD)

lemma pre_request:
  "preFilterNodeInfos fe req nodes st = Inr (q, out) \<Longrightarrow> ar_Pod q = ar_Pod req \<and> ar_Containers q = ar_Containers req"
  by (auto simp: preFilterNodeInfos_def split: sum.splits option.splits if_splits)

lemma pre_judged:
  assumes "fair fe" "distinct (map n_Name nodes)" "nodes \<noteq> []" "preFilterNodeInfos fe req nodes st = Inr (q, out)" "r \<in> set (bo_infos out)"
  shows "\<exists>pods. \<exists>n \<in> set nodes. fe_vgpuPods fe = Inr pods \<and> judge_node fe req (NodeMapByIndexValue pods) st n = Keep r"
proof -
  obtain pods where pods: "fe_vgpuPods fe = Inr pods" "build_nodes fe (judge_node fe req (NodeMapByIndexValue pods) st) nodes = Some out"
    using assms(4) by (auto simp: preFilterNodeInfos_def split: sum.splits option.splits if_splits)
  let ?judge = "judge_node fe req (NodeMapByIndexValue pods) st"
  obtain ps where ps: "mset ps = mset (indexed nodes)" "out = built ?judge ps"
    using build_nodes_perm [OF assms(1-3), of ?judge] pods(2) by (auto split: if_splits)
  obtain i n where n: "(i, n) \<in> set ps" "?judge n = Keep r"
    using assms(5) by (auto simp: ps(2) built_def List.map_filter_def kept_def split: verdict.splits)
  have "n \<in> set (map snd (indexed nodes))" using n(1) mset_eq_setD [OF ps(1)] by force
  then show ?thesis using n(2) pods(1) unfolding names_indexed by blast
qed

lemma allocate_patched:
  assumes "fair fe" "distinct (map n_Name nodes)" "nodes \<noteq> []" "PodPatched p' \<in> set (snd (allocate_nodes fe req nodes st mode))"
  shows "\<exists>pods q r. \<exists>n \<in> set nodes. fe_vgpuPods fe = Inr pods \<and> judge_node fe req (NodeMapByIndexValue pods) st n = Keep r \<and>
    ar_Pod q = ar_Pod req \<and> ar_Containers q = ar_Containers req \<and> wrote fe mode r q p'"
proof -
  obtain q out where pre: "preFilterNodeInfos fe req nodes st = Inr (q, out)"
    using assms(4) by (auto simp: allocate_nodes_def split: sum.splits)
  have ne: "bo_infos out \<noteq> []" using assms(4) pre by (auto simp: allocate_nodes_def)
  obtain ranked ev where r: "sortNodeInfos q (bo_infos out) (bo_position out) mode = (ranked, ev)" by fastforce
  note ev = sort_events(1) [of p' q "bo_infos out" "bo_position out" mode, unfolded r]
    sort_events(2) [of q "bo_infos out" "bo_position out" mode, unfolded r]
  let ?sc = "\<lparr>sc_nodes = [], sc_failed = bo_failed out, sc_request = q, sc_trace = ev\<rparr>"
  obtain e sc where sc: "scan_nodes fe mode True ranked ?sc = (e, sc)" by fastforce
  have "PodPatched p' \<in> set (sc_trace sc)"
    using assms(4) pre ne r sc by (cases e) (auto simp: allocate_nodes_def success_events_def split: if_splits)
  from scan_patched [OF sc this] obtain x where x: "x \<in> set (bo_infos out)" "wrote fe mode x q p'" using ev by auto
  then show ?thesis using pre_judged [OF assms(1-3) pre x(1)] pre_request [OF pre] by blast
qed

lemma device_patched:
  assumes "fair fe" "distinct (map n_Name nodes)" "PodPatched p' \<in> set (snd (deviceFilter fe req nodes st mode))"
  shows "\<exists>pods q r. \<exists>n \<in> set nodes. fe_vgpuPods fe = Inr pods \<and> judge_node fe req (NodeMapByIndexValue pods) st n = Keep r \<and>
    ar_Pod q = ar_Pod req \<and> ar_Containers q = ar_Containers req \<and> wrote fe mode r q p'"
proof -
  have "nodes \<noteq> []" "PodPatched p' \<in> set (snd (allocate_nodes fe req nodes st mode))"
    using assms(3) by (auto simp: deviceFilter_def CheckDeviceRequest_def Let_def split: if_splits option.splits prod.splits)
  then show ?thesis by (rule allocate_patched [OF assms(1,2)])
qed

lemma nodeFilter_state:
  assumes "distinct (map n_Name nodes)" "nodeFilter fe req nodes [] = (passed, failed, st)" "n \<in> set passed"
  shows "n \<in> set nodes \<and> (\<exists>pub. map_of st (n_Name n) = Some pub \<and> read_node fe n = Inr pub)"
  using assms
proof (induction nodes arbitrary: passed failed st n rule: rev_induct)
  case (snoc m nodes)
  obtain ps f s where f: "nodeFilter fe req nodes [] = (ps, f, s)" by (cases "nodeFilter fe req nodes []")
  have step: "(passed = ps \<and> st = s) \<or>
      (passed = ps @ [m] \<and> (\<exists>pub. read_node fe m = Inr pub \<and> st = AList.update (n_Name m) pub s))"
    using snoc.prems(2) f unfolding nodeFilter_def by (auto simp: CheckNode_def split: if_splits option.splits sum.splits)
  have IH: "x \<in> set ps \<Longrightarrow> x \<in> set nodes \<and> (\<exists>pub. map_of s (n_Name x) = Some pub \<and> read_node fe x = Inr pub)" for x
    using snoc.IH [OF _ f] snoc.prems(1) by simp
  have "n_Name x \<noteq> n_Name m" if "x \<in> set ps" for x using IH [OF that] snoc.prems(1) by (auto simp: image_iff)
  then show ?case using step IH snoc.prems(3) by (auto simp: map_of_update)
qed (simp add: nodeFilter_def)

text \<open>What is known of a write: the node, what it publishes, and the allocator's run on it.\<close>

definition source_of :: "filter_env \<Rightarrow> filter_mode \<Rightarrow> allocation_request \<Rightarrow> node \<Rightarrow> pod \<Rightarrow> bool" where
  "source_of fe mode req n p' \<longleftrightarrow> (\<exists>pods q r pub st. fe_vgpuPods fe = Inr pods \<and> read_node fe n = Inr pub \<and>
     map_of st (n_Name n) = Some pub \<and> judge_node fe req (NodeMapByIndexValue pods) st n = Keep r \<and>
     ar_Pod q = ar_Pod req \<and> ar_Containers q = ar_Containers req \<and> wrote fe mode r q p')"

lemma chain_patched:
  assumes "fair fe" "distinct (map n_Name nodes)" "PodPatched p' \<in> set (snd (chain fe req nodes rs mode))"
  shows "\<exists>n \<in> set nodes. source_of fe mode req n p'"
proof -
  obtain passed failed st where n: "nodeFilter fe req nodes [] = (passed, failed, st)" by (cases "nodeFilter fe req nodes []")
  have "distinct (map n_Name passed)" using nodeFilter_names [OF n] assms(2) subseq_distinct_map by blast
  moreover have "PodPatched p' \<in> set (snd (deviceFilter fe req passed st mode))"
    using assms(3) n by (auto simp: chain_def Let_def split: if_splits prod.splits sum.splits)
  ultimately show ?thesis using device_patched [OF assms(1)] nodeFilter_state [OF assms(2) n] unfolding source_of_def by metis
qed

section \<open>The verb\<close>

lemma finish_writes: "PodPatched p' \<notin> set (snd (finish args mode k suf nodes rs))" "PodPatched p' \<notin> set (snd (fail mode err))"
  by (auto simp: finish_def fail_def recordNodeRejects_def Let_def)

text \<open>All node objects of a call are those of the cache.\<close>

definition coherent :: "filter_env \<Rightarrow> extender_args \<Rightarrow> bool" where
  "coherent fe args \<longleftrightarrow> sound_cache fe \<and> distinct (candidates args) \<and>
     (\<forall>sel ns. fe_listNodes fe sel = Inr ns \<longrightarrow> (\<forall>n \<in> set ns. fe_getNode fe (n_Name n) = Inr n)) \<and>
     (\<forall>ns. ea_Nodes args = Some ns \<longrightarrow> (\<forall>n \<in> set ns. fe_getNode fe (n_Name n) = Inr n))"

lemma build_request: "ar_Pod (BuildAllocationRequest p) = p" "ar_Containers (BuildAllocationRequest p) = pod_needs p"
  by (simp_all add: BuildAllocationRequest_def Let_def)

lemma request_nodes:
  assumes "coherent fe args" "preFilterRequestNodes fe args = Inr (req, nodes, rs)"
  shows "\<exists>p. ea_Pod args = Some p \<and> req = BuildAllocationRequest p \<and> p_NodeName p = [] \<and> pod_needs p \<noteq> []"
    "distinct (map n_Name nodes)" "\<And>n. n \<in> set nodes \<Longrightarrow> fe_getNode fe (n_Name n) = Inr n"
proof -
  show "\<exists>p. ea_Pod args = Some p \<and> req = BuildAllocationRequest p \<and> p_NodeName p = [] \<and> pod_needs p \<noteq> []"
    using assms(2) by (auto simp: preFilterRequestNodes_def build_request Let_def split: option.splits if_splits)
  show "distinct (map n_Name nodes)"
    using candidates_accounts [OF _ _ assms(2)] assms(1) by (simp add: accounts_def coherent_def)
  have sound: "sound_cache fe" using assms(1) by (simp add: coherent_def)
  have cached: "set (fst (getNodesOnCache fe names)) \<subseteq> {n. fe_getNode fe (n_Name n) = Inr n}" for names
  proof (induction names rule: rev_induct)
    case (snoc x names)
    then show ?case using sound by (auto simp: getNodesOnCache_def sound_cache_def split: sum.splits prod.splits)
  qed (simp add: getNodesOnCache_def)
  have c: "getNodesOnCache fe names = (nodes, rs) \<Longrightarrow> n \<in> set nodes \<Longrightarrow> fe_getNode fe (n_Name n) = Inr n" for n names
  proof -
    assume *: "getNodesOnCache fe names = (nodes, rs)" "n \<in> set nodes"
    have "n \<in> set (fst (getNodesOnCache fe names))" using * by simp
    then show ?thesis using cached [of names] by blast
  qed
  show "fe_getNode fe (n_Name n) = Inr n" if "n \<in> set nodes" for n
  proof -
    consider names where "getNodesOnCache fe names = (nodes, rs)" | "ea_Nodes args = Some nodes"
      using assms(2) by (auto simp: preFilterRequestNodes_def Let_def split: option.splits if_splits)
    then show ?thesis
    proof cases
      case 1
      then show ?thesis using c that by blast
    next
      case 2
      then show ?thesis using assms(1) that by (simp add: coherent_def)
    qed
  qed
qed

lemma server_nodes:
  assumes "coherent fe args" "remoteServerNodes fe req nodes = Inr servers" "n \<in> set servers"
    and "\<And>n. n \<in> set nodes \<Longrightarrow> fe_getNode fe (n_Name n) = Inr n"
  shows "fe_getNode fe (n_Name n) = Inr n"
proof -
  obtain sel cached where c: "fe_listNodes fe sel = Inr cached"
    and s: "servers = (let ok = (\<lambda>n. IsRemoteServerNode n \<and> serverInService fe (ar_Pod req) n);
                   fromCache = filter ok cached;
                   others = filter (\<lambda>n. n_Name n \<notin> n_Name ` set fromCache \<and> sel n \<and> ok n) nodes
               in go_sort (\<lambda>a b. str_less (n_Name a) (n_Name b)) (fromCache @ others))"
    using servers_from [OF assms(2)] by blast
  have "n \<in> set cached \<or> n \<in> set nodes" using assms(3) by (auto simp: s Let_def)
  then show ?thesis using assms(1,4) c by (auto simp: coherent_def)
qed

lemma filter_patched:
  assumes "coherent fe args" "fair fe" "PodPatched p' \<in> set (snd (filter_nodes fe args mode))"
  shows "\<exists>p n req. ea_Pod args = Some p \<and> p_NodeName p = [] \<and> pod_needs p \<noteq> [] \<and> fe_getNode fe (n_Name n) = Inr n \<and>
    ar_Pod req = p \<and> ar_Containers req = pod_needs p \<and> source_of fe mode req n p'"
proof -
  obtain req nodes rs where x: "preFilterRequestNodes fe args = Inr (req, nodes, rs)"
    using assms(3) by (auto simp: filter_nodes_def split: sum.splits)
  note r = request_nodes [OF assms(1) x]
  obtain p where p: "ea_Pod args = Some p" "req = BuildAllocationRequest p" "p_NodeName p = []" "pod_needs p \<noteq> []" using r(1) by blast
  have req: "ar_Pod req = p" "ar_Containers req = pod_needs p" by (simp_all add: p(2) build_request)
  show ?thesis
  proof (cases "ar_AccessMode req = AccessModeRemote")
    case True
    let ?req = "req\<lparr>ar_CrossPodTopology := False\<rparr>"
    obtain cs rs1 where c: "remoteConsumerNodes nodes rs = (cs, rs1)" by fastforce
    obtain servers where s: "remoteServerNodes fe ?req nodes = Inr servers"
      using assms(3) True by (auto simp: filter_nodes_def x filter_remote_def Let_def after_def fail_def split: prod.splits sum.splits if_splits)
    let ?ns = "if cs \<noteq> [] then servers else []"
    obtain res ev where ch: "chain fe ?req ?ns [] mode = (res, ev)" by fastforce
    have "PodPatched p' \<in> set ev"
      using assms(3) True s c ch finish_writes
      by (cases res) (auto simp: filter_nodes_def x filter_remote_def Let_def after_def split: prod.splits if_splits)
    moreover have "distinct (map n_Name ?ns)" using servers_distinct [OF _ r(2) s] assms(1) by (simp add: coherent_def)
    ultimately obtain n where "n \<in> set ?ns" "source_of fe mode ?req n p'" using chain_patched [OF assms(2), of ?ns p' ?req "[]" mode] ch by auto
    then show ?thesis using p(1,3,4) req server_nodes [OF assms(1) s _ r(3)]
      by (intro exI [of _ p] exI [of _ n] exI [of _ ?req]) (auto split: if_splits)
  next
    case False
    obtain res ev where ch: "chain fe req nodes rs mode = (res, ev)" by fastforce
    have "PodPatched p' \<in> set ev"
      using assms(3) False ch finish_writes
      by (cases res) (auto simp: filter_nodes_def x filter_local_def Let_def after_def split: prod.splits)
    then obtain n where "n \<in> set nodes" "source_of fe mode req n p'" using chain_patched [OF assms(2) r(2), of p' req rs mode] ch by auto
    then show ?thesis using p(1,3,4) req r(3) by blast
  qed
qed

end
