(* ===== verification/Cluster.thy ===== *)
theory Cluster
  imports Cluster_Load Filter_Commit
begin

text \<open>
  The scheduler extender and its cluster as a step relation: pods are created, filtered (the live
  filter verb reserves devices), bound (the bind verb), served by the device plugin, marked by the
  kube-scheduler, finished and deleted, while time passes. Each verb is one step: live
  filter calls exclude each other by the filter's lock, which is on by default, and a bind or a served
  container between the reads and the write of a filter call is not modelled. The invariant is that no card is ever reserved beyond its capacity.
\<close>

section \<open>The state and what the verbs see of it\<close>

record cluster =
  cl_now :: int
  cl_pods :: "pod list"

definition vgpu_pods :: "cluster \<Rightarrow> pod list" where
  "vgpu_pods c = filter IsVGPUResourcePod (cl_pods c)"

definition stored :: "cluster \<Rightarrow> string \<Rightarrow> pod option" where
  "stored c uid = find (\<lambda>p. p_UID p = uid) (cl_pods c)"

text \<open>The clock of the state, its pods behind the lister, and a server that merges a patch into the stored pod or refuses it.\<close>

definition env_at :: "env \<Rightarrow> cluster \<Rightarrow> env" where
  "env_at e c = e\<lparr>e_now := cl_now c\<rparr>"

definition filter_view :: "filter_env \<Rightarrow> cluster \<Rightarrow> filter_env" where
  "filter_view fe c = fe\<lparr>fe_env := env_at (fe_env fe) c, fe_vgpuPods := Inr (vgpu_pods c),
     fe_server := (\<lambda>p pm. case fe_server fe p pm of
        Inl err \<Rightarrow> Inl err
      | Inr q \<Rightarrow> (case stored c (p_UID p) of None \<Rightarrow> Inl ''not found'' | Some s \<Rightarrow> Inr (merge_patch s pm)))\<rparr>"

definition bind_view :: "bind_env \<Rightarrow> cluster \<Rightarrow> bind_env" where
  "bind_view be c = be\<lparr>be_env := env_at (be_env be) c,
     be_get := (\<lambda>ns name. case be_get be ns name of
        Inl err \<Rightarrow> Inl err
      | Inr q \<Rightarrow> (case stored c (p_UID q) of None \<Rightarrow> Inl (None, ''not found'') | Some s \<Rightarrow> Inr s)),
     be_server := (\<lambda>p pm. case be_server be p pm of Inl err \<Rightarrow> Inl err | Inr q \<Rightarrow> Inr (merge_patch p pm)),
     be_bind := (\<lambda>p node. if p_NodeName p \<noteq> [] then Some ''already assigned'' else be_bind be p node)\<rparr>"

definition put_pod :: "pod \<Rightarrow> cluster \<Rightarrow> cluster" where
  "put_pod p c = c\<lparr>cl_pods := map (\<lambda>s. if p_UID s = p_UID p then p else s) (cl_pods c)\<rparr>"

text \<open>What the store holds of a pod after the writes of a bind call.\<close>

fun bind_write :: "pod \<Rightarrow> bind_effect \<Rightarrow> pod" where
  "bind_write p (BindPatched q) = q"
| "bind_write p (BoundTo q node) = q\<lparr>p_NodeName := node\<rparr>"
| "bind_write p _ = p"

definition same_pod :: "pod \<Rightarrow> pod \<Rightarrow> bool" where
  "same_pod q s \<longleftrightarrow> p_UID q = p_UID s \<and> p_InitContainers q = p_InitContainers s \<and> p_Containers q = p_Containers s"

definition over :: "pod \<Rightarrow> bool" where
  "over p \<longleftrightarrow> p_Phase p = PodSucceeded \<or> p_Phase p = PodFailed"

section \<open>What nodes and pods may look like\<close>

text \<open>The register and the configuration a node publishes.\<close>

definition registers :: "filter_env \<Rightarrow> string \<Rightarrow> device_info list \<Rightarrow> bool" where
  "registers fe x ds \<longleftrightarrow> (\<exists>n. fe_getNode fe x = Inr n \<and>
     ParseNodeDeviceInfo (fe_env fe) (node_annotation n NodeDeviceRegisterAnnotation) = Some ds)"

definition good_register :: "device_info list \<Rightarrow> bool" where
  "good_register ds \<longleftrightarrow> register_ok ds \<and> length ds \<le> 2 ^ 40 \<and>
     (\<forall>d \<in> set ds. (\<forall>q. dev_total q (NewDevice d) \<le> 2 ^ 40) \<and> free_of '' _,;]'' (di_Uuid d))"

text \<open>A pod whose amounts, scaled by the memory factor of any node, stay inside 64-bit integers.\<close>

definition good_pod :: "filter_env \<Rightarrow> pod \<Rightarrow> bool" where
  "good_pod fe p \<longleftrightarrow> pod_small p \<and> (\<forall>x \<in> set (pod_needs p). 0 \<le> cn_Cores x \<and> 0 \<le> cn_Memory x \<and>
     (\<forall>v cfg. NodeConfigInfo_Decode (fe_env fe) v = Some cfg \<longrightarrow> cn_Memory x * nc_MemoryFactor cfg \<le> max_int))"

section \<open>The steps\<close>

text \<open>
  The filter may be called with an outdated copy of a pending pod, never for a bound one. A
  condition the kube-scheduler sets does not revive a reservation that no longer counts.
\<close>

inductive step :: "filter_env \<Rightarrow> bind_env \<Rightarrow> cluster \<Rightarrow> cluster \<Rightarrow> bool" for fe be where
  created: "p_UID p \<notin> p_UID ` set (cl_pods c) \<Longrightarrow> anno_or_empty p PodVGPUPreAllocAnnotation = [] \<Longrightarrow>
    anno_or_empty p PodVGPURealAllocAnnotation = [] \<Longrightarrow> good_pod fe p \<Longrightarrow> step fe be c (c\<lparr>cl_pods := cl_pods c @ [p]\<rparr>)"
| filtered: "s \<in> set (cl_pods c) \<Longrightarrow> p_NodeName s = [] \<Longrightarrow> ea_Pod args = Some q \<Longrightarrow> same_pod q s \<Longrightarrow>
    coherent (filter_view fe c) args \<Longrightarrow> PodPatched p \<in> set (snd (Filter (filter_view fe c) args)) \<Longrightarrow> step fe be c (put_pod p c)"
| bound: "stored c (ba_PodUID args) = Some s \<Longrightarrow> be_get (bind_view be c) (ba_PodNamespace args) (ba_PodName args) = Inr s \<Longrightarrow>
    Bind (bind_view be c) args = (err, es) \<Longrightarrow> step fe be c (put_pod (foldl bind_write s es) c)"
| served: "s \<in> set (cl_pods c) \<Longrightarrow> p_NodeName s \<noteq> [] \<Longrightarrow> GetCurrentPreAllocateContainerDevice s = Inr cdc \<Longrightarrow>
    succeed_patch (UpdatePodRealContainerDeviceClaim s cdc) = Inr pm \<Longrightarrow> step fe be c (put_pod (merge_patch s pm) c)"
| marked: "s \<in> set (cl_pods c) \<Longrightarrow>
    (ShouldCountPodDeviceAllocation (env_at (fe_env fe) c) (s\<lparr>p_Scheduled := cond\<rparr>) \<Longrightarrow> ShouldCountPodDeviceAllocation (env_at (fe_env fe) c) s) \<Longrightarrow>
    step fe be c (put_pod (s\<lparr>p_Scheduled := cond\<rparr>) c)"
| ran: "s \<in> set (cl_pods c) \<Longrightarrow> \<not> over s \<Longrightarrow> step fe be c (put_pod (s\<lparr>p_Phase := ph\<rparr>) c)"
| deleted: "step fe be c (c\<lparr>cl_pods := filter (\<lambda>p. p_UID p \<noteq> uid) (cl_pods c)\<rparr>)"
| ticked: "cl_now c \<le> t \<Longrightarrow> step fe be c (c\<lparr>cl_now := t\<rparr>)"

section \<open>The load on a card\<close>

definition share :: "env \<Rightarrow> dim \<Rightarrow> string \<Rightarrow> string \<Rightarrow> pod \<Rightarrow> int" where
  "share e q u x p = (if IsVGPUResourcePod p \<and> PodPlanSchedulingNode p = x \<and> \<not> over p then pod_load e q u p else 0)"

definition card_load :: "env \<Rightarrow> dim \<Rightarrow> string \<Rightarrow> string \<Rightarrow> pod list \<Rightarrow> int" where
  "card_load e q u x ps = sum_list (map (share e q u x) ps)"

text \<open>What a pod's annotations hold: nothing, or a decodable reservation, served up to some container.\<close>

definition alloc_ok :: "pod \<Rightarrow> bool" where
  "alloc_ok p \<longleftrightarrow> (anno_or_empty p PodVGPUPreAllocAnnotation = [] \<and> anno_or_empty p PodVGPURealAllocAnnotation = []) \<or>
     (\<exists>pdc k. servable pdc \<and> serving pdc k p \<and> claims_ok pdc)"

lemma serving_claim:
  assumes "servable pdc" "serving pdc k p"
  shows "GetPodDeviceClaim p = pdc"
proof -
  have pre: "decode_or_empty (anno_or_empty p PodVGPUPreAllocAnnotation) = pdc"
    using assms PodClaim_round_trip [of pdc] MarshalText_not_Nil [of pdc] by (simp add: serving_def servable_def decode_or_empty_def)
  have real: "decode_or_empty (anno_or_empty p PodVGPURealAllocAnnotation) = take k pdc"
    using assms take_decodes [OF assms(1), of k] by (cases "k = 0") (simp_all add: serving_def decode_or_empty_def PodDeviceClaim_MarshalText_def)
  show ?thesis by (simp add: GetPodDeviceClaim_def pre real Let_def)
qed

lemma alloc_claims_ok:
  assumes "alloc_ok p"
  shows "claims_ok (GetPodDeviceClaim p)"
proof -
  have "claims_ok []" by (simp add: claims_ok_def usage_on_def max_int_def)
  moreover have "GetPodDeviceClaim p = []" if "anno_or_empty p PodVGPUPreAllocAnnotation = []" "anno_or_empty p PodVGPURealAllocAnnotation = []"
    using that by (simp add: GetPodDeviceClaim_def decode_or_empty_def)
  ultimately show ?thesis using assms serving_claim [of _ _ p] unfolding alloc_ok_def by fastforce
qed

lemma charge_nonneg: "alloc_ok p \<Longrightarrow> 0 \<le> charged_on q u (claim_charges p)"
  using charged_on_nonneg claim_charges_nonneg alloc_claims_ok by blast

lemma share_nonneg: "alloc_ok p \<Longrightarrow> 0 \<le> share e q u x p"
  by (simp add: share_def pod_load_def pod_charges_claims charge_nonneg)

text \<open>The charges the filter gives a node are the shares of the other pods.\<close>

lemma node_charges_load:
  "charged_on q u (node_charges e (filter (\<lambda>p. PodPlanSchedulingNode p = x) (vgpu_pods c)) {uid} x) =
   card_load e q u x (filter (\<lambda>p. p_UID p \<noteq> uid) (cl_pods c))"
proof -
  have "charged_on q u (concat (map (pod_charges e) (filter (\<lambda>p. p_UID p \<notin> {uid})
      (PodsOnNodeCallback (filter (\<lambda>p. PodPlanSchedulingNode p = x) (filter IsVGPUResourcePod ps)) x)))) =
    card_load e q u x (filter (\<lambda>p. p_UID p \<noteq> uid) ps)" for ps
    by (induction ps) (auto simp: PodsOnNodeCallback_def card_load_def share_def pod_load_def over_def)
  then show ?thesis by (simp add: node_charges_def vgpu_pods_def)
qed

section \<open>The invariant\<close>

definition good_nodes :: "filter_env \<Rightarrow> bool" where
  "good_nodes fe \<longleftrightarrow> fair fe \<and> (\<forall>x ds. registers fe x ds \<longrightarrow> good_register ds)"

definition within_capacity :: "filter_env \<Rightarrow> cluster \<Rightarrow> bool" where
  "within_capacity fe c \<longleftrightarrow> (\<forall>x ds. registers fe x ds \<longrightarrow>
     (\<forall>d \<in> set ds. \<forall>q. card_load (env_at (fe_env fe) c) q (di_Uuid d) x (cl_pods c) \<le> dev_total q (NewDevice d)))"

definition cluster_inv :: "filter_env \<Rightarrow> cluster \<Rightarrow> bool" where
  "cluster_inv fe c \<longleftrightarrow> distinct (map p_UID (cl_pods c)) \<and> (\<forall>p \<in> set (cl_pods c). good_pod fe p \<and> alloc_ok p) \<and> within_capacity fe c"

lemma find_uid: "distinct (map p_UID ps) \<Longrightarrow> find (\<lambda>p. p_UID p = uid) ps = Some s \<longleftrightarrow> s \<in> set ps \<and> p_UID s = uid"
  by (induction ps) auto

lemma stored_iff: "distinct (map p_UID (cl_pods c)) \<Longrightarrow> stored c uid = Some s \<longleftrightarrow> s \<in> set (cl_pods c) \<and> p_UID s = uid"
  by (simp add: stored_def find_uid)

lemma card_load_remove:
  assumes "distinct (map p_UID ps)" "s \<in> set ps"
  shows "card_load e q u x ps = card_load e q u x (filter (\<lambda>p. p_UID p \<noteq> p_UID s) ps) + share e q u x s"
  using assms
proof (induction ps)
  case (Cons p ps)
  have "filter (\<lambda>y. p_UID y \<noteq> p_UID p) ps = ps" using Cons.prems(1) by (auto simp: filter_id_conv image_iff)
  then show ?case using Cons by (auto simp: card_load_def)
qed simp

lemma put_pods:
  assumes "distinct (map p_UID (cl_pods c))" "s \<in> set (cl_pods c)" "p_UID p = p_UID s"
  shows "map p_UID (cl_pods (put_pod p c)) = map p_UID (cl_pods c)" "p \<in> set (cl_pods (put_pod p c))"
    "set (cl_pods (put_pod p c)) \<subseteq> insert p (set (cl_pods c))"
    "filter (\<lambda>y. p_UID y \<noteq> p_UID s) (cl_pods (put_pod p c)) = filter (\<lambda>y. p_UID y \<noteq> p_UID s) (cl_pods c)"
proof -
  have "filter (\<lambda>y. p_UID y \<noteq> p_UID s) (map (\<lambda>y. if p_UID y = p_UID p then p else y) ps) = filter (\<lambda>y. p_UID y \<noteq> p_UID s) ps" for ps
    using assms(3) by (induction ps) auto
  then show "filter (\<lambda>y. p_UID y \<noteq> p_UID s) (cl_pods (put_pod p c)) = filter (\<lambda>y. p_UID y \<noteq> p_UID s) (cl_pods c)" by (simp add: put_pod_def)
qed (use assms in \<open>auto simp: put_pod_def\<close>)

lemma put_load:
  assumes "distinct (map p_UID (cl_pods c))" "s \<in> set (cl_pods c)" "p_UID p = p_UID s"
  shows "card_load e q u x (cl_pods (put_pod p c)) = card_load e q u x (filter (\<lambda>y. p_UID y \<noteq> p_UID s) (cl_pods c)) + share e q u x p"
  using card_load_remove [of "cl_pods (put_pod p c)" p e q u x] put_pods [OF assms] assms(1,3) by simp

lemma env_put [simp]: "env_at e (put_pod p c) = env_at e c" "cl_now (put_pod p c) = cl_now c"
  by (simp_all add: env_at_def put_pod_def)

text \<open>Replacing a pod by one whose share is no larger anywhere keeps the invariant.\<close>

lemma put_inv:
  assumes inv: "cluster_inv fe c" and s: "s \<in> set (cl_pods c)" and uid: "p_UID p = p_UID s" and ok: "good_pod fe p" "alloc_ok p"
    and room: "\<And>x ds d q. registers fe x ds \<Longrightarrow> d \<in> set ds \<Longrightarrow>
      card_load (env_at (fe_env fe) c) q (di_Uuid d) x (filter (\<lambda>y. p_UID y \<noteq> p_UID s) (cl_pods c)) +
      share (env_at (fe_env fe) c) q (di_Uuid d) x p \<le> dev_total q (NewDevice d)"
  shows "cluster_inv fe (put_pod p c)"
proof -
  have d: "distinct (map p_UID (cl_pods c))" using inv by (simp add: cluster_inv_def)
  note put = put_pods [OF d s uid]
  have "within_capacity fe (put_pod p c)" unfolding within_capacity_def env_put put_load [OF d s uid] using room by blast
  moreover have "\<forall>p \<in> set (cl_pods (put_pod p c)). good_pod fe p \<and> alloc_ok p" using inv ok put(3) by (auto simp: cluster_inv_def)
  ultimately show ?thesis using d put(1) by (simp add: cluster_inv_def)
qed

section \<open>Steps that reserve nothing\<close>

text \<open>An update that keeps the claims and their place and does not revive the reservation.\<close>

definition tame :: "env \<Rightarrow> pod \<Rightarrow> pod \<Rightarrow> bool" where
  "tame e s p \<longleftrightarrow> same_pod p s \<and> (alloc_ok s \<longrightarrow> alloc_ok p \<and> GetPodDeviceClaim p = GetPodDeviceClaim s) \<and> (over s \<longrightarrow> over p) \<and>
     (IsVGPUResourcePod s \<and> ShouldCountPodDeviceAllocation e p \<longrightarrow>
        ShouldCountPodDeviceAllocation e s \<and> PodPlanSchedulingNode p = PodPlanSchedulingNode s)"

lemma same_pod_fields:
  assumes "same_pod q s"
  shows "pod_needs q = pod_needs s" "pod_small q = pod_small s" "good_pod fe q = good_pod fe s" "IsVGPUResourcePod q = IsVGPUResourcePod s"
    "podHasVGPUInitContainer q = podHasVGPUInitContainer s" "checkExistCont q = checkExistCont s"
    "sequential_names q = sequential_names s" "sidecar_names q = sidecar_names s"
proof -
  show n: "pod_needs q = pod_needs s" using assms by (simp add: same_pod_def pod_needs_def)
  show sm: "pod_small q = pod_small s" using assms n by (simp add: pod_small_def pod_names_ok_def same_pod_def)
  show "good_pod fe q = good_pod fe s" using n sm by (simp add: good_pod_def)
  show "IsVGPUResourcePod q = IsVGPUResourcePod s" using assms by (simp add: same_pod_def IsVGPUResourcePod_def)
  show "podHasVGPUInitContainer q = podHasVGPUInitContainer s" using assms by (simp add: same_pod_def podHasVGPUInitContainer_def)
  show "checkExistCont q = checkExistCont s" using assms by (simp add: same_pod_def checkExistCont_def fun_eq_iff)
  show "sequential_names q = sequential_names s" "sidecar_names q = sidecar_names s"
    using assms by (simp_all add: same_pod_def sequential_names_def sidecar_names_def)
qed

lemma tame_share:
  assumes "tame e s p" "alloc_ok s"
  shows "share e q u x p \<le> share e q u x s"
proof -
  have same: "same_pod p s" and cl: "GetPodDeviceClaim p = GetPodDeviceClaim s" using assms by (simp_all add: tame_def)
  have "bucket_claim p = bucket_claim s" using same_pod_fields(7,8) [OF same] by (simp add: fun_eq_iff bucket_claim_def)
  then have "ReducePodFootprint p = ReducePodFootprint s" 
    using same_pod_fields(7) [OF same] by (intro ext) (simp add: ReducePodFootprint_def)
  then have "claim_charges p = claim_charges s" using same_pod_fields(5) [OF same] cl by (simp add: claim_charges_def)
  then show ?thesis using assms same_pod_fields(4) [OF same] charge_nonneg [OF assms(2), of q u]
    by (auto simp: share_def pod_load_def pod_charges_claims tame_def)
qed

lemma tame_inv:
  assumes "cluster_inv fe c" "s \<in> set (cl_pods c)" "tame (env_at (fe_env fe) c) s p"
  shows "cluster_inv fe (put_pod p c)"
proof -
  have s: "good_pod fe s" "alloc_ok s" and d: "distinct (map p_UID (cl_pods c))" and cap: "within_capacity fe c"
    using assms(1,2) by (simp_all add: cluster_inv_def)
  have same: "same_pod p s" "alloc_ok p" using assms(3) s(2) by (simp_all add: tame_def)
  show ?thesis
  proof (rule put_inv [OF assms(1,2)])
    show "p_UID p = p_UID s" using same(1) by (simp add: same_pod_def)
    show "good_pod fe p" using s(1) same_pod_fields(3) [OF same(1)] by simp
    show "card_load (env_at (fe_env fe) c) q (di_Uuid d) x (filter (\<lambda>y. p_UID y \<noteq> p_UID s) (cl_pods c)) +
      share (env_at (fe_env fe) c) q (di_Uuid d) x p \<le> dev_total q (NewDevice d)" if "registers fe x ds" "d \<in> set ds" for x ds d q
      using cap that card_load_remove [OF d assms(2)] tame_share [OF assms(3) s(2)] unfolding within_capacity_def by (smt (verit))
  qed (rule same(2))
qed

lemma serving_same:
  assumes "same_pod p s" "anno_or_empty p PodVGPUPreAllocAnnotation = anno_or_empty s PodVGPUPreAllocAnnotation"
    "anno_or_empty p PodVGPURealAllocAnnotation = anno_or_empty s PodVGPURealAllocAnnotation"
  shows "alloc_ok p = alloc_ok s" "GetPodDeviceClaim p = GetPodDeviceClaim s"
  using assms(2,3) same_pod_fields(6) [OF assms(1)] by (simp_all add: alloc_ok_def serving_def GetPodDeviceClaim_def)

lemma same_pod_merge [simp]: "same_pod (merge_patch p pm) p" "same_pod (p\<lparr>p_Scheduled := x\<rparr>) p" "same_pod (p\<lparr>p_Phase := ph\<rparr>) p"
  "same_pod p p" "same_pod (q\<lparr>p_NodeName := node\<rparr>) p = same_pod q p"
  by (simp_all add: same_pod_def)

lemma marked_tame:
  "(ShouldCountPodDeviceAllocation e (s\<lparr>p_Scheduled := cond\<rparr>) \<Longrightarrow> ShouldCountPodDeviceAllocation e s) \<Longrightarrow> tame e s (s\<lparr>p_Scheduled := cond\<rparr>)"
  using serving_same [of "s\<lparr>p_Scheduled := cond\<rparr>" s]
  by (auto simp: tame_def anno_or_empty_def HasAnnotation_def over_def PodPlanSchedulingNode_def PodVGPUAccessMode_def)

lemma counts_cong:
  assumes "p_NodeName p = p_NodeName s" "HasLabel p PodAssignedPhaseLabel = HasLabel s PodAssignedPhaseLabel" "p_Scheduled p = p_Scheduled s"
    "HasAnnotation p PodPredicateTimeAnnotation = HasAnnotation s PodPredicateTimeAnnotation"
    "HasAnnotation p SchedulerStuckGracePeriodAnnotation = HasAnnotation s SchedulerStuckGracePeriodAnnotation"
  shows "ShouldCountPodDeviceAllocation e p = ShouldCountPodDeviceAllocation e s"
  unfolding ShouldCountPodDeviceAllocation_def assms by (rule refl)

lemma plan_cong:
  assumes "p_NodeName p = p_NodeName s" "PodVGPUAccessMode p = PodVGPUAccessMode s"
    "anno_or_empty p PodPredicateNodeAnnotation = anno_or_empty s PodPredicateNodeAnnotation"
  shows "PodPlanSchedulingNode p = PodPlanSchedulingNode s"
  unfolding PodPlanSchedulingNode_def assms by (rule refl)

lemma ran_tame: "\<not> over s \<Longrightarrow> tame e s (s\<lparr>p_Phase := ph\<rparr>)"
  using serving_same [of "s\<lparr>p_Phase := ph\<rparr>" s] counts_cong [of "s\<lparr>p_Phase := ph\<rparr>" s e] plan_cong [of "s\<lparr>p_Phase := ph\<rparr>" s]
  by (simp add: tame_def anno_or_empty_def HasAnnotation_def HasLabel_def PodVGPUAccessMode_def)

text \<open>Serving the next container: the claims stay the reserved ones.\<close>

lemma served_tame:
  assumes "GetCurrentPreAllocateContainerDevice s = Inr cdc" "succeed_patch (UpdatePodRealContainerDeviceClaim s cdc) = Inr pm"
    and "p_NodeName s \<noteq> []"
  shows "tame e s (merge_patch s pm)"
proof -
  let ?p1 = "UpdatePodRealContainerDeviceClaim s cdc" and ?p = "merge_patch s pm"
  have real: "anno_or_empty ?p PodVGPURealAllocAnnotation = anno_or_empty ?p1 PodVGPURealAllocAnnotation"
    and keep: "anno_or_empty ?p PodVGPUPreAllocAnnotation = anno_or_empty s PodVGPUPreAllocAnnotation"
      "anno_or_empty ?p PodPredicateNodeAnnotation = anno_or_empty s PodPredicateNodeAnnotation" "PodVGPUAccessMode ?p = PodVGPUAccessMode s"
    using assms(2) by (auto simp: succeed_patch_def Let_def merge_patch_def merge_simps PodVGPUAccessMode_def split: sum.splits)
  have "alloc_ok ?p \<and> GetPodDeviceClaim ?p = GetPodDeviceClaim s" if ok: "alloc_ok s"
  proof -
    have "\<exists>err. PodDeviceClaim_UnmarshalText [] = Inl err" by (simp add: PodDeviceClaim_UnmarshalText_def strip_spaces_def)
    then have "anno_or_empty s PodVGPUPreAllocAnnotation \<noteq> []"
      using assms(1) by (auto simp: GetCurrentPreAllocateContainerDevice_def)
    then obtain pdc k where k: "servable pdc" "serving pdc k s" "claims_ok pdc" using ok by (auto simp: alloc_ok_def)
    then have c: "k < length pdc" "cdc = pdc ! k" using GetCurrent_serving [OF k(1,2)] assms(1) by (auto split: if_splits)
    have "serving pdc (Suc k) ?p1" unfolding c(2) by (rule UpdateReal_serving [OF k(1,2) c(1)])
    then have "serving pdc (Suc k) ?p"
      using real keep(1) k(2) by (simp add: serving_def UpdatePodRealContainerDeviceClaim_def checkExistCont_def)
    then show ?thesis using k serving_claim [OF k(1)] by (auto simp: alloc_ok_def)
  qed
  moreover have "ShouldCountPodDeviceAllocation e s" using assms(3) by (simp add: ShouldCountPodDeviceAllocation_def)
  moreover have "PodPlanSchedulingNode ?p = PodPlanSchedulingNode s" using keep by (intro plan_cong) simp_all
  ultimately show ?thesis by (simp add: tame_def over_def)
qed

section \<open>Binding\<close>

lemma failed_tame:
  assumes "tame e s p"
  shows "tame e s (merge_patch p (failed_patch p))"
proof -
  let ?p = "merge_patch p (failed_patch p)"
  have keep: "anno_or_empty ?p PodVGPUPreAllocAnnotation = anno_or_empty p PodVGPUPreAllocAnnotation"
      "anno_or_empty ?p PodVGPURealAllocAnnotation = anno_or_empty p PodVGPURealAllocAnnotation"
      "anno_or_empty ?p PodPredicateNodeAnnotation = anno_or_empty p PodPredicateNodeAnnotation" "PodVGPUAccessMode ?p = PodVGPUAccessMode p"
    by (simp_all add: failed_patch_def merge_patch_def merge_simps PodVGPUAccessMode_def)
  have same: "same_pod p s" "same_pod ?p s" using assms by (simp_all add: tame_def same_pod_def)
  have "PodPlanSchedulingNode ?p = PodPlanSchedulingNode p" using keep by (intro plan_cong) simp_all
  moreover have "ShouldCountPodDeviceAllocation e p" if "IsVGPUResourcePod s" "ShouldCountPodDeviceAllocation e ?p"
    using that failed_not_counted [of p e] same_pod_fields(4) [OF same(1)] by (cases "p_NodeName p = []") (auto simp: ShouldCountPodDeviceAllocation_def)
  ultimately show ?thesis using assms same(2) serving_same [OF same_pod_merge(1) keep(1,2)] by (auto simp: tame_def over_def)
qed

lemma allocating_tame:
  assumes "IsVGPUResourcePod s \<Longrightarrow> ShouldCountPodDeviceAllocation e s"
  shows "tame e s (merge_patch s (allocating_patch e' s))"
proof -
  let ?p = "merge_patch s (allocating_patch e' s)"
  have keep: "anno_or_empty ?p PodVGPUPreAllocAnnotation = anno_or_empty s PodVGPUPreAllocAnnotation"
      "anno_or_empty ?p PodVGPURealAllocAnnotation = anno_or_empty s PodVGPURealAllocAnnotation"
      "anno_or_empty ?p PodPredicateNodeAnnotation = anno_or_empty s PodPredicateNodeAnnotation" "PodVGPUAccessMode ?p = PodVGPUAccessMode s"
    by (simp_all add: allocating_patch_def Let_def merge_patch_def merge_simps PodVGPUAccessMode_def)
  have "PodPlanSchedulingNode ?p = PodPlanSchedulingNode s" using keep by (intro plan_cong) simp_all
  then show ?thesis using assms serving_same [OF same_pod_merge(1) keep(1,2)] by (simp add: tame_def over_def)
qed

lemma bound_tame:
  assumes "tame e s p" "p_NodeName p = []" "IsVGPUResourcePod s \<Longrightarrow> ShouldCountPodDeviceAllocation e s"
    and "IsVGPUResourcePod s \<Longrightarrow> fst (PodVGPUAccessMode p) = AccessModeLocal \<Longrightarrow> anno_or_empty p PodPredicateNodeAnnotation = node"
    and "PodPlanSchedulingNode p = PodPlanSchedulingNode s"
  shows "tame e s (p\<lparr>p_NodeName := node\<rparr>)"
proof -
  let ?p = "p\<lparr>p_NodeName := node\<rparr>"
  have keep: "anno_or_empty ?p k = anno_or_empty p k" "PodVGPUAccessMode ?p = PodVGPUAccessMode p" for k
    by (simp_all add: anno_or_empty_def HasAnnotation_def PodVGPUAccessMode_def)
  have "same_pod ?p p" by (simp add: same_pod_def)
  note c = serving_same [OF this keep(1) keep(1)]
  have "PodPlanSchedulingNode ?p = PodPlanSchedulingNode p" if "IsVGPUResourcePod s"
    using assms(2,4) that by (simp add: PodPlanSchedulingNode_def keep)
  then have "PodPlanSchedulingNode ?p = PodPlanSchedulingNode s" if "IsVGPUResourcePod s" using that assms(5) by simp
  then show ?thesis using assms(1,3) c by (auto simp: tame_def over_def same_pod_def)
qed

lemma tame_refl: "tame e s s"
  by (simp add: tame_def)

lemma fail_write:
  assumes "merging server" "fail_allocation server p = (p', es)" "tame e s p"
  shows "tame e s (foldl bind_write p es)"
  using assms failed_tame [OF assms(3)]
  by (auto simp: fail_allocation_def PatchPodAllocationFailed_def dest: merging_patch split: prod.splits option.splits if_splits)

lemma bind_tame:
  assumes "Bind be args = (err, es)" "be_get be (ba_PodNamespace args) (ba_PodName args) = Inr s" "p_UID s = ba_PodUID args"
    and m: "merging (be_server be)" and b: "\<And>p node. p_NodeName p \<noteq> [] \<Longrightarrow> be_bind be p node \<noteq> None"
  shows "tame (be_env be) s (foldl bind_write s es)"
proof (cases "ba_Node args = []")
  case True
  then show ?thesis using assms(1) by (auto simp: Bind_def tame_refl)
next
  case False
  let ?e = "be_env be" and ?node = "ba_Node args"
  obtain e1 p1 es1 out where r: "bind_pod be ?node s = (e1, p1, es1, out)" by (cases "bind_pod be ?node s")
  have es: "foldl bind_write s es = foldl bind_write s es1" using assms(1-3) False r by (auto simp: Bind_def)
  show ?thesis
  proof (cases "check_binding ?e s ?node")
    case (Some x)
    obtain p' fs where f: "fail_allocation (be_server be) s = (p', fs)" by fastforce
    then show ?thesis using r Some fail_write [OF m f tame_refl] es by (auto simp: bind_pod_def split: prod.splits)
  next
    case None
    then have counted: "IsVGPUResourcePod s \<Longrightarrow> ShouldCountPodDeviceAllocation ?e s"
      and node: "IsVGPUResourcePod s \<Longrightarrow> fst (PodVGPUAccessMode s) = AccessModeLocal \<Longrightarrow> anno_or_empty s PodPredicateNodeAnnotation = ?node"
      by (auto simp: check_binding_def Let_def split: if_splits)
    obtain ea a where a: "PatchPodAllocationAllocating ?e (be_server be) s = (ea, a)" by fastforce
    show ?thesis
    proof (cases ea)
      case (Some x)
      then show ?thesis using r None a es by (auto simp: bind_pod_def tame_refl)
    next
      case ok: None
      note res = allocating_result [OF m a [unfolded ok]]
      have t: "tame ?e s a" and same: "a = s \<or> a = merge_patch s (allocating_patch ?e s)"
        using res(1) tame_refl allocating_tame [OF counted] by auto
      let ?ps = "if IsVGPUResourcePod s \<or> stray_metadata s then [BindPatched a] else []"
      have w: "foldl bind_write s ?ps = a" using a ok by (auto simp: PatchPodAllocationAllocating_def)
      show ?thesis
      proof (cases "be_bind be a ?node")
        case (Some x)
        obtain p' fs where f: "fail_allocation (be_server be) a = (p', fs)" by fastforce
        have "es1 = ?ps @ BindEvent ''BindingFailed'' # fs" using r None a ok Some f by (auto simp: bind_pod_def Let_def)
        then have "foldl bind_write s es1 = foldl bind_write a fs" using w by (simp only: foldl_append foldl_Cons bind_write.simps)
        then show ?thesis using fail_write [OF m f t] es by simp
      next
        case None': None
        have "es1 = ?ps @ [BoundTo a ?node, BindEvent ''BindingSucceed'']" using r None a ok None' by (auto simp: bind_pod_def Let_def)
        then have fin: "foldl bind_write s es1 = a\<lparr>p_NodeName := ?node\<rparr>" using w by (simp only: foldl_append foldl_Cons foldl_Nil bind_write.simps)
        have keep: "PodVGPUAccessMode a = PodVGPUAccessMode s" "anno_or_empty a PodPredicateNodeAnnotation = anno_or_empty s PodPredicateNodeAnnotation"
          "p_NodeName a = p_NodeName s" using same allocating_keeps [of a s ?e] by auto
        have "p_NodeName a = []" using b None' by blast
        moreover have "PodPlanSchedulingNode a = PodPlanSchedulingNode s" using keep by (intro plan_cong)
        ultimately show ?thesis using bound_tame [OF t _ counted, of ?node] node keep es fin by simp
      qed
    qed
  qed
qed

section \<open>Filtering\<close>

lemma view_fields [simp]:
  "fe_env (filter_view fe c) = env_at (fe_env fe) c" "fe_getNode (filter_view fe c) = fe_getNode fe"
  "fe_vgpuPods (filter_view fe c) = Inr (vgpu_pods c)" "fair (filter_view fe c) = fair fe"
  by (simp_all add: filter_view_def fair_def)

lemma env_decoders [simp]:
  "ParseNodeDeviceInfo (env_at e c) v = ParseNodeDeviceInfo e v" "NodeConfigInfo_Decode (env_at e c) v = NodeConfigInfo_Decode e v"
  by (simp_all add: env_at_def ParseNodeDeviceInfo_def NodeConfigInfo_Decode_def)

lemma read_published:
  assumes "read_node (filter_view fe c) n = Inr (ds, cfg, ep)" "fe_getNode fe x = Inr n"
  shows "registers fe x ds" "\<exists>v. NodeConfigInfo_Decode (fe_env fe) v = Some cfg"
  using assms by (auto simp: read_node_def registers_def Let_def split: if_splits option.splits sum.splits)

lemma gather_config:
  assumes "NewNodeDeviceGatherInfo e node opt = Inr g" "no_nodeConfig opt = Some cfg"
  shows "gi_config g = cfg"
proof -
  have reg: "register_devices g ds = Some g' \<Longrightarrow> gi_config g' = gi_config g" for g ds g'
    by (induction g ds rule: register_devices.induct) (auto simp: register_device_def split: option.splits if_splits)
  have add: "add_links g ls = Some g' \<Longrightarrow> gi_config g' = gi_config g" for g ls g'
    by (induction g ls rule: add_links.induct) (auto split: option.splits)
  show ?thesis using assms by (auto simp: NewNodeDeviceGatherInfo_def Let_def dest!: reg add split: option.splits sum.splits if_splits)
qed

lemma NewNodeInfo_config:
  assumes "NewNodeInfo e node opt = Inr info" "no_nodeConfig opt = Some cfg"
  shows "ni_config info = cfg"
proof -
  obtain g where g: "NewNodeDeviceGatherInfo e node opt = Inr g" using assms(1) by (auto simp: NewNodeInfo_def split: sum.splits)
  have r: "ni_config (RefreshResourcesData m) = ni_config m" for m
  proof -
    have "ni_config (fst (foldl refresh_device (m, f, sm, c) ds)) = ni_config m" for m f sm c ds
      by (induction ds arbitrary: m f sm c) (simp_all add: refresh_device_def)
    then show ?thesis by (simp add: RefreshResourcesData_def Let_def case_prod_beta)
  qed
  have k: "ni_config (or_keep m (AddUsedResources m x)) = ni_config m" "ni_config (or_keep m (addFootprintResources m y)) = ni_config m" for m x y
    by (simp_all add: or_keep_def AddUsedResources_def addFootprintResources_def add_node_usage_def Let_def split: option.split)
  have fold: "(\<And>m x. ni_config (f m x) = ni_config m) \<Longrightarrow> ni_config (foldl f m xs) = ni_config m" for f :: "node_info \<Rightarrow> 'b \<Rightarrow> node_info" and m xs
    by (induction xs arbitrary: m) simp_all
  have p: "ni_config (AddPodUsedResources e m x) = ni_config m" for m x
    unfolding AddPod_charges by (rule fold) (rule k)
  have "ni_config (AddPodsUsedResources e m ps opt) = ni_config m" for m ps
  proof -
    have "ni_config (foldl (\<lambda>n p. if p_UID p \<in> no_excludedUids opt then n else AddPodUsedResources e (n\<lparr>ni_nodePods := ni_nodePods n @ [p]\<rparr>) p) m qs)
      = ni_config m" for m qs by (rule fold) (simp add: p)
    then show ?thesis by (simp add: AddPodsUsedResources_def Let_def resetResourceUsage_def)
  qed
  then show ?thesis using assms(1) g gather_config [OF g assms(2)]
    by (auto simp: NewNodeInfo_def Let_def link_maps_def r split: prod.splits if_splits)
qed

lemma good_needs:
  assumes "good_pod fe p" "ni_config n = cfg" "NodeConfigInfo_Decode (fe_env fe) v = Some cfg" "0 \<le> ni_maxDeviceMemory n"
  shows "needs_ok n (pod_needs p)"
  unfolding needs_ok_def
proof
  fix x assume x: "x \<in> set (pod_needs p)"
  have a: "0 \<le> cn_Cores x" "0 \<le> cn_Memory x" "cn_Memory x * nc_MemoryFactor cfg \<le> max_int" using assms(1,3) x unfolding good_pod_def by blast+
  have "i64 (cn_Memory x * nc_MemoryFactor cfg) = cn_Memory x * nc_MemoryFactor cfg" if "0 < nc_MemoryFactor cfg"
    using a that by (intro i64_between) auto
  then have "0 \<le> fst (need_amounts n x)" "0 \<le> snd (need_amounts n x)"
    using a assms(2,4) by (auto simp: need_amounts_def resolveContainerNeeds_def Let_def HundredCore_def)
  moreover have "0 < cn_Number x" using x by (auto simp: pod_needs_def dest: need_of_container)
  ultimately show "0 < cn_Number x \<and> 0 \<le> fst (need_amounts n x) \<and> 0 \<le> snd (need_amounts n x)" by blast
qed

end
