(* ===== verification/Cluster_Safe.thy ===== *)
theory Cluster_Safe
  imports Cluster
begin

text \<open>
  No card of the cluster is ever reserved, or used, beyond what it has: the filter's step keeps the
  invariant of the cluster, and with the steps that reserve nothing it holds in every reachable state.
\<close>

section \<open>The node the filter reserved on\<close>

text \<open>The facts behind a write of the filter in a state that satisfies the invariant.\<close>

definition others :: "cluster \<Rightarrow> pod \<Rightarrow> pod list" where
  "others c q = filter (\<lambda>y. p_UID y \<noteq> p_UID q) (cl_pods c)"

lemma others_load:
  assumes "cluster_inv fe c" "registers fe x ds" "d \<in> set ds"
  shows "0 \<le> card_load (env_at (fe_env fe) c) k (di_Uuid d) x (others c q)"
    "card_load (env_at (fe_env fe) c) k (di_Uuid d) x (others c q) \<le> dev_total k (NewDevice d)"
proof -
  let ?l = "\<lambda>ps. card_load (env_at (fe_env fe) c) k (di_Uuid d) x ps"
  have nn: "\<forall>p \<in> set (cl_pods c). 0 \<le> share (env_at (fe_env fe) c) k (di_Uuid d) x p"
    using assms(1) share_nonneg by (simp add: cluster_inv_def)
  then have le: "0 \<le> ?l (filter P ps) \<and> ?l (filter P ps) \<le> ?l ps" if "set ps \<subseteq> set (cl_pods c)" for ps P
    using that by (induction ps) (auto simp: card_load_def)
  show "0 \<le> ?l (others c q)" using le [of "cl_pods c"] by (simp add: others_def)
  have "?l (cl_pods c) \<le> dev_total k (NewDevice d)" using assms unfolding cluster_inv_def within_capacity_def by blast
  then show "?l (others c q) \<le> dev_total k (NewDevice d)" using le [of "cl_pods c"] unfolding others_def by (meson order_trans order_refl)
qed

lemma judged_node:
  assumes inv: "cluster_inv fe c" and good: "good_nodes fe" and x: "fe_getNode fe (n_Name n) = Inr n"
    and read: "read_node (filter_view fe c) n = Inr (ds, cfg, ep)" and st: "map_of st (n_Name n) = Some (ds, cfg, ep)"
    and judge: "judge_node (filter_view fe c) req (NodeMapByIndexValue (vgpu_pods c)) st n = Keep r"
  shows "node_ok (rn_info r)" "links_ok (rn_info r)" "node_small (rn_info r)" "ni_node (rn_info r) = n"
    "map d_uuid (vals (ni_deviceMap (rn_info r))) = map di_Uuid ds"
    "\<forall>d \<in> set (vals (ni_deviceMap (rn_info r))). \<forall>k. dev_used k d = card_load (env_at (fe_env fe) c) k (d_uuid d) (n_Name n) (others c (ar_Pod req))"
    "map (dev_total k) (vals (ni_deviceMap (rn_info r))) = map (\<lambda>d. dev_total k (NewDevice d)) ds"
    "good_pod fe p \<Longrightarrow> needs_ok (rn_info r) (pod_needs p)"
proof -
  let ?e = "env_at (fe_env fe) c" and ?fps = "node_charges (env_at (fe_env fe) c) (filter (\<lambda>p. PodPlanSchedulingNode p = n_Name n) (vgpu_pods c)) {p_UID (ar_Pod req)} (n_Name n)"
  define opt where "opt = node_option (filter_view fe c) req (NodeMapByIndexValue (vgpu_pods c)) st n"
  have opt: "no_nodeDevice opt = Some ds" "no_nodeConfig opt = Some cfg" "\<not> no_resetUsed opt" "no_excludedUids opt = {p_UID (ar_Pod req)}"
    "no_nodePods opt = filter (\<lambda>p. PodPlanSchedulingNode p = n_Name n) (vgpu_pods c)"
    by (simp_all add: opt_def node_option_def st NodeMap_group)
  have new: "NewNodeInfo ?e n opt = Inr (rn_info r)"
    using judge by (auto simp: judge_node_def opt_def Let_def split: sum.splits gather_error.splits option.splits)
  have reg: "register_of ?e n opt = ds" by (simp add: register_of_def opt)
  have rx: "registers fe (n_Name n) ds" and ok: "good_register ds" using read_published(1) [OF read x] good by (auto simp: good_nodes_def)
  have charged: "charged_on k u ?fps = card_load ?e k u (n_Name n) (others c (ar_Pod req))" for k u
    by (simp add: node_charges_load others_def)
  have nn: "\<forall>f \<in> set ?fps. \<forall>q. 0 \<le> fp_dim q f"
  proof -
    have "\<forall>f \<in> set (pod_charges ?e p). \<forall>q. 0 \<le> fp_dim q f" if "p \<in> set (cl_pods c)" for p
      using inv that claim_charges_nonneg alloc_claims_ok by (auto simp: pod_charges_claims cluster_inv_def)
    then show ?thesis by (auto simp: node_charges_def PodsOnNodeCallback_def vgpu_pods_def)
  qed
  have fit: "\<forall>q. \<forall>d \<in> set (register_of ?e n opt). charged_on q (di_Uuid d) ?fps \<le> max_int"
  proof (intro allI ballI)
    fix q d assume "d \<in> set (register_of ?e n opt)"
    then have d: "d \<in> set ds" by (simp add: reg)
    have "dev_total q (NewDevice d) \<le> 2 ^ 40" using ok d by (simp add: good_register_def)
    then show "charged_on q (di_Uuid d) ?fps \<le> max_int"
      using others_load(2) [OF inv rx d, of q "ar_Pod req"] unfolding charged by (simp add: max_int_def)
  qed
  have rok: "register_ok (register_of ?e n opt)" using ok by (simp add: reg good_register_def)
  note sound = NewNodeInfo_sound [OF new rok opt(3) _ nn fit, unfolded opt(4,5) reg, OF refl]
  show "node_ok (rn_info r)" "links_ok (rn_info r)" "map d_uuid (vals (ni_deviceMap (rn_info r))) = map di_Uuid ds"
    "map (dev_total k) (vals (ni_deviceMap (rn_info r))) = map (\<lambda>d. dev_total k (NewDevice d)) ds" by (rule sound)+
  show "\<forall>d \<in> set (vals (ni_deviceMap (rn_info r))). \<forall>k. dev_used k d = card_load ?e k (d_uuid d) (n_Name n) (others c (ar_Pod req))"
    using sound(4) unfolding charged .
  show "ni_node (rn_info r) = n" by (rule NewNodeInfo_node [OF new])
  show "good_pod fe p \<Longrightarrow> needs_ok (rn_info r) (pod_needs p)"
  proof -
    assume p: "good_pod fe p"
    obtain v where v: "NodeConfigInfo_Decode (fe_env fe) v = Some cfg" using read_published(2) [OF read x] by blast
    obtain m where m: "rn_info r = RefreshResourcesData m" using NewNodeInfo_cards(4) [OF new rok opt(3)] by blast
    have "0 \<le> foldr (\<lambda>d. max (GetTotalMemory d)) cs 0" for cs :: "device list" by (induction cs) auto
    then have "0 \<le> ni_maxDeviceMemory (rn_info r)" by (simp add: m Refresh_eqs)
    then show ?thesis by (rule good_needs [OF p NewNodeInfo_config [OF new opt(2)] v])
  qed
  show "node_small (rn_info r)" unfolding node_small_def
  proof
    fix d assume "d \<in> set (vals (ni_deviceMap (rn_info r)))"
    then obtain g where g: "g \<in> set ds" "d = foldl raise_fp (NewDevice g) (node_charges ?e (no_nodePods opt) (no_excludedUids opt) (n_Name n))"
      using NewNodeInfo_cards(1) [OF new rok opt(3)] by (auto simp: vals_def reg)
    have "0 \<le> di_Id g" "di_Id g < int (length ds)" using ok g(1) by (auto simp: good_register_def register_ok_def)
    moreover have "int (length ds) \<le> 2 ^ 40" using ok by (simp add: good_register_def)
    ultimately show "(\<forall>q. dev_total q d \<le> 2 ^ 40) \<and> 0 \<le> d_id d \<and> d_id d \<le> 2 ^ 40 \<and> free_of '' _,;]'' (d_uuid d)"
      using ok g(1) unfolding g(2) raise_total by (auto simp: good_register_def NewDevice_def)
  qed
qed

section \<open>The reservation\<close>

lemma dev_free_used: "dev_ok d \<Longrightarrow> dev_free q d = max 0 (dev_total q d - dev_used q d)"
  by (cases q) (simp_all add: device_simps)

lemma need_exists:
  assumes "x \<in> set (pod_needs p)"
  shows "checkExistCont p (cn_Name x)"
proof -
  obtain c kind b where c: "c \<in> set (p_InitContainers p) \<union> set (p_Containers p)" "x \<in> set (container_need_of kind b c)"
    using assms by (auto simp: pod_needs_def)
  then have "c_Name c = cn_Name x" using need_of_container [OF c(2)] by simp
  then show ?thesis using c(1) by (auto simp: checkExistCont_def list_ex_iff)
qed

text \<open>The stored pod after the write: its annotations are the reservation the allocator made.\<close>

lemma written_pod:
  assumes "PatchPodPreAllocatedMetadata e (fe_server (filter_view fe c)) (placed_pod info q pdc) = (None, p)"
    and "distinct (map p_UID (cl_pods c))" "s \<in> set (cl_pods c)" "same_pod q s" "p_NodeName s = []"
  shows "same_pod p s" "p_NodeName p = []" "anno_or_empty p PodVGPUPreAllocAnnotation = PodDeviceClaim_MarshalText pdc"
    "anno_or_empty p PodVGPURealAllocAnnotation = []" "PodPlanSchedulingNode p = n_Name (ni_node info)"
proof -
  have uid: "p_UID (placed_pod info q pdc) = p_UID s" using assms(4) by (simp add: placed_pod_def InsertAnnotation_def same_pod_def)
  have st: "stored c (p_UID s) = Some s" using assms(2,3) by (simp add: stored_iff)
  have p: "p = merge_patch s (preallocated_patch e (placed_pod info q pdc))"
    using assms(1) st
    by (auto simp: PatchPodPreAllocatedMetadata_def PatchPodMetadata_def filter_view_def uid split: if_splits sum.splits)
  show "same_pod p s" "p_NodeName p = []" using assms(5) by (simp_all add: p)
  have "anno_or_empty (placed_pod info q pdc) PodVGPUPreAllocAnnotation = PodDeviceClaim_MarshalText pdc"
    "anno_or_empty (placed_pod info q pdc) PodPredicateNodeAnnotation = n_Name (ni_node info)"
    by (simp_all add: placed_pod_def InsertAnnotation_def anno_or_empty_def HasAnnotation_def map_of_update)
  then show "anno_or_empty p PodVGPUPreAllocAnnotation = PodDeviceClaim_MarshalText pdc" "anno_or_empty p PodVGPURealAllocAnnotation = []"
    and "PodPlanSchedulingNode p = n_Name (ni_node info)"
    using assms(5) by (simp_all add: p preallocated_patch_def Let_def merge_patch_def merge_simps PodPlanSchedulingNode_def)
qed

text \<open>A placed pod fits next to the other pods of the node.\<close>

lemma placed_room:
  assumes pl: "placed info req q f" and claim: "GetPodDeviceClaim p = map f (pod_needs q)" and init: "p_InitContainers p = p_InitContainers q"
    and uuids: "map d_uuid (vals (ni_deviceMap info)) = map di_Uuid ds"
    and totals: "map (dev_total k) (vals (ni_deviceMap info)) = map (\<lambda>d. dev_total k (NewDevice d)) ds"
    and used: "\<forall>d \<in> set (vals (ni_deviceMap info)). dev_used k d = L (d_uuid d)"
    and le: "\<And>d. d \<in> set ds \<Longrightarrow> L (di_Uuid d) \<le> dev_total k (NewDevice d)" and d: "d \<in> set ds"
  shows "L (di_Uuid d) + charged_on k (di_Uuid d) (claim_charges p) \<le> dev_total k (NewDevice d)"
proof -
  obtain i where i: "i < length ds" "d = ds ! i" using d by (auto simp: in_set_conv_nth)
  define dv where "dv = vals (ni_deviceMap info) ! i"
  have len: "length (vals (ni_deviceMap info)) = length ds" using uuids map_eq_imp_length_eq by blast
  have dv: "dv \<in> set (vals (ni_deviceMap info))" using i(1) len by (simp add: dv_def)
  have u: "d_uuid dv = di_Uuid d" using arg_cong [OF uuids, of "\<lambda>xs. xs ! i"] i len by (simp add: dv_def)
  have t: "dev_total k dv = dev_total k (NewDevice d)" using arg_cong [OF totals, of "\<lambda>xs. xs ! i"] i len by (simp add: dv_def)
  have "dev_ok dv" using dv node_okD(3) [OF placedD(1) [OF pl]] by (auto simp: vals_def)
  then have "dev_free k dv = dev_total k (NewDevice d) - L (di_Uuid d)" using used dv le [OF d] by (simp add: dev_free_used u t)
  moreover have "charged_on k (d_uuid dv) (claim_charges p) \<le> dev_free k dv" by (rule placed_load [OF pl claim init dv])
  ultimately show ?thesis by (simp add: u)
qed

lemma filtered_inv:
  assumes inv: "cluster_inv fe c" and good: "good_nodes fe" and s: "s \<in> set (cl_pods c)" "p_NodeName s = []"
    and q: "ea_Pod args = Some q" "same_pod q s" and coh: "coherent (filter_view fe c) args"
    and w: "PodPatched p \<in> set (snd (Filter (filter_view fe c) args))"
  shows "cluster_inv fe (put_pod p c)"
proof -
  let ?fe = "filter_view fe c" and ?e = "env_at (fe_env fe) c"
  have "fair ?fe" using good by (simp add: good_nodes_def)
  from filter_patched [OF coh this w [unfolded Filter_def]] q(1) obtain n req where n: "fe_getNode fe (n_Name n) = Inr n"
    and req: "ar_Pod req = q" "ar_Containers req = pod_needs q" and ne: "pod_needs q \<noteq> []" and src: "source_of ?fe liveFilter req n p" by auto
  from src obtain q2 r st ds cfg ep where read: "read_node ?fe n = Inr (ds, cfg, ep)" and st: "map_of st (n_Name n) = Some (ds, cfg, ep)"
    and judge: "judge_node ?fe req (NodeMapByIndexValue (vgpu_pods c)) st n = Keep r"
    and q2: "ar_Pod q2 = q" "ar_Containers q2 = pod_needs q" and wrote: "wrote ?fe liveFilter r q2 p"
    unfolding source_of_def view_fields req by auto
  note info = judged_node [OF inv good n read st judge, unfolded req]
  from wrote obtain opts req' np s' where u: "untold req' = untold q2"
    and al: "Allocate ?e opts \<lparr>as_nodeInfo = rn_info r, as_request = req', as_trace = []\<rparr> = (Placed np, s')"
    and patch: "PatchPodPreAllocatedMetadata ?e (fe_server ?fe) np = (None, p)" unfolding wrote_def view_fields by blast
  have req': "ar_Pod req' = q" "ar_Containers req' = pod_needs q"
    using arg_cong [OF u, of ar_Pod] arg_cong [OF u, of ar_Containers] q2 by (simp_all add: untold_def)
  have gs: "good_pod fe s" "alloc_ok s" and dist: "distinct (map p_UID (cl_pods c))" using inv s(1) by (simp_all add: cluster_inv_def)
  have gq: "good_pod fe q" using gs(1) same_pod_fields(3) [OF q(2)] by simp
  then have small: "pod_small q" by (simp add: good_pod_def)
  have needs: "needs_ok (rn_info r) (pod_needs q)" by (rule info(8) [OF gq])
  have wf: "needs_wf (rn_info r) (pod_needs q)"
    using needs small distinct_pod_needs kinds_pod_needs by (simp add: needs_wf_def pod_small_def)
  obtain f where f: "pod_within (rn_info r) req' (pod_needs q) f" "np = placed_pod (rn_info r) q (map f (pod_needs q))"
    using Allocate_within [OF _ _ _ al] info(1,2) wf req' by auto
  have pl: "placed (rn_info r) req' q f" using info(1,3) small needs ne f(1) by (simp add: placed_def)
  note p = written_pod [OF patch [unfolded f(2)] dist s(1) q(2) s(2)]
  have names: "cdc_Name (f x) = cn_Name x" if "x \<in> set (pod_needs q)" for x using placedD(7) [OF pl that] by (simp add: serves_def)
  have "checkExistCont p = checkExistCont q" using same_pod_fields(6) [OF p(1)] same_pod_fields(6) [OF q(2)] by simp
  then have serving: "serving (map f (pod_needs q)) 0 p"
    using p(3,4) names need_exists by (simp add: serving_def list_all_iff PodDeviceClaim_MarshalText_def)
  have claim: "GetPodDeviceClaim p = map f (pod_needs q)" by (rule serving_claim [OF placed_servable [OF pl] serving])
  have ok: "alloc_ok p" using placed_servable [OF pl] serving placed_claims_ok [OF pl] unfolding alloc_ok_def by blast
  have init: "p_InitContainers p = p_InitContainers q" and uid: "p_UID p = p_UID s" "p_UID q = p_UID s"
    using p(1) q(2) by (simp_all add: same_pod_def)
  have reg: "registers fe (n_Name n) ds" by (rule read_published(1) [OF read n])
  show ?thesis
  proof (rule put_inv [OF inv s(1) uid(1)])
    show "good_pod fe p" using gs(1) same_pod_fields(3) [OF p(1)] by simp
    fix x ds' d k assume x: "registers fe x ds'" "d \<in> set ds'"
    note ol = others_load(2) [OF inv x, of k q]
    show "card_load ?e k (di_Uuid d) x (filter (\<lambda>y. p_UID y \<noteq> p_UID s) (cl_pods c)) + share ?e k (di_Uuid d) x p \<le> dev_total k (NewDevice d)"
    proof (cases "x = n_Name n")
      case True
      then have ds: "ds' = ds" using x(1) reg n by (auto simp: registers_def)
      have "card_load ?e k (di_Uuid d) x (others c q) + charged_on k (di_Uuid d) (claim_charges p) \<le> dev_total k (NewDevice d)"
        using info(6) others_load(2) [OF inv reg, of _ k q] x(2) unfolding True ds
        by (intro placed_room [OF pl claim init info(5,7)]) auto
      moreover have "share ?e k (di_Uuid d) x p \<le> charged_on k (di_Uuid d) (claim_charges p)"
        using charge_nonneg [OF ok] by (simp add: share_def pod_load_def pod_charges_claims)
      ultimately show ?thesis by (simp add: others_def uid(2))
    next
      case False
      then show ?thesis using ol p(5) info(4) by (simp add: share_def others_def uid(2))
    qed
  qed (rule ok)
qed

section \<open>The other steps\<close>

lemma created_inv:
  assumes inv: "cluster_inv fe c" and uid: "p_UID p \<notin> p_UID ` set (cl_pods c)" and good: "good_pod fe p"
    and anno: "anno_or_empty p PodVGPUPreAllocAnnotation = []" "anno_or_empty p PodVGPURealAllocAnnotation = []"
  shows "cluster_inv fe (c\<lparr>cl_pods := cl_pods c @ [p]\<rparr>)"
proof -
  have "GetPodDeviceClaim p = []" using anno by (simp add: GetPodDeviceClaim_def decode_or_empty_def)
  then have "claim_charges p = []" by (simp add: claim_charges_def ReducePodFootprint_def vals_def)
  then have "share e q u x p = 0" for e q u x by (simp add: share_def pod_load_def pod_charges_claims)
  then show ?thesis using inv uid good anno by (auto simp: cluster_inv_def within_capacity_def card_load_def env_at_def alloc_ok_def)
qed

text \<open>Time only ends reservations.\<close>

lemma counts_earlier:
  "t \<le> t' \<Longrightarrow> ShouldCountPodDeviceAllocation (e\<lparr>e_now := t'\<rparr>) p \<Longrightarrow> ShouldCountPodDeviceAllocation (e\<lparr>e_now := t\<rparr>) p"
proof (cases "p_Scheduled p"; cases "HasAnnotation p PodPredicateTimeAnnotation")
  fix cond str assume "t \<le> t'" "p_Scheduled p = Some cond" "HasAnnotation p PodPredicateTimeAnnotation = Some str"
    and "ShouldCountPodDeviceAllocation (e\<lparr>e_now := t'\<rparr>) p"
  then show "ShouldCountPodDeviceAllocation (e\<lparr>e_now := t\<rparr>) p"
    by (cases "parse_int str"; cases "HasAnnotation p SchedulerStuckGracePeriodAnnotation") (auto simp: ShouldCountPodDeviceAllocation_def split: if_splits option.splits)
qed (simp_all add: ShouldCountPodDeviceAllocation_def split: if_splits)

lemma ticked_inv:
  assumes inv: "cluster_inv fe c" and t: "cl_now c \<le> t"
  shows "cluster_inv fe (c\<lparr>cl_now := t\<rparr>)"
proof -
  let ?c = "c\<lparr>cl_now := t\<rparr>"
  have "share (env_at (fe_env fe) ?c) q u x p \<le> share (env_at (fe_env fe) c) q u x p" if "p \<in> set (cl_pods c)" for q u x p
    using counts_earlier [OF t] charge_nonneg [of p q u] that inv
    by (auto simp: share_def pod_load_def pod_charges_claims env_at_def cluster_inv_def)
  then have "card_load (env_at (fe_env fe) ?c) q u x (cl_pods c) \<le> card_load (env_at (fe_env fe) c) q u x (cl_pods c)" for q u x
    unfolding card_load_def by (intro sum_list_mono)
  then have "within_capacity fe ?c" using inv unfolding cluster_inv_def within_capacity_def by simp (meson order_trans)
  then show ?thesis using inv by (simp add: cluster_inv_def)
qed

lemma deleted_inv:
  assumes inv: "cluster_inv fe c"
  shows "cluster_inv fe (c\<lparr>cl_pods := filter (\<lambda>p. p_UID p \<noteq> uid) (cl_pods c)\<rparr>)"
proof -
  let ?c = "c\<lparr>cl_pods := filter (\<lambda>p. p_UID p \<noteq> uid) (cl_pods c)\<rparr>"
  have "card_load (env_at (fe_env fe) ?c) q (di_Uuid d) x (cl_pods ?c) \<le> dev_total q (NewDevice d)" if "registers fe x ds" "d \<in> set ds" for x ds d q
    using others_load(2) [OF inv that, of q "(undefined :: pod)\<lparr>p_UID := uid\<rparr>"] by (simp add: others_def env_at_def)
  then have "within_capacity fe ?c" by (simp add: within_capacity_def)
  then show ?thesis using inv by (simp add: cluster_inv_def distinct_map_filter)
qed

lemma bind_view_fields:
  "be_env (bind_view be c) = env_at (be_env be) c" "merging (be_server (bind_view be c))"
  "p_NodeName p \<noteq> [] \<Longrightarrow> be_bind (bind_view be c) p node \<noteq> None"
  by (auto simp: bind_view_def merging_def split: sum.splits)

lemma step_inv:
  assumes "step fe be c c'" "cluster_inv fe c" "good_nodes fe" "be_env be = fe_env fe"
  shows "cluster_inv fe c'"
  using assms(1)
proof cases
  case (created p)
  then show ?thesis using created_inv [OF assms(2)] by simp
next
  case (filtered s args q p)
  then show ?thesis using filtered_inv [OF assms(2,3)] by simp
next
  case (bound args s err es)
  have d: "distinct (map p_UID (cl_pods c))" using assms(2) by (simp add: cluster_inv_def)
  have s: "s \<in> set (cl_pods c)" "p_UID s = ba_PodUID args" using bound(2) stored_iff [OF d] by auto
  have "tame (env_at (fe_env fe) c) s (foldl bind_write s es)"
    using bind_tame [OF bound(4,3) s(2) bind_view_fields(2,3)] by (simp add: bind_view_fields(1) assms(4))
  then show ?thesis unfolding bound(1) by (rule tame_inv [OF assms(2) s(1)])
next
  case (served s cdc pm)
  show ?thesis unfolding served(1) by (rule tame_inv [OF assms(2) served(2) served_tame [OF served(4,5,3)]])
next
  case (marked s cond)
  show ?thesis unfolding marked(1) by (rule tame_inv [OF assms(2) marked(2) marked_tame [OF marked(3)]])
next
  case (ran s ph)
  show ?thesis unfolding ran(1) by (rule tame_inv [OF assms(2) ran(2) ran_tame [OF ran(3)]])
next
  case (deleted uid)
  then show ?thesis using deleted_inv [OF assms(2)] by simp
next
  case (ticked t)
  then show ?thesis using ticked_inv [OF assms(2)] by simp
qed

section \<open>Reachable states\<close>

inductive reach :: "filter_env \<Rightarrow> bind_env \<Rightarrow> cluster \<Rightarrow> bool" for fe be where
  start: "reach fe be \<lparr>cl_now = t, cl_pods = []\<rparr>"
| next_step: "reach fe be c \<Longrightarrow> step fe be c c' \<Longrightarrow> reach fe be c'"

lemma reach_inv:
  assumes "reach fe be c" "good_nodes fe" "be_env be = fe_env fe"
  shows "cluster_inv fe c"
  using assms(1)
proof (induction rule: reach.induct)
  case (start t)
  have "0 \<le> dev_total q (NewDevice d)" if "registers fe x ds" "d \<in> set ds" for q d x ds
  proof -
    have "good_register ds" using that(1) assms(2) unfolding good_nodes_def by blast
    then have "dev_ok (NewDevice d)" using that(2) by (simp add: good_register_def register_ok_def)
    then show ?thesis using dev_free_range [of "NewDevice d" q] by linarith
  qed
  then show ?case by (auto simp: cluster_inv_def within_capacity_def card_load_def)
next
  case (next_step c c')
  show ?case by (rule step_inv [OF next_step.hyps(2) next_step.IH assms(2,3)])
qed

text \<open>The pods that hold devices of a node: bound to it, or holding a reservation on it that counts.\<close>

definition holders :: "filter_env \<Rightarrow> string \<Rightarrow> cluster \<Rightarrow> pod list" where
  "holders fe x c = filter (\<lambda>p. IsVGPUResourcePod p \<and> PodPlanSchedulingNode p = x \<and> \<not> over p \<and>
     ShouldCountPodDeviceAllocation (env_at (fe_env fe) c) p) (cl_pods c)"

lemma charge_covers:
  assumes "alloc_ok p" "subseq run (GetPodDeviceClaim p)" "can_run p run"
  shows "usage_on q u run \<le> charged_on q u (claim_charges p)"
proof (cases "podHasVGPUInitContainer p")
  case True
  then show ?thesis using footprint_covers [OF alloc_claims_ok [OF assms(1)] assms(2,3), of q u]
    by (simp add: claim_charges_def charged_keyed [OF keyed_Reduce])
next
  case False
  have ok: "claims_ok (GetPodDeviceClaim p)" by (rule alloc_claims_ok [OF assms(1)])
  have "usage_on q u run \<le> usage_on q u (GetPodDeviceClaim p)"
    using assms(2) claims_okD(1) [OF ok, of _ q u] unfolding usage_on_def
    by (induction rule: list_emb.induct) (auto intro: add_increasing intro!: sum_list_nonneg)
  then show ?thesis using False by (simp add: claim_charges_def charged_claims)
qed

lemma holders_load:
  assumes "\<forall>p \<in> set (cl_pods c). alloc_ok p"
    and "\<forall>p \<in> set (holders fe x c). subseq (run p) (GetPodDeviceClaim p) \<and> can_run p (run p)"
  shows "(\<Sum>p \<leftarrow> holders fe x c. usage_on q u (run p)) \<le> card_load (env_at (fe_env fe) c) q u x (cl_pods c)"
proof -
  have "(\<Sum>p \<leftarrow> filter (\<lambda>p. IsVGPUResourcePod p \<and> PodPlanSchedulingNode p = x \<and> \<not> over p \<and>
      ShouldCountPodDeviceAllocation e p) ps. usage_on q u (run p)) \<le> card_load e q u x ps"
    if "\<forall>p \<in> set ps. alloc_ok p \<and> (IsVGPUResourcePod p \<and> PodPlanSchedulingNode p = x \<and> \<not> over p \<and>
      ShouldCountPodDeviceAllocation e p \<longrightarrow> subseq (run p) (GetPodDeviceClaim p) \<and> can_run p (run p))" for ps e
    using that
  proof (induction ps)
    case (Cons p ps)
    then show ?case using share_nonneg [of p e q u x] charge_covers [of p "run p" q u]
      by (auto simp: card_load_def share_def pod_load_def pod_charges_claims)
  qed (simp add: card_load_def)
  then show ?thesis unfolding holders_def using assms by (simp add: holders_def)
qed


end
