(* ===== verification/Float_Code.thy ===== *)
theory Float_Code
  imports Float64
begin

text \<open>Rounding computed on the numerator and the denominator, for evaluation.\<close>

function zbitlen :: "int \<Rightarrow> int" where
  "zbitlen n = (if n \<le> 0 then 0 else 1 + zbitlen (n div 2))"
  by auto
termination by (relation "measure nat") auto

declare zbitlen.simps [simp del]

lemma zbitlen_bitlen: "int (bitlen (nat n)) = zbitlen n"
proof (induction n rule: zbitlen.induct)
  case (1 n)
  show ?case
  proof (cases "n \<le> 0")
    case False
    then have "bitlen (nat n) = Suc (bitlen (nat n div 2))" using bitlen.simps [of "nat n"] by simp
    also have "nat n div 2 = nat (n div 2)" using False by (simp add: nat_div_distrib)
    finally show ?thesis using 1 False zbitlen.simps [of n] by simp
  qed (simp add: zbitlen.simps [of n])
qed

definition round_div :: "int \<Rightarrow> int \<Rightarrow> int" where
  "round_div n d = (let f = n div d; r = 2 * (n mod d) in if r < d then f else if d < r then f + 1 else if even f then f else f + 1)"

lemma round_div_even: "0 < d \<Longrightarrow> round_even (of_int n / of_int d) = round_div n d"
proof -
  assume d: "0 < d"
  have f: "\<lfloor>(of_int n / of_int d :: rat)\<rfloor> = n div d" by (rule floor_divide_of_int_eq)
  have "(of_int n :: rat) = of_int d * of_int (n div d) + of_int (n mod d)" by (metis of_int_add of_int_mult mult_div_mod_eq)
  then have r: "(of_int n / of_int d - of_int (n div d) :: rat) = of_int (n mod d) / of_int d" using d by (simp add: field_simps)
  have half: "(of_int k / of_int d < (1 / 2 :: rat)) = (2 * k < d)" "((1 / 2 :: rat) < of_int k / of_int d) = (d < 2 * k)" for k
  proof -
    have "(of_int k / of_int d < (1 / 2 :: rat)) = (of_int (2 * k) < (of_int d :: rat))" "((1 / 2 :: rat) < of_int k / of_int d) = ((of_int d :: rat) < of_int (2 * k))"
      using d by (simp_all add: field_simps)
    then show "(of_int k / of_int d < (1 / 2 :: rat)) = (2 * k < d)" "((1 / 2 :: rat) < of_int k / of_int d) = (d < 2 * k)"
      unfolding of_int_less_iff .
  qed
  show ?thesis unfolding round_even_def round_div_def Let_def f r half by simp
qed

definition zlog2 :: "int \<Rightarrow> int \<Rightarrow> int" where
  "zlog2 p q = (if q \<le> p then zbitlen (p div q) - 1 else - zbitlen ((q - 1) div p))"

lemma zlog2_ilog2:
  assumes "0 < p" "0 < q"
  shows "ilog2 (of_int p / of_int q) = zlog2 p q"
proof -
  have a: "(1 \<le> (of_int p / of_int q :: rat)) = (q \<le> p)" using assms by simp
  have c: "\<lceil>1 / (of_int p / of_int q :: rat)\<rceil> - 1 = (q - 1) div p"
  proof -
    have "\<lceil>(of_int q / of_int p :: rat)\<rceil> = - (- q div p)" by (rule ceiling_divide_eq_div)
    also have "\<dots> = (q - 1) div p + 1"
    proof -
      obtain t r where t: "t = (q - 1) div p" and r: "r = (q - 1) mod p" by blast
      have "q = p * t + r + 1" "0 \<le> r" "r < p" using assms mult_div_mod_eq [of p "q - 1"] unfolding t r by simp_all
      then have "- q div p = - t - 1" by (intro int_div_pos_eq [where r = "p - 1 - r"]) (simp_all add: algebra_simps)
      then show ?thesis unfolding t by simp
    qed
    finally show ?thesis by simp
  qed
  show ?thesis unfolding ilog2_def zlog2_def a c by (simp add: zbitlen_bitlen floor_divide_of_int_eq)
qed


lemma rnd_code [code]:
  "rnd x = (case quotient_of x of (p, q) \<Rightarrow>
     if p = 0 then 0
     else let e = zlog2 \<bar>p\<bar> q - 52 in
       of_int (sgn p) * (if 0 \<le> e then of_int (round_div \<bar>p\<bar> (q * 2 ^ nat e) * 2 ^ nat e)
                         else of_int (round_div (\<bar>p\<bar> * 2 ^ nat (- e)) q) / of_int (2 ^ nat (- e))))"
proof (cases "quotient_of x")
  case (Pair p q)
  have q: "0 < q" and x: "x = of_int p / of_int q" using Pair quotient_of_denom_pos quotient_of_div by blast+
  show ?thesis
  proof (cases "p = 0")
    case False
    define e where "e = zlog2 \<bar>p\<bar> q - 52"
    have ax: "\<bar>x\<bar> = of_int \<bar>p\<bar> / of_int q" and sx: "sgn x = of_int (sgn p)" using q by (simp_all add: x abs_divide sgn_if zero_less_divide_iff)
    have e: "ilog2 \<bar>x\<bar> - 52 = e" unfolding ax e_def using zlog2_ilog2 [of "\<bar>p\<bar>" q] False q by simp
    have x0: "x \<noteq> 0" using False q by (simp add: x)
    have "of_int (round_even (\<bar>x\<bar> / 2 powi e)) * (2 :: rat) powi e =
      (if 0 \<le> e then of_int (round_div \<bar>p\<bar> (q * 2 ^ nat e) * 2 ^ nat e)
       else of_int (round_div (\<bar>p\<bar> * 2 ^ nat (- e)) q) / of_int (2 ^ nat (- e)))"
    proof (cases "0 \<le> e")
      case True
      then have w: "(2 :: rat) powi e = of_int (2 ^ nat e)" using powi_nat [of "nat e"] by simp
      have "\<bar>x\<bar> / 2 powi e = of_int \<bar>p\<bar> / of_int (q * 2 ^ nat e)" unfolding w ax by simp
      then show ?thesis using True round_div_even [of "q * 2 ^ nat e" "\<bar>p\<bar>"] q by (simp add: w)
    next
      case neg: False
      then have w: "(2 :: rat) powi e = 1 / of_int (2 ^ nat (- e))" using powi_minus [of "nat (- e)"] by simp
      have "\<bar>x\<bar> / 2 powi e = of_int (\<bar>p\<bar> * 2 ^ nat (- e)) / of_int q" unfolding w ax by simp
      then show ?thesis using neg round_div_even [OF q, of "\<bar>p\<bar> * 2 ^ nat (- e)"] by (simp add: w)
    qed
    then show ?thesis unfolding rnd_def Let_def e sx using x0 False by (simp add: Pair e_def)
  qed (simp add: Pair x rnd_def)
qed

end
