(* ===== verification/Scenario.thy ===== *)
theory Scenario
  imports Cluster_Safe Float_Code
begin

text \<open>
  A concrete cluster: two nodes with one card each, the second of which has no room for the pod
  that asks for half a card. The verbs are evaluated on it.
\<close>

definition ex_card :: "string \<Rightarrow> int \<Rightarrow> device_info" where
  "ex_card u mem = \<lparr>di_Id = 0, di_Type = ''A100'', di_Uuid = u, di_Core = 100, di_Memory = mem, di_Number = 10,
     di_Numa = 0, di_Mig = False, di_BusId = [], di_Capability = 8, di_Healthy = True\<rparr>"

definition ex_config :: node_config where
  "ex_config = \<lparr>nc_DeviceSplit = 10, nc_CoresScaling = 1, nc_MemoryFactor = 1, nc_MemoryScaling = 1\<rparr>"

definition ex_env :: env where
  "ex_env = \<lparr>e_decodeDevices = (\<lambda>v. if v = ''large'' then Some [ex_card ''GPU-a'' 4096] else if v = ''small'' then Some [ex_card ''GPU-b'' 512] else None),
     e_decodeConfig = (\<lambda>v. if v = ''config'' then Some ex_config else None), e_decodeTopology = (\<lambda>v. None), e_decodeRail = (\<lambda>v. None),
     e_parseDuration = (\<lambda>v. None), e_now = 0, e_stuckGracePeriod = 60000000000\<rparr>"

definition ex_net :: net_env where
  "ex_net = \<lparr>ne_parseURL = (\<lambda>v. Inl v), ne_urlString = (\<lambda>a b c. a @ b @ c), ne_parseIP = (\<lambda>v. None), ne_decodeEndpoints = (\<lambda>v. Inl v),
     ne_encodeEndpoints = (\<lambda>i. [])\<rparr>"

definition ex_host :: "string \<Rightarrow> string \<Rightarrow> node" where
  "ex_host name register = \<lparr>n_Name = name, n_Annotations = [(NodeDeviceRegisterAnnotation, register), (NodeConfigInfoAnnotation, ''config'')],
     n_Labels = [], n_Allocatable = [(VGPUNumberResourceName, 10)], n_Deleting = False, n_Taints = []\<rparr>"

definition ex_get :: "string \<Rightarrow> string + node" where
  "ex_get name = (if name = ''n1'' then Inr (ex_host ''n1'' ''large'') else if name = ''n2'' then Inr (ex_host ''n2'' ''small'') else Inl ''not found'')"

definition ex_filter_env :: filter_env where
  "ex_filter_env = \<lparr>fe_env = ex_env, fe_net = ex_net, fe_getNode = ex_get, fe_listNodes = (\<lambda>sel. Inr (filter sel [ex_host ''n1'' ''large'', ex_host ''n2'' ''small''])),
     fe_parseSelector = (\<lambda>v. Inl v), fe_untolerated = (\<lambda>ts tols hard. list_ex hard ts), fe_vgpuPods = Inr [], fe_gangPods = (\<lambda>g. Inr []),
     fe_ownerPods = (\<lambda>u. Inr []), fe_server = (\<lambda>p pm. Inr (merge_patch p pm)), fe_ctxLocked = None, fe_ctxCommit = None, fe_workers = 2,
     fe_finish = (\<lambda>k. [0 ..< k]), fe_gpuTopology = False, fe_decodeText = id, fe_scalingText = (\<lambda>x. []), fe_serverErrorText = (\<lambda>err. [])\<rparr>"

definition ex_tenant :: pod where
  "ex_tenant = empty_pod\<lparr>p_Name := ''job'', p_Namespace := ''ns'', p_UID := ''u1'', p_Containers := [\<lparr>c_Name = ''main'',
     c_Limits = [(VGPUNumberResourceName, 1), (VGPUCoreResourceName, 50), (VGPUMemoryResourceName, 2048)], c_Restartable = False\<rparr>]\<rparr>"

definition ex_args :: extender_args where
  "ex_args = \<lparr>ea_Pod = Some ex_tenant, ea_Nodes = None, ea_NodeNames = Some [''n1'', ''n2'']\<rparr>"

definition ex_cluster :: cluster where
  "ex_cluster = \<lparr>cl_now = 7, cl_pods = [ex_tenant]\<rparr>"

definition ex_reserved :: pod where
  "ex_reserved = ex_tenant\<lparr>p_Annotations := [(PodPredicateNodeAnnotation, ''n1''), (PodVGPUPreAllocAnnotation, ''main[0_GPU-a_50_2048]''),
       (PodVGPURealAllocAnnotation, []), (PodPredicateTimeAnnotation, ''7'')],
     p_Labels := [(PodMetricsNodeLabel, ''n1''), (PodAssignedPhaseLabel, ''filtering'')]\<rparr>"

lemma ex_filter:
  "Filter (filter_view ex_filter_env ex_cluster) ex_args =
    (\<lparr>fx_Nodes = None, fx_NodeNames = Some [''n1''], fx_FailedNodes = [(''n2'', ''Insufficient vGPU memory'')], fx_Error = None\<rparr>,
     [PodPatched ex_reserved, PodMutated ex_reserved, PodPolicy ''none'' ''none'' ''none'',
      EventSent ''FilteringSucceed'' ''Successfully matched node n1'', NodeRejected ''filter'' InsufficientVGPUMemory, VerbObserved ''filter'' ''fit''])"
  by code_simp


section \<open>The environment is as the theorems ask\<close>

lemma ex_fair: "fair ex_filter_env" "fair (reorder g ex_filter_env) = (\<forall>k. mset (g k) = mset [0 ..< k])"
  by (simp_all add: fair_def ex_filter_env_def)

lemma ex_sound: "sound_cache ex_filter_env"
  by (auto simp: sound_cache_def ex_filter_env_def ex_get_def ex_host_def split: if_splits)

lemma ex_registers: "registers ex_filter_env x ds \<longleftrightarrow> (x = ''n1'' \<and> ds = [ex_card ''GPU-a'' 4096]) \<or> (x = ''n2'' \<and> ds = [ex_card ''GPU-b'' 512])"
proof -
  have "ParseNodeDeviceInfo ex_env ''large'' = Some [ex_card ''GPU-a'' 4096]" "ParseNodeDeviceInfo ex_env ''small'' = Some [ex_card ''GPU-b'' 512]"
    by code_simp+
  then show ?thesis by (auto simp: registers_def ex_filter_env_def ex_get_def ex_host_def node_annotation_def)
qed

lemma ex_good: "good_nodes ex_filter_env"
proof -
  have "good_register [ex_card u m]" if "free_of '' _,;]'' u" "0 \<le> m" "m \<le> 2 ^ 40" for u m
  proof -
    have "dev_total q (NewDevice (ex_card u m)) \<le> 2 ^ 40" for q using that by (cases q) (simp_all add: NewDevice_def ex_card_def GetTotalNumber_def GetTotalCores_def GetTotalMemory_def)
    moreover have "dev_ok (NewDevice (ex_card u m))" using that by (simp add: dev_ok_def counter_def NewDevice_def ex_card_def max_int_def)
    moreover have "sum_list (map (dev_total q) (filter schedulable (map NewDevice [ex_card u m]))) \<le> max_int" for q
      using calculation(1) [of q] by (auto simp: max_int_def)
    ultimately show ?thesis using that by (simp add: good_register_def register_ok_def ex_card_def)
  qed
  moreover have "free_of '' _,;]'' ''GPU-a''" "free_of '' _,;]'' ''GPU-b''" by code_simp+
  ultimately show ?thesis by (auto simp: good_nodes_def ex_fair(1) ex_registers)
qed

lemma ex_needs: "pod_needs ex_tenant = [\<lparr>cn_Name = ''main'', cn_Kind = ContainerKindApp, cn_Restartable = False, cn_Number = 1, cn_Cores = 50, cn_Memory = 2048\<rparr>]"
  by code_simp

lemma ex_good_pod: "good_pod ex_filter_env ex_tenant"
proof -
  have "pod_small ex_tenant" by (auto simp: pod_small_def ex_needs free_of_def pod_names_ok_def) (simp_all add: ex_tenant_def empty_pod_def)
  moreover have "nc_MemoryFactor cfg = 1" if "NodeConfigInfo_Decode ex_env v = Some cfg" for v cfg
    using that by (auto simp: NodeConfigInfo_Decode_def ex_env_def ex_config_def split: if_splits)
  ultimately show ?thesis by (auto simp: good_pod_def ex_needs max_int_def ex_filter_env_def)
qed

lemma ex_coherent: "coherent (filter_view ex_filter_env ex_cluster) ex_args"
proof -
  have "sound_cache (filter_view ex_filter_env ex_cluster)" using ex_sound by (simp add: sound_cache_def filter_view_def)
  then show ?thesis by (auto simp: coherent_def candidates_def ex_args_def filter_view_def ex_filter_env_def ex_get_def ex_host_def)
qed

section \<open>From creation to binding\<close>

definition ex_bind_env :: bind_env where
  "ex_bind_env = \<lparr>be_env = ex_env, be_get = (\<lambda>ns name. if name = ''job'' then Inr ex_tenant else Inl (None, ''not found'')),
     be_server = (\<lambda>p pm. Inr (merge_patch p pm)), be_bind = (\<lambda>p node. None)\<rparr>"

definition ex_binding :: binding_args where
  "ex_binding = \<lparr>ba_PodName = ''job'', ba_PodNamespace = ''ns'', ba_PodUID = ''u1'', ba_Node = ''n1''\<rparr>"

definition ex_filtered :: cluster where
  "ex_filtered = \<lparr>cl_now = 7, cl_pods = [ex_reserved]\<rparr>"

definition ex_bound :: pod where
  "ex_bound = (case Bind (bind_view ex_bind_env ex_filtered) ex_binding of (err, es) \<Rightarrow> foldl bind_write ex_reserved es)"

definition ex_final :: cluster where
  "ex_final = \<lparr>cl_now = 7, cl_pods = [ex_bound]\<rparr>"

lemma ex_bind: "fst (Bind (bind_view ex_bind_env ex_filtered) ex_binding) = None" "p_NodeName ex_bound = ''n1''" "p_UID ex_bound = ''u1''"
  by code_simp+

lemma ex_reach: "reach ex_filter_env ex_bind_env ex_final"
proof -
  have "step ex_filter_env ex_bind_env \<lparr>cl_now = 7, cl_pods = []\<rparr> ex_cluster"
    using step.created [of ex_tenant "\<lparr>cl_now = 7, cl_pods = []\<rparr>" ex_filter_env ex_bind_env] ex_good_pod
    by (simp add: ex_cluster_def ex_tenant_def empty_pod_def anno_or_empty_def HasAnnotation_def)
  moreover have "step ex_filter_env ex_bind_env ex_cluster ex_filtered"
  proof -
    have "PodPatched ex_reserved \<in> set (snd (Filter (filter_view ex_filter_env ex_cluster) ex_args))" by (simp add: ex_filter)
    from step.filtered [OF _ _ _ _ ex_coherent this, of ex_tenant ex_tenant ex_bind_env]
    show ?thesis by (simp add: ex_cluster_def ex_args_def ex_filtered_def put_pod_def ex_reserved_def ex_tenant_def empty_pod_def)
  qed
  moreover have "step ex_filter_env ex_bind_env ex_filtered ex_final"
  proof -
    obtain err es where b: "Bind (bind_view ex_bind_env ex_filtered) ex_binding = (err, es)" by fastforce
    have "stored ex_filtered (ba_PodUID ex_binding) = Some ex_reserved"
      "be_get (bind_view ex_bind_env ex_filtered) (ba_PodNamespace ex_binding) (ba_PodName ex_binding) = Inr ex_reserved" by code_simp+
    from step.bound [OF this b] have "step ex_filter_env ex_bind_env ex_filtered (put_pod ex_bound ex_filtered)" by (simp add: ex_bound_def b)
    moreover have "p_UID ex_reserved = ''u1''" by code_simp
    ultimately show ?thesis by (simp add: put_pod_def ex_filtered_def ex_final_def ex_bind(3))
  qed
  ultimately show ?thesis using reach.start reach.next_step by metis
qed

section \<open>The theorems at work\<close>

lemma ex_holders:
  "map p_UID (holders ex_filter_env ''n1'' ex_final) = [''u1'']"
  "list_all (\<lambda>p. can_run p (GetPodDeviceClaim p)) (holders ex_filter_env ''n1'' ex_final)"
  by code_simp+


lemma ex_view:
  "sound_cache (filter_view ex_filter_env ex_cluster)" "fair (filter_view ex_filter_env ex_cluster)" "distinct (candidates ex_args)"
  "ea_Pod ex_args = Some ex_tenant" "pod_needs ex_tenant \<noteq> []" "candidates ex_args = [''n1'', ''n2'']"
  using ex_coherent by (simp_all add: coherent_def ex_fair ex_needs) (simp_all add: ex_args_def candidates_def)

theorem Filter_worker_order_witness:
  "fx_NodeNames (fst (filter_nodes (reorder (\<lambda>k. rev [0 ..< k]) (filter_view ex_filter_env ex_cluster)) ex_args liveFilter)) = Some [''n1'']"
proof -
  have "fair (reorder (\<lambda>k. rev [0 ..< k]) (filter_view ex_filter_env ex_cluster))" using ex_view(2) by (simp add: fair_def)
  from Filter_worker_order [OF ex_view(1,2) this ex_view(3), of liveFilter] show ?thesis
    using ex_filter by (simp add: same_answer_def Filter_def)
qed

theorem Filter_accounts_witness:
  "fx_Error (fst (Filter (filter_view ex_filter_env ex_cluster) ex_args)) = None \<and>
   set (NodeNamesOfResult (fst (Filter (filter_view ex_filter_env ex_cluster) ex_args))) \<union>
   set (keys (fx_FailedNodes (fst (Filter (filter_view ex_filter_env ex_cluster) ex_args)))) = {''n1'', ''n2''}"
proof -
  have "fx_Error (fst (Filter (filter_view ex_filter_env ex_cluster) ex_args)) = None" by (simp add: ex_filter)
  with Filter_accounts [OF ex_view(1-5) refl, of liveFilter] show ?thesis by (simp add: Filter_def ex_view(6))
qed

lemma ex_dry_run: "fx_Error (fst (FilterDryRun (filter_view ex_filter_env ex_cluster) ex_args)) = None"
  by code_simp


theorem Bind_reserved_witness:
  "fst (Bind (bind_view ex_bind_env ex_filtered) ex_binding) = None \<and>
   (\<exists>p. BoundTo p ''n1'' \<in> set (snd (Bind (bind_view ex_bind_env ex_filtered) ex_binding)) \<and> p_UID p = ''u1'')"
proof -
  have args: "ba_Node ex_binding = ''n1''" "ba_PodUID ex_binding = ''u1''" by (simp_all add: ex_binding_def)
  from Bind_reserved [OF bind_view_fields(2) surjective_pairing, of ex_bind_env ex_filtered ex_binding] show ?thesis
    using ex_bind(1) unfolding args by blast
qed

end
