(* ===== verification/Preempt.thy ===== *)
theory Preempt
  imports Filter_Verb
begin

text \<open>
  The preempt verb of the scheduler extender (\<^verbatim>\<open>pkg/scheduler/preempt/preempt_predicate.go\<close>): it checks
  the victims the kube-scheduler proposes on each node against the allocator, strips the
  protected ones and adds victims of lower priority until the pod fits. The parallel loops write
  disjoint keys of a map under a lock, so they are one loop over the keys in batch order. A nil
  pointer is \<^term>\<open>None\<close> and a panic of the call is the answer \<^term>\<open>None\<close>.
\<close>

section \<open>The data of a call\<close>

record meta_victims =
  mv_Pods :: "string option list"
  mv_NumPDBViolations :: int

record victims =
  vi_Pods :: "pod option list"
  vi_NumPDBViolations :: int

record preemption_args =
  pa_Pod :: "pod option"
  pa_NodeNameToVictims :: "(string, victims option) gomap"
  pa_NodeNameToMetaVictims :: "(string, meta_victims option) gomap"

record disruption_budget =
  pdb_Deleting :: bool
  pdb_DisruptedPods :: "string list"
  pdb_DisruptionsAllowed :: int

text \<open>
  What the verb calls: the listers it shares with the filter, the pods by UID, the disruption
  budgets of a pod, and of the Kubernetes libraries whether a pod is critical, may be preempted
  by another, its priority, the kind of its controller and its creation time.
\<close>

record preempt_env =
  pe_filter :: filter_env
  pe_byUid :: "string \<Rightarrow> string + pod list"
  pe_budgets :: "(pod \<Rightarrow> string + disruption_budget option list) option"
  pe_recorder :: bool
  pe_gpuTopology :: bool
  pe_procs :: int
  pe_isCritical :: "pod \<Rightarrow> bool"
  pe_Preemptable :: "pod \<Rightarrow> pod \<Rightarrow> bool"
  pe_priority :: "pod \<Rightarrow> int"
  pe_ownerKind :: "pod \<Rightarrow> string option"
  pe_created :: "pod \<Rightarrow> int"

datatype preempt_effect =
    GangDisrupted "string list"
  | PreemptionFailed int
  | PreemptRejected code
  | PreemptProtected string
  | VictimsAdded int
  | PreemptObserved string

section \<open>The two encodings of the victims\<close>

text \<open>The victims for the log line, which every call computes first. It reads the UID of every pod.\<close>

definition NodeVictims :: "preemption_args \<Rightarrow> (string, meta_victims option) gomap option" where
  "NodeVictims args =
     (if pa_NodeNameToMetaVictims args \<noteq> [] then Some (pa_NodeNameToMetaVictims args)
      else if list_ex (\<lambda>(node, v). case v of None \<Rightarrow> False | Some v \<Rightarrow> None \<in> set (vi_Pods v)) (pa_NodeNameToVictims args)
      then None
      else Some (List.map_filter (\<lambda>(node, v). map_option (\<lambda>v.
             (node, Some \<lparr>mv_Pods = map (map_option p_UID) (vi_Pods v), mv_NumPDBViolations = vi_NumPDBViolations v\<rparr>)) v)
           (pa_NodeNameToVictims args)))"

definition passthrough :: "preemption_args \<Rightarrow> (string, meta_victims option) gomap" where
  "passthrough args =
     (if pa_NodeNameToMetaVictims args \<noteq> [] then pa_NodeNameToMetaVictims args
      else List.map_filter (\<lambda>(node, v). map_option (\<lambda>v.
             (node, Some \<lparr>mv_Pods = map Some (List.map_filter (map_option p_UID) (vi_Pods v)),
                          mv_NumPDBViolations = vi_NumPDBViolations v\<rparr>)) v)
           (pa_NodeNameToVictims args))"

text \<open>The pods behind the UIDs of a node; a UID that is not in the cache is skipped.\<close>

definition resolve_pods :: "preempt_env \<Rightarrow> string option list \<Rightarrow> pod list" where
  "resolve_pods pe uids =
     List.map_filter (\<lambda>mp. case mp of
         None \<Rightarrow> None
       | Some uid \<Rightarrow> (case pe_byUid pe uid of Inl err \<Rightarrow> None | Inr [] \<Rightarrow> None | Inr (p # ps) \<Rightarrow> Some p)) uids"

definition resolveVictimsMap :: "preempt_env \<Rightarrow> preemption_args \<Rightarrow> (string, victims option) gomap" where
  "resolveVictimsMap pe args =
     (if pa_NodeNameToVictims args \<noteq> [] then pa_NodeNameToVictims args
      else List.map_filter (\<lambda>(node, mv). case mv of
             None \<Rightarrow> None
           | Some mv \<Rightarrow>
               let pods = resolve_pods pe (mv_Pods mv) in
               if pods = [] then None
               else Some (node, Some \<lparr>vi_Pods = map Some pods, vi_NumPDBViolations = mv_NumPDBViolations mv\<rparr>))
           (pa_NodeNameToMetaVictims args))"

section \<open>Who may be evicted\<close>

text \<open>The label of the rule that protects a pod, if one does.\<close>

definition isProtectedFromPreemption :: "preempt_env \<Rightarrow> pod \<Rightarrow> string \<Rightarrow> string option" where
  "isProtectedFromPreemption pe p gangName =
     (if p_Deleting p then Some ''terminating''
      else if p_Phase p = PodSucceeded \<or> p_Phase p = PodFailed then Some ''terminating''
      else if pe_isCritical pe p then Some ''critical''
      else if pe_ownerKind pe p = Some ''DaemonSet'' then Some ''daemonset''
      else if p_NodeName p = [] \<and> ShouldCountPodDeviceAllocation (fe_env (pe_filter pe)) p then Some ''binding''
      else if gangName \<noteq> [] \<and> PodGangKey p = Some gangName then Some ''gang_sibling''
      else None)"

definition isPodAlreadyDisrupted :: "pod \<Rightarrow> disruption_budget \<Rightarrow> bool" where
  "isPodAlreadyDisrupted p pdb = (p_Name p \<in> set (pdb_DisruptedPods pdb))"

definition violationOfPDBs :: "preempt_env \<Rightarrow> pod \<Rightarrow> bool" where
  "violationOfPDBs pe p =
     (case pe_budgets pe of
        None \<Rightarrow> False
      | Some lister \<Rightarrow>
          (case lister p of
             Inl err \<Rightarrow> False
           | Inr budgets \<Rightarrow>
               list_ex (\<lambda>b. case b of
                   None \<Rightarrow> False
                 | Some pdb \<Rightarrow> \<not> pdb_Deleting pdb \<and> \<not> isPodAlreadyDisrupted p pdb \<and> pdb_DisruptionsAllowed pdb \<le> 0) budgets))"

definition pdbViolationsUpperBound :: "int \<Rightarrow> int \<Rightarrow> int \<Rightarrow> int" where
  "pdbViolationsUpperBound originalCount keptLen addedLen =
     (if keptLen < originalCount then keptLen else originalCount) + addedLen"

section \<open>Whether the pod fits\<close>

definition preempt_option :: "string set \<Rightarrow> node_info_option" where
  "preempt_option excluded = \<lparr>no_excludedUids = excluded, no_nodePods = [], no_nodeConfig = None, no_nodeDevice = None,
     no_resetUsed = True, no_resetPods = True, no_gpuTopologyEnabled = False\<rparr>"

text \<open>
  The node is charged afresh with the pods that are not excluded and a simulating allocator is
  asked; \<^term>\<open>None\<close> is a fit. The node and the request as the allocator leaves them are returned.
\<close>

definition canAllocate ::
  "env \<Rightarrow> pod list \<Rightarrow> string set \<Rightarrow> node_info \<times> allocation_request \<Rightarrow> code option \<times> node_info \<times> allocation_request" where
  "canAllocate e allVGPUPods excluded s =
     (case s of (n, req) \<Rightarrow>
        let n1 = AddPodsUsedResources e n allVGPUPods (preempt_option excluded) in
        case Allocate e \<lparr>ao_recorder = False, ao_simulate = True\<rparr> \<lparr>as_nodeInfo = n1, as_request = req, as_trace = []\<rparr> of
          (Failed err, t) \<Rightarrow> (Some AllocatorInternalError, as_nodeInfo t, as_request t)
        | (Refused rsn, t) \<Rightarrow> (Some (fr_Primary rsn), as_nodeInfo t, as_request t)
        | (Placed p, t) \<Rightarrow> (None, as_nodeInfo t, as_request t))"

section \<open>More victims\<close>

text \<open>The cards of the NVLink component to clear; the empty set when there is none.\<close>

definition anchorComponentUUIDs :: "env \<Rightarrow> allocation_request \<Rightarrow> node_info \<Rightarrow> string set" where
  "anchorComponentUUIDs e req n =
     (if BaseTopology (ar_Topology req) \<noteq> LinkTopology \<or> \<not> ni_gpuTopology n then {}
      else if \<not> ar_CrossPodTopology req \<or> (ar_GangName req = [] \<and> ar_ControllerOwner req = None) then {}
      else case GangAnchorComponent e n (ar_GangName req) (ar_ControllerOwner req) {p_UID (ar_Pod req)} of
        Some rootId \<Rightarrow> set (ComponentUUIDs n rootId)
      | None \<Rightarrow>
          (case ComponentByDomain n (ar_GangDomainKey req) of
             Some rootId \<Rightarrow> set (ComponentUUIDs n rootId)
           | None \<Rightarrow> {}))"

definition on_target :: "string set \<Rightarrow> pod list \<Rightarrow> string \<Rightarrow> bool" where
  "on_target targets pods uid =
     (targets \<noteq> {} \<and> list_ex (\<lambda>p. p_UID p = uid \<and> list_ex (\<lambda>u. u \<in> targets) (PodPreAllocatedUUIDs p)) pods)"

definition victim_less :: "preempt_env \<Rightarrow> (string \<Rightarrow> bool) \<Rightarrow> pod \<Rightarrow> pod \<Rightarrow> bool" where
  "victim_less pe target a b =
     (if target (p_UID a) \<noteq> target (p_UID b) then target (p_UID a)
      else if (PodHasGangName a \<noteq> None) \<noteq> (PodHasGangName b \<noteq> None) then PodHasGangName a = None
      else if pe_priority pe a \<noteq> pe_priority pe b then pe_priority pe a < pe_priority pe b
      else pe_created pe b < pe_created pe a)"

definition sortVictimsByPreference :: "preempt_env \<Rightarrow> string set \<Rightarrow> pod list \<Rightarrow> pod list" where
  "sortVictimsByPreference pe targets pods = go_sort (victim_less pe (on_target targets pods)) pods"

definition evictable :: "preempt_env \<Rightarrow> allocation_request \<Rightarrow> string \<Rightarrow> string set \<Rightarrow> pod \<Rightarrow> bool" where
  "evictable pe req nodeName excluded p =
     (p_UID p \<noteq> p_UID (ar_Pod req) \<and> p_UID p \<notin> excluded \<and> p_NodeName p = nodeName \<and> pe_Preemptable pe (ar_Pod req) p \<and>
      isProtectedFromPreemption pe p (ar_GangName req) = None \<and> \<not> violationOfPDBs pe p)"

definition findAdditionalVictims :: "preempt_env \<Rightarrow> allocation_request \<Rightarrow> node_info \<Rightarrow> pod list \<Rightarrow> string set \<Rightarrow> pod list" where
  "findAdditionalVictims pe req n allVGPUPods excluded =
     sortVictimsByPreference pe (anchorComponentUUIDs (fe_env (pe_filter pe)) req n)
       (filter (evictable pe req (n_Name (ni_node n)) excluded) allVGPUPods)"

section \<open>A node\<close>

text \<open>The checks of a node that no eviction can help.\<close>

definition matched_cards :: "allocation_request \<Rightarrow> node_info \<Rightarrow> int" where
  "matched_cards req n =
     int (length (filter (\<lambda>d. (ar_CheckDeviceUuid req \<longrightarrow> CheckDeviceUuid (p_Annotations (ar_Pod req)) (d_uuid d)) \<and>
                              (ar_CheckDeviceType req \<longrightarrow> CheckDeviceType (p_Annotations (ar_Pod req)) (d_deviceType d)))
       (vals (ni_deviceMap n))))"

definition node_hopeless :: "preempt_env \<Rightarrow> allocation_request \<Rightarrow> node_info \<Rightarrow> code option" where
  "node_hopeless pe req n =
     (if IsRemoteServerNode (ni_node n) then Some NodeIsRemoteServer
      else case CheckNode (pe_filter pe) (ni_node n)
                  [\<lambda>n (devices, config, endpoint). GetMemoryPolicyFunc (pe_filter pe) (ar_Pod req) config] of
        Some r \<Rightarrow> Some (fr_Primary r)
      | None \<Rightarrow>
          if cn_Number (ar_Max req) > ni_schedulableDevices n then Some InsufficientGPUCards
          else if cn_Cores (ar_Max req) > ni_maxDeviceCores n then Some InsufficientVGPUCore
          else if cn_Memory (ar_Max req) > ni_maxDeviceMemory n then Some InsufficientVGPUMemory
          else if (ar_CheckDeviceUuid req \<or> ar_CheckDeviceType req) \<and> matched_cards req n < cn_Number (ar_Max req)
          then Some (if ar_CheckDeviceUuid req then DeviceUUIDMismatch else DeviceTypeMismatch)
          else None)"

text \<open>The proposed victims that are not protected, and the counters of those that are.\<close>

definition keep_victims :: "preempt_env \<Rightarrow> string \<Rightarrow> pod option list \<Rightarrow> pod list" where
  "keep_victims pe gangName vs = filter (\<lambda>p. isProtectedFromPreemption pe p gangName = None) (List.map_filter id vs)"

definition protected_effects :: "preempt_env \<Rightarrow> string \<Rightarrow> pod option list \<Rightarrow> preempt_effect list" where
  "protected_effects pe gangName vs =
     map PreemptProtected (List.map_filter (\<lambda>p. isProtectedFromPreemption pe p gangName) (List.map_filter id vs))"

text \<open>The greedy loop over the additional victims: the victims of the first fit, or the last refusal.\<close>

fun add_victims ::
  "env \<Rightarrow> pod list \<Rightarrow> pod list \<Rightarrow> string set \<Rightarrow> pod list \<Rightarrow> code \<Rightarrow> node_info \<times> allocation_request \<Rightarrow> code + pod list" where
  "add_victims e allVGPUPods [] excluded keep lastCode s = Inl lastCode"
| "add_victims e allVGPUPods (cand # cands) excluded keep lastCode s =
     (case canAllocate e allVGPUPods (insert (p_UID cand) excluded) s of
        (None, s') \<Rightarrow> Inr (keep @ [cand])
      | (Some c, s') \<Rightarrow> add_victims e allVGPUPods cands (insert (p_UID cand) excluded) (keep @ [cand]) c s')"

definition refineForNode ::
  "preempt_env \<Rightarrow> node_info \<Rightarrow> allocation_request \<Rightarrow> victims \<Rightarrow> pod list \<Rightarrow> (pod list \<times> int) option \<times> preempt_effect list" where
  "refineForNode pe nodeInfo req v allVGPUPods =
     (let e = fe_env (pe_filter pe) in
      case node_hopeless pe req nodeInfo of
        Some c \<Rightarrow> (None, [PreemptRejected c])
      | None \<Rightarrow>
          let keep = keep_victims pe (ar_GangName req) (vi_Pods v);
              strip = protected_effects pe (ar_GangName req) (vi_Pods v);
              excluded = p_UID ` set keep;
              keptFromInput = int (length keep) in
          (case canAllocate e allVGPUPods excluded (nodeInfo, req) of
             (None, s) \<Rightarrow>
               (Some (keep, pdbViolationsUpperBound (vi_NumPDBViolations v) keptFromInput 0), strip @ [VictimsAdded 0])
           | (Some c, n, req1) \<Rightarrow>
               (case add_victims e allVGPUPods (findAdditionalVictims pe req1 n allVGPUPods excluded) excluded keep c (n, req1) of
                  Inr vs \<Rightarrow>
                    (let added = int (length vs) - keptFromInput in
                     (Some (vs, pdbViolationsUpperBound (vi_NumPDBViolations v) keptFromInput added), strip @ [VictimsAdded added]))
                | Inl lastCode \<Rightarrow> (None, strip @ [PreemptRejected lastCode]))))"

section \<open>The verb\<close>

text \<open>
  The request of a node is a copy taken before the gang is looked up, so the domain and the rail
  that \<^term>\<open>GangDone\<close> carries are not in it.
\<close>

definition preempt_batches :: "preempt_env \<Rightarrow> string list \<Rightarrow> string list" where
  "preempt_batches pe victimKeys =
     (let maxGoroutines = pe_procs pe * 2;
          batchSize = (int (length victimKeys) + maxGoroutines - 1) div maxGoroutines
      in map (\<lambda>i. victimKeys ! nat i) (concat (map batch_indices (BalanceBatches (int (length victimKeys)) batchSize))))"

definition preempt_topology :: "preempt_env \<Rightarrow> allocation_request \<Rightarrow> bool" where
  "preempt_topology pe req = (pe_gpuTopology pe \<and> UsesLinkTiers (ar_Topology req))"

text \<open>A candidate node and the request measured on it. The outer \<^term>\<open>None\<close> is a panic.\<close>

definition candidate_node :: "preempt_env \<Rightarrow> allocation_request \<Rightarrow> string \<Rightarrow> (node_info \<times> allocation_request) option option" where
  "candidate_node pe req nodeName =
     (case fe_getNode (pe_filter pe) nodeName of
        Inl err \<Rightarrow> Some None
      | Inr node \<Rightarrow>
          if n_Deleting node then Some None
          else (case NewNodeInfo (fe_env (pe_filter pe)) node (gang_option\<lparr>no_gpuTopologyEnabled := preempt_topology pe req\<rparr>) of
                  Inl IndexPanic \<Rightarrow> None
                | Inl (Rejected c) \<Rightarrow> Some None
                | Inr info \<Rightarrow> Some (Some (info, ResetStatistics (Some info) req))))"

definition candidate_nodes ::
  "preempt_env \<Rightarrow> allocation_request \<Rightarrow> string list \<Rightarrow> (string, node_info \<times> allocation_request) gomap option" where
  "candidate_nodes pe req names =
     (if list_ex (\<lambda>x. candidate_node pe req x = None) names then None
      else Some (foldl (\<lambda>m x. case candidate_node pe req x of Some (Some info) \<Rightarrow> AList.update x info m | _ \<Rightarrow> m) [] names))"

text \<open>The gang of the pod: the verb passes its input through, crashes, or goes on with the domain and rail in its request.\<close>

datatype gang_lookup = GangListFailed | GangCrashed | GangDone allocation_request

definition preempt_gang :: "preempt_env \<Rightarrow> allocation_request \<Rightarrow> (string, node_info \<times> allocation_request) gomap \<Rightarrow> gang_lookup" where
  "preempt_gang pe req infos =
     (if ar_CrossPodTopology req \<and> preempt_topology pe req \<and> BaseTopology (ar_Topology req) = LinkTopology \<and>
         (ar_GangName req \<noteq> [] \<or> ar_ControllerOwner req \<noteq> None)
      then (case gang_list (pe_filter pe) req of
              Inl err \<Rightarrow> GangListFailed
            | Inr pods \<Rightarrow>
                (case FindGangSiblingDomain (pe_filter pe) pods (map (\<lambda>(x, info, r). (x, info)) infos) req of
                   None \<Rightarrow> GangCrashed
                 | Some (domain, rail) \<Rightarrow> GangDone (req\<lparr>ar_GangDomainKey := domain, ar_GangRailKey := rail\<rparr>)))
      else GangDone req)"

record preempt_acc =
  px_Result :: "(string, meta_victims option) gomap"
  px_Gangs :: "string list"
  px_Trace :: "preempt_effect list"

definition preempt_node ::
  "preempt_env \<Rightarrow> (string, victims option) gomap \<Rightarrow> (string, pod list) gomap \<Rightarrow> (string, node_info \<times> allocation_request) gomap \<Rightarrow>
   preempt_acc \<Rightarrow> string \<Rightarrow> preempt_acc" where
  "preempt_node pe victimsMap nodePods infos acc x =
     (case map_of victimsMap x of
        Some (Some v) \<Rightarrow>
          (case map_of infos x of
             None \<Rightarrow> acc
           | Some (info, req) \<Rightarrow>
               (case refineForNode pe info req v (case map_of nodePods x of None \<Rightarrow> [] | Some ps \<Rightarrow> ps) of
                  (None, es) \<Rightarrow> acc\<lparr>px_Trace := px_Trace acc @ es\<rparr>
                | (Some (refined, violations), es) \<Rightarrow>
                    if refined = [] then acc\<lparr>px_Trace := px_Trace acc @ es\<rparr>
                    else acc\<lparr>px_Result := AList.update x (Some \<lparr>mv_Pods = map (Some \<circ> p_UID) refined, mv_NumPDBViolations = violations\<rparr>) (px_Result acc),
                             px_Gangs := px_Gangs acc @ List.map_filter PodGangKey refined,
                             px_Trace := px_Trace acc @ es\<rparr>))
      | _ \<Rightarrow> acc)"

definition preempt_events :: "preempt_env \<Rightarrow> int \<Rightarrow> preempt_acc \<Rightarrow> preempt_effect list" where
  "preempt_events pe candidates acc =
     (if px_Gangs acc \<noteq> [] \<and> pe_recorder pe then [GangDisrupted (go_sort str_less (remdups (px_Gangs acc)))] else []) @
     (if px_Result acc = [] \<and> candidates > 0 \<and> pe_recorder pe then [PreemptionFailed candidates] else []) @
     [PreemptObserved (if px_Result acc \<noteq> [] then ''victims'' else ''no_victims'')]"

definition preempt_search ::
  "preempt_env \<Rightarrow> preemption_args \<Rightarrow> allocation_request \<Rightarrow> (string, victims option) gomap \<Rightarrow>
   (string, meta_victims option) gomap option \<times> preempt_effect list" where
  "preempt_search pe args req victimsMap =
     (case fe_vgpuPods (pe_filter pe) of
        Inl err \<Rightarrow> (Some (passthrough args), [PreemptObserved ''passthrough''])
      | Inr pods \<Rightarrow>
          let names = preempt_batches pe (keys victimsMap) in
          (case candidate_nodes pe req names of
             None \<Rightarrow> (None, [])
           | Some infos \<Rightarrow>
               (case preempt_gang pe req infos of
                  GangListFailed \<Rightarrow> (Some (passthrough args), [PreemptObserved ''passthrough''])
                | GangCrashed \<Rightarrow> (None, [])
                | GangDone req' \<Rightarrow>
                    let acc = foldl (preempt_node pe victimsMap (NodeMapByIndexValue pods) infos)
                                \<lparr>px_Result = [], px_Gangs = [], px_Trace = []\<rparr> names
                    in (Some (px_Result acc), px_Trace acc @ preempt_events pe (int (length victimsMap)) acc))))"

definition Preempt :: "preempt_env \<Rightarrow> preemption_args \<Rightarrow> (string, meta_victims option) gomap option \<times> preempt_effect list" where
  "Preempt pe args =
     (case NodeVictims args of
        None \<Rightarrow> (None, [])
      | Some logged \<Rightarrow>
          (case pa_Pod args of
             None \<Rightarrow> (Some (passthrough args), [PreemptObserved ''passthrough''])
           | Some p \<Rightarrow>
               let req = BuildAllocationRequest p in
               if ar_Containers req = [] \<or> ar_AccessMode req = AccessModeRemote
               then (Some (passthrough args), [PreemptObserved ''passthrough''])
               else let victimsMap = resolveVictimsMap pe args in
                 if victimsMap = [] then (Some [], [PreemptObserved ''no_victims''])
                 else preempt_search pe args req victimsMap))"

end
