(* ===== verification/Preempt_Facts.thy ===== *)
theory Preempt_Facts
  imports Preempt Node_Ledger Filter_Order
begin

text \<open>
  What the preempt verb guarantees: the victims it answers with may be evicted and make room for
  the pod, a node is offered whenever evicting every evictable pod would make room, and no more
  victims are added than the first fit needs.
\<close>

section \<open>The simulation depends on the node's cards and the excluded pods\<close>

definition bare :: "node_info \<Rightarrow> node_info" where
  "bare n = resetResourceUsage (n\<lparr>ni_nodePods := []\<rparr>)"

lemma bare_reset: "bare n = (resetResourceUsage n)\<lparr>ni_nodePods := []\<rparr>"
  by (simp add: bare_def resetResourceUsage_def)

lemma bare_idem [simp]: "bare (bare n) = bare n" "ni_node (bare n) = ni_node n" "bare (n\<lparr>ni_nodePods := ps\<rparr>) = bare n"
  by (simp_all add: bare_def resetResourceUsage_def ResetUsed_def case_prod_beta)

lemma bare_add_fp: "bare (add_fp n fp) = bare n"
proof -
  have "ResetUsed (addUsedResourcesN a b c d) = ResetUsed d" for a b c d
    by (simp add: ResetUsed_def addUsedResourcesN_def)
  then have "map (\<lambda>(k, d). (k, ResetUsed d)) (AList.map_entry k (addUsedResourcesN a b c) xs) = map (\<lambda>(k, d). (k, ResetUsed d)) xs"
    for k :: int and a b c xs by (intro reset_map_entry)
  then show ?thesis
    by (auto simp: or_keep_def addFootprintResources_def add_node_usage_def bare_def resetResourceUsage_def Let_def split: option.split)
qed

lemma bare_AddPods: "bare (AddPodsUsedResources e n pods opt) = bare n"
proof -
  have fp: "bare (foldl add_fp m fps) = bare m" for m fps by (induction fps arbitrary: m) (simp_all add: bare_add_fp)
  have "bare (foldl (\<lambda>n p. if p_UID p \<in> X then n else AddPodUsedResources e (n\<lparr>ni_nodePods := ni_nodePods n @ [p]\<rparr>) p) m ps) = bare m" for m ps X
    by (induction ps arbitrary: m) (simp_all add: AddPod_charges fp)
  moreover have "bare (resetResourceUsage m) = bare m" for m
    by (simp add: bare_def resetResourceUsage_def ResetUsed_def case_prod_beta)
  ultimately show ?thesis by (simp add: AddPodsUsedResources_def Let_def)
qed

lemma AddPods_bare: "AddPodsUsedResources e n pods (preempt_option X) = AddPodsUsedResources e (bare n) pods (preempt_option X)"
proof -
  have "resetResourceUsage ((bare n)\<lparr>ni_nodePods := []\<rparr>) = resetResourceUsage (n\<lparr>ni_nodePods := []\<rparr>)"
    using bare_idem(1) [of n] by (simp add: bare_def)
  then show ?thesis by (simp add: AddPodsUsedResources_def Let_def preempt_option_def)
qed

text \<open>Whether the pod of a request fits on a node once some pods are gone.\<close>

definition fits_without :: "env \<Rightarrow> pod list \<Rightarrow> node_info \<Rightarrow> allocation_request \<Rightarrow> string set \<Rightarrow> bool" where
  "fits_without e pods n req gone \<longleftrightarrow> fst (canAllocate e pods gone (n, req)) = None"

lemma canAllocate_cong:
  assumes "bare n' = bare n" "untold req' = untold req"
  shows "fst (canAllocate e pods X (n', req')) = fst (canAllocate e pods X (n, req))"
proof -
  let ?s = "\<lambda>n req. \<lparr>as_nodeInfo = AddPodsUsedResources e n pods (preempt_option X), as_request = req, as_trace = []\<rparr>"
  let ?a = "\<lambda>n req. Allocate e \<lparr>ao_recorder = False, ao_simulate = True\<rparr> (?s n req)"
  have "view (?s n' req') = view (?s n req)"
    using assms AddPods_bare [of e n' pods X] AddPods_bare [of e n pods X] by (simp add: view_def)
  then have "fst (?a n' req') = fst (?a n req)" using agree_Allocate by (simp add: agree_def)
  then show ?thesis by (auto simp: canAllocate_def Let_def split: prod.splits outcome.splits)
qed

lemma canAllocate_keeps:
  assumes "canAllocate e pods X (n, req) = (c, n', req')"
  shows "bare n' = bare n" "untold req' = untold req" "ni_node n' = ni_node n"
proof -
  let ?n1 = "AddPodsUsedResources e n pods (preempt_option X)"
  let ?a = "Allocate e \<lparr>ao_recorder = False, ao_simulate = True\<rparr> \<lparr>as_nodeInfo = ?n1, as_request = req, as_trace = []\<rparr>"
  have s: "n' = as_nodeInfo (snd ?a)" "req' = as_request (snd ?a)"
    using assms by (auto simp: canAllocate_def Let_def split: prod.splits outcome.splits)
  have "bare n' = bare ?n1" unfolding s bare_reset reset_Allocate by simp
  then show b: "bare n' = bare n" by (simp add: bare_AddPods)
  show "untold req' = untold req" unfolding s(2) keeps_Allocate by simp
  show "ni_node n' = ni_node n" using arg_cong [OF b, of ni_node] by simp
qed

section \<open>The greedy loop\<close>

abbreviation uids :: "pod list \<Rightarrow> string set" where
  "uids ps \<equiv> p_UID ` set ps"

lemma add_victims_prefix:
  assumes "bare (fst s) = bare n" "untold (snd s) = untold req"
  shows "case add_victims e pods cands X keep c s of
      Inr vs \<Rightarrow> (\<exists>k. 0 < k \<and> k \<le> length cands \<and> vs = keep @ take k cands \<and> fits_without e pods n req (X \<union> uids (take k cands)) \<and>
        (\<forall>j. 0 < j \<and> j < k \<longrightarrow> \<not> fits_without e pods n req (X \<union> uids (take j cands))))
    | Inl c' \<Rightarrow> \<forall>k. 0 < k \<and> k \<le> length cands \<longrightarrow> \<not> fits_without e pods n req (X \<union> uids (take k cands))"
  using assms
proof (induction cands arbitrary: X keep c s)
  case (Cons p cands)
  let ?X = "insert (p_UID p) X"
  obtain n0 r0 where s: "s = (n0, r0)" by fastforce
  obtain c1 n1 r1 where a: "canAllocate e pods ?X s = (c1, n1, r1)" by (cases "canAllocate e pods ?X s")
  have c1: "(c1 = None) = fits_without e pods n req ?X"
    using canAllocate_cong [of n0 n r0 req e pods ?X] Cons.prems a by (simp add: fits_without_def s)
  have step: "X \<union> uids (take (Suc k) (p # cands)) = ?X \<union> uids (take k cands)" for k by auto
  show ?case
  proof (cases c1)
    case None
    then show ?thesis using c1 a by (auto intro!: exI [of _ "Suc 0"])
  next
    case (Some c')
    have "bare n1 = bare n" "untold r1 = untold req" using canAllocate_keeps [OF a [unfolded s]] Cons.prems s by simp_all
    then have IH: "case add_victims e pods cands ?X (keep @ [p]) c' (n1, r1) of
        Inr vs \<Rightarrow> (\<exists>k. 0 < k \<and> k \<le> length cands \<and> vs = (keep @ [p]) @ take k cands \<and> fits_without e pods n req (?X \<union> uids (take k cands)) \<and>
          (\<forall>j. 0 < j \<and> j < k \<longrightarrow> \<not> fits_without e pods n req (?X \<union> uids (take j cands))))
      | Inl c' \<Rightarrow> \<forall>k. 0 < k \<and> k \<le> length cands \<longrightarrow> \<not> fits_without e pods n req (?X \<union> uids (take k cands))"
      by (intro Cons.IH) simp_all
    have no: "\<not> fits_without e pods n req ?X" using c1 Some by simp
    have rec: "add_victims e pods (p # cands) X keep c s = add_victims e pods cands ?X (keep @ [p]) c' (n1, r1)" using a Some by simp
    show ?thesis
    proof (cases "add_victims e pods cands ?X (keep @ [p]) c' (n1, r1)")
      case (Inl x)
      have "\<not> fits_without e pods n req (X \<union> uids (take k (p # cands)))" if "0 < k" "k \<le> length (p # cands)" for k
      proof (cases k)
        case (Suc j)
        then show ?thesis using IH Inl no that(2) unfolding Suc step by (cases "j = 0") auto
      qed (use that in simp)
      then show ?thesis using rec Inl by simp
    next
      case (Inr vs)
      then obtain k where k: "0 < k" "k \<le> length cands" "vs = (keep @ [p]) @ take k cands" "fits_without e pods n req (?X \<union> uids (take k cands))"
        "\<forall>j. 0 < j \<and> j < k \<longrightarrow> \<not> fits_without e pods n req (?X \<union> uids (take j cands))" using IH by auto
      have "\<not> fits_without e pods n req (X \<union> uids (take j (p # cands)))" if "0 < j" "j < Suc k" for j
      proof (cases j)
        case (Suc i)
        then show ?thesis using k(5) no that(2) unfolding Suc step by (cases "i = 0") auto
      qed (use that in simp)
      moreover have "fits_without e pods n req (X \<union> uids (take (Suc k) (p # cands)))" unfolding step by (rule k(4))
      moreover have "vs = keep @ take (Suc k) (p # cands)" using k(3) by simp
      ultimately show ?thesis using rec Inr k(2) by (auto intro!: exI [of _ "Suc k"])
    qed
  qed
qed simp

section \<open>A node's victims\<close>

text \<open>A pod that may be among the victims of a node: proposed or evictable there, and not protected.\<close>

definition victim_ok :: "preempt_env \<Rightarrow> allocation_request \<Rightarrow> string \<Rightarrow> victims \<Rightarrow> pod list \<Rightarrow> pod \<Rightarrow> bool" where
  "victim_ok pe req x v pods q \<longleftrightarrow> isProtectedFromPreemption pe q (ar_GangName req) = None \<and>
     (Some q \<in> set (vi_Pods v) \<or> (q \<in> set pods \<and> evictable pe req x {} q))"

abbreviation kept_of :: "preempt_env \<Rightarrow> allocation_request \<Rightarrow> victims \<Rightarrow> pod list" where
  "kept_of pe req v \<equiv> keep_victims pe (ar_GangName req) (vi_Pods v)"

lemma kept_ok: "q \<in> set (kept_of pe req v) \<Longrightarrow> victim_ok pe req x v pods q"
  by (auto simp: keep_victims_def victim_ok_def map_filter_def)

lemma additional_set:
  assumes "ni_node n' = ni_node n" "untold req' = untold req"
  shows "set (findAdditionalVictims pe req' n' pods X) = set (filter (evictable pe req (n_Name (ni_node n)) X) pods)"
proof -
  have "ar_Pod req' = ar_Pod req" "ar_GangName req' = ar_GangName req"
    using arg_cong [OF assms(2), of ar_Pod] arg_cong [OF assms(2), of ar_GangName] by (simp_all add: untold_def)
  then show ?thesis by (simp add: findAdditionalVictims_def sortVictimsByPreference_def evictable_def assms(1))
qed

lemma bound_range: "0 \<le> added \<Longrightarrow> pdbViolationsUpperBound m k added \<le> k + added \<and> (0 \<le> m \<and> 0 \<le> k \<longrightarrow> 0 \<le> pdbViolationsUpperBound m k added)"
  by (simp add: pdbViolationsUpperBound_def)

text \<open>
  The victims of a refined node: the kept ones, and of the evictable ones as many as the first
  fit needs.
\<close>

lemma refine_cases:
  fixes pe n req v pods
  defines "e \<equiv> fe_env (pe_filter pe)" and "keep \<equiv> kept_of pe req v"
  assumes live: "node_hopeless pe req n = None"
  obtains (fit) "fits_without e pods n req (uids keep)"
      "fst (refineForNode pe n req v pods) = Some (keep, pdbViolationsUpperBound (vi_NumPDBViolations v) (int (length keep)) 0)"
    | (more) cands k where "set cands = set (filter (evictable pe req (n_Name (ni_node n)) (uids keep)) pods)" "\<not> fits_without e pods n req (uids keep)"
      "0 < k" "k \<le> length cands" "fits_without e pods n req (uids (keep @ take k cands))"
      "\<forall>j. 0 < j \<and> j < k \<longrightarrow> \<not> fits_without e pods n req (uids (keep @ take j cands))"
      "fst (refineForNode pe n req v pods) = Some (keep @ take k cands, pdbViolationsUpperBound (vi_NumPDBViolations v) (int (length keep)) (int k))"
    | (none) "\<not> fits_without e pods n req (uids keep \<union> uids (filter (evictable pe req (n_Name (ni_node n)) (uids keep)) pods))"
      "fst (refineForNode pe n req v pods) = None"
proof -
  obtain c n1 r1 where a: "canAllocate e pods (uids keep) (n, req) = (c, n1, r1)" by (cases "canAllocate e pods (uids keep) (n, req)")
  have c: "(c = None) = fits_without e pods n req (uids keep)" using a by (simp add: fits_without_def)
  let ?cands = "findAdditionalVictims pe r1 n1 pods (uids keep)"
  show thesis
  proof (cases c)
    case None
    then show thesis using fit c a live by (simp add: refineForNode_def Let_def flip: e_def keep_def)
  next
    case (Some c0)
    note k1 = canAllocate_keeps [OF a]
    have set: "set ?cands = set (filter (evictable pe req (n_Name (ni_node n)) (uids keep)) pods)" by (rule additional_set [OF k1(3,2)])
    have un: "uids keep \<union> uids ps = uids (keep @ ps)" for ps by auto
    note pre = add_victims_prefix [where s = "(n1, r1)" and n = n and req = req and e = e and pods = pods and cands = ?cands and X = "uids keep" and keep = keep and c = c0, unfolded un]
    show thesis
    proof (cases "add_victims e pods ?cands (uids keep) keep c0 (n1, r1)")
      case (Inl x)
      then have "\<not> fits_without e pods n req (uids (keep @ ?cands))"
        using pre k1(1,2) c Some by (cases "?cands = []") (auto dest: spec [of _ "length ?cands"])
      moreover have "uids (keep @ ?cands) = uids keep \<union> uids (filter (evictable pe req (n_Name (ni_node n)) (uids keep)) pods)" using set by auto
      ultimately show thesis using none live a Some Inl by (simp add: refineForNode_def Let_def flip: e_def keep_def)
    next
      case (Inr vs)
      then obtain k where k: "0 < k" "k \<le> length ?cands" "vs = keep @ take k ?cands" "fits_without e pods n req (uids (keep @ take k ?cands))"
        "\<forall>j. 0 < j \<and> j < k \<longrightarrow> \<not> fits_without e pods n req (uids (keep @ take j ?cands))" using pre k1(1,2) by auto
      have "length vs = length keep + k" using k(2,3) by simp
      then show thesis using more [OF set _ k(1,2,4,5)] c live a Some Inr k(3) by (simp add: refineForNode_def Let_def flip: e_def keep_def)
    qed
  qed
qed

lemma refine_victims:
  assumes "fst (refineForNode pe n req v pods) = Some (vs, m)"
  shows "node_hopeless pe req n = None" "\<forall>q \<in> set vs. victim_ok pe req (n_Name (ni_node n)) v pods q"
    "fits_without (fe_env (pe_filter pe)) pods n req (uids vs)" "m \<le> int (length vs)"
    "vs \<noteq> kept_of pe req v \<Longrightarrow> \<not> fits_without (fe_env (pe_filter pe)) pods n req (uids (kept_of pe req v))"
proof -
  show live: "node_hopeless pe req n = None" using assms by (auto simp: refineForNode_def Let_def split: option.splits)
  let ?goal = "(\<forall>q \<in> set vs. victim_ok pe req (n_Name (ni_node n)) v pods q) \<and> fits_without (fe_env (pe_filter pe)) pods n req (uids vs) \<and>
    m \<le> int (length vs) \<and> (vs \<noteq> kept_of pe req v \<longrightarrow> \<not> fits_without (fe_env (pe_filter pe)) pods n req (uids (kept_of pe req v)))"
  have ?goal using live
  proof (cases rule: refine_cases [where v = v and pods = pods])
    case fit
    then show ?thesis using assms kept_ok bound_range [of 0 "vi_NumPDBViolations v" "int (length (kept_of pe req v))"] by auto
  next
    case (more cands k)
    have "victim_ok pe req (n_Name (ni_node n)) v pods q" if "q \<in> set cands" for q
      using that more(1) by (auto simp: victim_ok_def evictable_def)
    then have "\<forall>q \<in> set (kept_of pe req v @ take k cands). victim_ok pe req (n_Name (ni_node n)) v pods q"
      using kept_ok [of _ pe req v] by (auto dest: in_set_takeD)
    moreover have "vs = kept_of pe req v @ take k cands" "m \<le> int (length vs)"
      using assms more(4,7) bound_range [of "int k" "vi_NumPDBViolations v" "int (length (kept_of pe req v))"] by auto
    ultimately show ?thesis using more(2,5) by simp
  qed (use assms in simp)
  then show "\<forall>q \<in> set vs. victim_ok pe req (n_Name (ni_node n)) v pods q" "fits_without (fe_env (pe_filter pe)) pods n req (uids vs)" "m \<le> int (length vs)"
    "vs \<noteq> kept_of pe req v \<Longrightarrow> \<not> fits_without (fe_env (pe_filter pe)) pods n req (uids (kept_of pe req v))" by blast+
qed

section \<open>The answer of a call\<close>

lemma preempt_batches_all: "0 < pe_procs pe \<Longrightarrow> preempt_batches pe xs = xs"
proof -
  assume procs: "0 < pe_procs pe"
  show ?thesis
  proof (cases "xs = []")
    case False
    let ?size = "(int (length xs) + pe_procs pe * 2 - 1) div (pe_procs pe * 2)"
    have "0 < ?size" using procs False by (simp add: pos_imp_zdiv_pos_iff)
    then have "concat (map batch_indices (BalanceBatches (int (length xs)) ?size)) = [0 .. int (length xs) - 1]"
      using BalanceBatches_cover [of "int (length xs)" ?size] False by simp
    moreover have "map (\<lambda>i. xs ! nat i) [0 .. int (length xs) - 1] = xs"
      by (rule nth_equalityI) simp_all
    ultimately show ?thesis by (simp add: preempt_batches_def Let_def)
  qed (simp add: preempt_batches_def BalanceBatches_def)
qed

lemma candidates_lookup:
  assumes "candidate_nodes pe req names = Some infos"
  shows "map_of infos x = (if x \<in> set names then (case candidate_node pe req x of Some r \<Rightarrow> r | None \<Rightarrow> None) else None)"
proof -
  let ?f = "\<lambda>m x. case candidate_node pe req x of Some (Some info) \<Rightarrow> AList.update x info m | _ \<Rightarrow> m"
  have "map_of (foldl ?f m xs) x = (if x \<in> set xs then (case candidate_node pe req x of Some (Some info) \<Rightarrow> Some info | _ \<Rightarrow> map_of m x) else map_of m x)"
    for m xs by (induction xs arbitrary: m) (auto simp: map_of_update split: option.splits)
  moreover have "infos = foldl ?f [] names" using assms by (simp add: candidate_nodes_def split: if_splits)
  ultimately show ?thesis by (simp split: option.split)
qed

text \<open>What the second loop puts into the result for a node.\<close>

definition node_answer ::
  "preempt_env \<Rightarrow> (string, victims option) gomap \<Rightarrow> (string, pod list) gomap \<Rightarrow> (string, node_info \<times> allocation_request) gomap \<Rightarrow>
   string \<Rightarrow> meta_victims option" where
  "node_answer pe victimsMap nodePods infos x =
     (case map_of victimsMap x of
        Some (Some v) \<Rightarrow>
          (case map_of infos x of
             None \<Rightarrow> None
           | Some (info, req) \<Rightarrow>
               (case fst (refineForNode pe info req v (case map_of nodePods x of None \<Rightarrow> [] | Some ps \<Rightarrow> ps)) of
                  None \<Rightarrow> None
                | Some (refined, m) \<Rightarrow>
                    if refined = [] then None else Some \<lparr>mv_Pods = map (Some \<circ> p_UID) refined, mv_NumPDBViolations = m\<rparr>))
      | _ \<Rightarrow> None)"

lemma node_result:
  "px_Result (preempt_node pe vm nps infos acc x) =
     (case node_answer pe vm nps infos x of None \<Rightarrow> px_Result acc | Some mv \<Rightarrow> AList.update x (Some mv) (px_Result acc))"
  by (auto simp: preempt_node_def node_answer_def split: option.splits prod.splits)

lemma loop_result:
  "map_of (px_Result (foldl (preempt_node pe vm nps infos) acc names)) x =
     (if x \<in> set names \<and> node_answer pe vm nps infos x \<noteq> None then Some (node_answer pe vm nps infos x) else map_of (px_Result acc) x)"
  by (induction names arbitrary: acc) (auto simp: node_result map_of_update split: option.splits)

lemma search_cases:
  assumes "Preempt pe args = (Some result, es)" "PreemptObserved ''passthrough'' \<notin> set es" "resolveVictimsMap pe args \<noteq> []"
  obtains p pods infos where "pa_Pod args = Some p" "pod_needs p \<noteq> []" "fst (PodVGPUAccessMode p) \<noteq> AccessModeRemote"
    "fe_vgpuPods (pe_filter pe) = Inr pods"
    "candidate_nodes pe (BuildAllocationRequest p) (preempt_batches pe (keys (resolveVictimsMap pe args))) = Some infos"
    "result = px_Result (foldl (preempt_node pe (resolveVictimsMap pe args) (NodeMapByIndexValue pods) infos)
       \<lparr>px_Result = [], px_Gangs = [], px_Trace = []\<rparr> (preempt_batches pe (keys (resolveVictimsMap pe args))))"
proof -
  obtain p where p: "pa_Pod args = Some p" using assms by (auto simp: Preempt_def split: option.splits)
  have b: "ar_Containers (BuildAllocationRequest p) = pod_needs p" "ar_AccessMode (BuildAllocationRequest p) = fst (PodVGPUAccessMode p)"
    by (simp_all add: BuildAllocationRequest_def Let_def)
  have n: "pod_needs p \<noteq> []" "fst (PodVGPUAccessMode p) \<noteq> AccessModeRemote"
    and s: "preempt_search pe args (BuildAllocationRequest p) (resolveVictimsMap pe args) = (Some result, es)"
    using assms p by (auto simp: Preempt_def Let_def b split: option.splits if_splits)
  show thesis
    using s assms(2) that [OF p n] by (auto simp: preempt_search_def Let_def split: sum.splits option.splits gang_lookup.splits)
qed

text \<open>The pods a lister places on a node.\<close>

definition pods_of :: "preempt_env \<Rightarrow> string \<Rightarrow> pod list" where
  "pods_of pe x = (case fe_vgpuPods (pe_filter pe) of Inl err \<Rightarrow> [] | Inr pods \<Rightarrow> filter (\<lambda>q. PodPlanSchedulingNode q = x) pods)"

text \<open>A candidate node as the verb sees it, and the request measured on it.\<close>

definition offered :: "preempt_env \<Rightarrow> pod \<Rightarrow> string \<Rightarrow> node \<Rightarrow> node_info \<Rightarrow> allocation_request \<Rightarrow> bool" where
  "offered pe p x n info req \<longleftrightarrow> fe_getNode (pe_filter pe) x = Inr n \<and> \<not> n_Deleting n \<and>
     NewNodeInfo (fe_env (pe_filter pe)) n (gang_option\<lparr>no_gpuTopologyEnabled := preempt_topology pe (BuildAllocationRequest p)\<rparr>) = Inr info \<and>
     req = ResetStatistics (Some info) (BuildAllocationRequest p)"

lemma offered_iff: "candidate_node pe (BuildAllocationRequest p) x = Some (Some (info, req)) \<longleftrightarrow> (\<exists>n. offered pe p x n info req)"
  by (auto simp: candidate_node_def offered_def split: sum.splits if_splits gather_error.splits)

lemma fits_placed:
  assumes "fits_without e pods info req gone"
  shows "\<exists>p'. fst (Allocate e opts \<lparr>as_nodeInfo = AddPodsUsedResources e info pods (preempt_option gone), as_request = req, as_trace = []\<rparr>) = Placed p'"
proof -
  let ?s = "\<lparr>as_nodeInfo = AddPodsUsedResources e info pods (preempt_option gone), as_request = req, as_trace = []\<rparr>"
  have "fst (Allocate e opts ?s) = fst (Allocate e \<lparr>ao_recorder = False, ao_simulate = True\<rparr> ?s)" using agree_Allocate by (simp add: agree_def)
  moreover have "\<exists>p'. fst (Allocate e \<lparr>ao_recorder = False, ao_simulate = True\<rparr> ?s) = Placed p'"
    using assms by (auto simp: fits_without_def canAllocate_def Let_def split: prod.splits outcome.splits)
  ultimately show ?thesis by simp
qed

lemma NewNodeInfo_of: "offered pe p x n info req \<Longrightarrow> ni_node info = n"
  using NewNodeInfo_node unfolding offered_def by blast

text \<open>What a corrected answer says about a node.\<close>

definition answer_at :: "preempt_env \<Rightarrow> preemption_args \<Rightarrow> pod \<Rightarrow> string \<Rightarrow> meta_victims option" where
  "answer_at pe args p x =
     (case (map_of (resolveVictimsMap pe args) x, candidate_node pe (BuildAllocationRequest p) x) of
        (Some (Some v), Some (Some (info, req))) \<Rightarrow>
          (case fst (refineForNode pe info req v (pods_of pe x)) of
             None \<Rightarrow> None
           | Some (vs, m) \<Rightarrow> if vs = [] then None else Some \<lparr>mv_Pods = map (Some \<circ> p_UID) vs, mv_NumPDBViolations = m\<rparr>)
      | _ \<Rightarrow> None)"

lemma answered:
  assumes "Preempt pe args = (Some result, es)" "PreemptObserved ''passthrough'' \<notin> set es" "resolveVictimsMap pe args \<noteq> []"
  obtains p where "pa_Pod args = Some p" "\<And>x. map_of result x =
    (if x \<in> set (preempt_batches pe (keys (resolveVictimsMap pe args))) then map_option Some (answer_at pe args p x) else None)"
proof -
  let ?vm = "resolveVictimsMap pe args" and ?names = "preempt_batches pe (keys (resolveVictimsMap pe args))"
  obtain p pods infos where p: "pa_Pod args = Some p" and pods: "fe_vgpuPods (pe_filter pe) = Inr pods"
    and infos: "candidate_nodes pe (BuildAllocationRequest p) ?names = Some infos"
    and result: "result = px_Result (foldl (preempt_node pe ?vm (NodeMapByIndexValue pods) infos) \<lparr>px_Result = [], px_Gangs = [], px_Trace = []\<rparr> ?names)"
    using search_cases [OF assms] by metis
  have same: "node_answer pe ?vm (NodeMapByIndexValue pods) infos x = answer_at pe args p x" if "x \<in> set ?names" for x
  proof -
    have g: "(case map_of (NodeMapByIndexValue pods) x of None \<Rightarrow> [] | Some ps \<Rightarrow> ps) = pods_of pe x" by (simp add: NodeMap_group pods_of_def pods)
    show ?thesis unfolding node_answer_def answer_at_def g candidates_lookup [OF infos] using that
      by (cases "map_of ?vm x"; cases "candidate_node pe (BuildAllocationRequest p) x") (simp_all split: option.split)
  qed
  show thesis
  proof (rule that [OF p])
    show "map_of result x = (if x \<in> set ?names then map_option Some (answer_at pe args p x) else None)" for x
      unfolding result loop_result using same [of x] by (cases "answer_at pe args p x") auto
  qed
qed

lemma answer_cases:
  assumes "answer_at pe args p x = Some mv"
  obtains n info req v vs m where "offered pe p x n info req" "map_of (resolveVictimsMap pe args) x = Some (Some v)"
    "fst (refineForNode pe info req v (pods_of pe x)) = Some (vs, m)" "vs \<noteq> []" "mv = \<lparr>mv_Pods = map (Some \<circ> p_UID) vs, mv_NumPDBViolations = m\<rparr>"
proof -
  obtain v info req vs m where v: "map_of (resolveVictimsMap pe args) x = Some (Some v)"
    and c: "candidate_node pe (BuildAllocationRequest p) x = Some (Some (info, req))"
    and r: "fst (refineForNode pe info req v (pods_of pe x)) = Some (vs, m)" "vs \<noteq> []" "mv = \<lparr>mv_Pods = map (Some \<circ> p_UID) vs, mv_NumPDBViolations = m\<rparr>"
    using assms by (auto simp: answer_at_def split: option.splits prod.splits if_splits)
  from c obtain n where "offered pe p x n info req" unfolding offered_iff by blast
  then show thesis using that v r by blast
qed

lemma answer_offered:
  assumes "offered pe p x n info req" "map_of (resolveVictimsMap pe args) x = Some (Some v)"
  shows "answer_at pe args p x = (case fst (refineForNode pe info req v (pods_of pe x)) of
     None \<Rightarrow> None | Some (vs, m) \<Rightarrow> if vs = [] then None else Some \<lparr>mv_Pods = map (Some \<circ> p_UID) vs, mv_NumPDBViolations = m\<rparr>)"
  using assms offered_iff [of pe p x info req] by (auto simp: answer_at_def)

text \<open>
  C4. Preemption evicts only pods that may be evicted, and it helps. For every node in a corrected
  answer, every victim is unprotected and is either one the kube-scheduler proposed there or a
  pod bound to that node that the pending pod may preempt and whose disruption budgets allow it;
  once the victims are gone, an allocator places the pod on that node; and the reported number
  of budget violations never exceeds the number of victims.
\<close>

theorem Preempt_sound:
  assumes "Preempt pe args = (Some result, es)" "PreemptObserved ''passthrough'' \<notin> set es" "map_of result x = Some mv"
  shows "\<exists>p n info req v vs m. pa_Pod args = Some p \<and> offered pe p x n info req \<and>
    map_of (resolveVictimsMap pe args) x = Some (Some v) \<and>
    mv = Some \<lparr>mv_Pods = map (Some \<circ> p_UID) vs, mv_NumPDBViolations = m\<rparr> \<and> vs \<noteq> [] \<and> m \<le> int (length vs) \<and>
    (\<forall>q \<in> set vs. victim_ok pe req (n_Name n) v (pods_of pe x) q) \<and>
    (\<exists>p'. fst (Allocate (fe_env (pe_filter pe)) opts \<lparr>as_nodeInfo = AddPodsUsedResources (fe_env (pe_filter pe)) info (pods_of pe x)
        (preempt_option (p_UID ` set vs)), as_request = req, as_trace = []\<rparr>) = Placed p')"
proof -
  have "resolveVictimsMap pe args \<noteq> []" using assms(1,2,3) by (auto simp: Preempt_def Let_def split: option.splits if_splits)
  then obtain p where p: "pa_Pod args = Some p" and mv: "map_option Some (answer_at pe args p x) = Some mv"
    using answered [OF assms(1,2)] assms(3) by (metis option.distinct(1))
  then obtain mv' where mv': "answer_at pe args p x = Some mv'" "mv = Some mv'" by auto
  from mv'(1) obtain n info req v vs m where n: "offered pe p x n info req" and v: "map_of (resolveVictimsMap pe args) x = Some (Some v)"
    and r: "fst (refineForNode pe info req v (pods_of pe x)) = Some (vs, m)" and ne: "vs \<noteq> []"
    and m: "mv' = \<lparr>mv_Pods = map (Some \<circ> p_UID) vs, mv_NumPDBViolations = m\<rparr>" by (rule answer_cases)
  note ok = refine_victims [OF r, unfolded NewNodeInfo_of [OF n]]
  show ?thesis
    by (rule exI [of _ p], rule exI [of _ n], rule exI [of _ info], rule exI [of _ req], rule exI [of _ v], rule exI [of _ vs], rule exI [of _ m],
        intro conjI p n v mv'(2) [unfolded m] ne ok(2,4) fits_placed [OF ok(3)])
qed


section \<open>Where the code and its comments part\<close>

text \<open>
  The gang's domain and rail are found after the requests of the nodes were copied, so no node is
  judged with them: the requests the victims are searched with have neither.
\<close>

lemma Preempt_gang_lost:
  assumes "offered pe p x n info req"
  shows "ar_GangDomainKey req = [] \<and> ar_GangRailKey req = []"
proof -
  have "ar_GangDomainKey (BuildAllocationRequest p) = []" "ar_GangRailKey (BuildAllocationRequest p) = []"
    by (simp_all add: BuildAllocationRequest_def Let_def)
  then show ?thesis using assms by (simp add: offered_def ResetStatistics_def Let_def)
qed

text \<open>A nil victim, which the other functions skip, ends the call in a panic in its first log line.\<close>

lemma Preempt_nil_victim:
  assumes "pa_NodeNameToMetaVictims args = []" "(x, Some v) \<in> set (pa_NodeNameToVictims args)" "None \<in> set (vi_Pods v)"
  shows "Preempt pe args = (None, [])"
proof -
  have "NodeVictims args = None" using assms by (force simp: NodeVictims_def list_ex_iff)
  then show ?thesis by (simp add: Preempt_def)
qed

text \<open>A node on which every proposed victim is protected and the pod fits as it is, is dropped.\<close>

lemma Preempt_fit_dropped:
  assumes "Preempt pe args = (Some result, es)" "PreemptObserved ''passthrough'' \<notin> set es" "pa_Pod args = Some p"
    and "offered pe p x n info req" "map_of (resolveVictimsMap pe args) x = Some (Some v)"
    and "keep_victims pe (ar_GangName req) (vi_Pods v) = []" "fst (canAllocate (fe_env (pe_filter pe)) (pods_of pe x) {} (info, req)) = None"
  shows "map_of result x = None"
proof -
  have "answer_at pe args p x = None"
  proof (cases "node_hopeless pe req info")
    case None
    then show ?thesis
      by (cases rule: refine_cases [where v = v and pods = "pods_of pe x"])
        (use assms(6,7) in \<open>simp_all add: answer_offered [OF assms(4,5)] fits_without_def\<close>)
  qed (simp add: answer_offered [OF assms(4,5)] refineForNode_def)
  moreover have "resolveVictimsMap pe args \<noteq> []" using assms(5) by auto
  from answered [OF assms(1,2) this] obtain p' where "pa_Pod args = Some p'" "map_of result x =
    (if x \<in> set (preempt_batches pe (keys (resolveVictimsMap pe args))) then map_option Some (answer_at pe args p' x) else None)" by blast
  ultimately show ?thesis using assms(3) by simp
qed

end
