(* ===== verification/Preempt_Scenario.thy ===== *)
theory Preempt_Scenario
  imports Preempt_Facts Scenario
begin

text \<open>
  A preemption on two nodes with one card each: on the first, evicting the proposed victim makes
  room; on the second, a critical pod keeps too much of the card.
\<close>

definition px_filter_env :: filter_env where
  "px_filter_env = ex_filter_env\<lparr>fe_getNode := (\<lambda>name. if name = ''n1'' \<or> name = ''n2'' then Inr (ex_host name ''large'') else Inl ''not found'')\<rparr>"

definition px_tenant :: "string \<Rightarrow> string \<Rightarrow> pod" where
  "px_tenant uid node = ex_tenant\<lparr>p_UID := uid, p_NodeName := node,
     p_Annotations := [(PodPredicateNodeAnnotation, node), (PodVGPUPreAllocAnnotation, ''main[0_GPU-a_50_2048]'')]\<rparr>"

definition px_pending :: pod where
  "px_pending = ex_tenant\<lparr>p_UID := ''u9'', p_Containers := [\<lparr>c_Name = ''main'',
     c_Limits = [(VGPUNumberResourceName, 1), (VGPUCoreResourceName, 60), (VGPUMemoryResourceName, 3072)], c_Restartable = False\<rparr>]\<rparr>"

definition px_env :: preempt_env where
  "px_env = \<lparr>pe_filter = px_filter_env\<lparr>fe_vgpuPods := Inr [px_tenant ''u1'' ''n1'', px_tenant ''u2'' ''n2'', px_tenant ''u3'' ''n2'']\<rparr>,
     pe_byUid = (\<lambda>uid. if uid = ''u1'' then Inr [px_tenant ''u1'' ''n1''] else if uid = ''u2'' then Inr [px_tenant ''u2'' ''n2''] else Inr []),
     pe_budgets = None, pe_recorder = True, pe_gpuTopology = False, pe_procs = 1, pe_isCritical = (\<lambda>p. p_UID p = ''u3''),
     pe_Preemptable = (\<lambda>p q. p_UID p = ''u9''), pe_priority = (\<lambda>p. if p_UID p = ''u9'' then 10 else 0),
     pe_ownerKind = (\<lambda>p. None), pe_created = (\<lambda>p. 0)\<rparr>"

definition px_args :: preemption_args where
  "px_args = \<lparr>pa_Pod = Some px_pending, pa_NodeNameToVictims = [],
     pa_NodeNameToMetaVictims = [(''n1'', Some \<lparr>mv_Pods = [Some ''u1''], mv_NumPDBViolations = 0\<rparr>),
       (''n2'', Some \<lparr>mv_Pods = [Some ''u2''], mv_NumPDBViolations = 0\<rparr>)]\<rparr>"

lemma px_preempt:
  "Preempt px_env px_args = (Some [(''n1'', Some \<lparr>mv_Pods = [Some ''u1''], mv_NumPDBViolations = 0\<rparr>)],
     [VictimsAdded 0, PreemptRejected InsufficientVGPUMemory, PreemptObserved ''victims''])"
  by code_simp

definition px_node :: node_info where
  "px_node = (case NewNodeInfo ex_env (ex_host ''n2'' ''large'') (gang_option\<lparr>no_gpuTopologyEnabled := False\<rparr>) of Inr i \<Rightarrow> i | Inl err \<Rightarrow> demo_node)"

definition px_request :: allocation_request where
  "px_request = ResetStatistics (Some px_node) (BuildAllocationRequest px_pending)"

lemma px_offered: "offered px_env px_pending ''n2'' (ex_host ''n2'' ''large'') px_node px_request"
proof -
  have "case NewNodeInfo ex_env (ex_host ''n2'' ''large'') (gang_option\<lparr>no_gpuTopologyEnabled := False\<rparr>) of Inr i \<Rightarrow> True | Inl err \<Rightarrow> False" by code_simp
  then have "NewNodeInfo ex_env (ex_host ''n2'' ''large'') (gang_option\<lparr>no_gpuTopologyEnabled := False\<rparr>) = Inr px_node"
    by (simp add: px_node_def split: sum.splits)
  moreover have "\<not> preempt_topology px_env (BuildAllocationRequest px_pending)" by (simp add: preempt_topology_def px_env_def)
  ultimately show ?thesis by (simp add: offered_def px_request_def) (simp add: px_env_def px_filter_env_def ex_filter_env_def ex_host_def)
qed

theorem Preempt_sound_witness:
  "\<exists>n info req p'. offered px_env px_pending ''n1'' n info req \<and>
     fst (Allocate ex_env \<lparr>ao_recorder = True, ao_simulate = False\<rparr> \<lparr>as_nodeInfo = AddPodsUsedResources ex_env info (pods_of px_env ''n1'')
        (preempt_option {''u1''}), as_request = req, as_trace = []\<rparr>) = Placed p'"
proof -
  let ?mv = "\<lparr>mv_Pods = [Some ''u1''], mv_NumPDBViolations = 0\<rparr>" and ?o = "\<lparr>ao_recorder = True, ao_simulate = False\<rparr>"
  let ?node = "\<lambda>info X. AddPodsUsedResources (fe_env (pe_filter px_env)) info (pods_of px_env ''n1'') (preempt_option X)"
  have "map_of [(''n1'', Some ?mv)] ''n1'' = Some (Some ?mv)" "PreemptObserved ''passthrough'' \<notin> set [VictimsAdded 0, PreemptRejected InsufficientVGPUMemory, PreemptObserved ''victims'']"
    by simp_all
  from Preempt_sound [OF px_preempt this(2,1), of ?o] obtain p n info req m p' and vs :: "pod list" where p: "pa_Pod px_args = Some p"
    and o: "offered px_env p ''n1'' n info req" and mv: "Some ?mv = Some \<lparr>mv_Pods = map (Some \<circ> p_UID) vs, mv_NumPDBViolations = m\<rparr>"
    and a: "fst (Allocate (fe_env (pe_filter px_env)) ?o \<lparr>as_nodeInfo = ?node info (p_UID ` set vs), as_request = req, as_trace = []\<rparr>) = Placed p'"
    by (elim exE conjE) (rule that)
  have vs: "[Some ''u1''] = map (Some \<circ> p_UID) vs" using mv by simp
  have "p = px_pending" using p by (simp add: px_args_def)
  moreover have "p_UID ` set vs = {''u1''}" using vs by (cases vs) auto
  moreover have "fe_env (pe_filter px_env) = ex_env" by (simp add: px_env_def px_filter_env_def ex_filter_env_def)
  ultimately show ?thesis using o a by auto
qed

lemma px_hopeful:
  "node_hopeless px_env px_request px_node = None"
  "map_of (resolveVictimsMap px_env px_args) ''n2'' = Some (Some \<lparr>vi_Pods = [Some (px_tenant ''u2'' ''n2'')], vi_NumPDBViolations = 0\<rparr>)"
  "map p_UID (keep_victims px_env (ar_GangName px_request) [Some (px_tenant ''u2'' ''n2'')]) = [''u2'']"
  by code_simp+


end
