(* ===== verification/Spec2Isabelle.thy ===== *)
theory Spec2Isabelle
  imports Prelude Kube Claim_Text Float64 Device Links Union_Find Tiers Footprint Reason Node_Info Lifecycle Node_Usage Request Scoring Numa Subset_Search Tiered Tiered_Plan Allocator Placement Charging Alloc_Steps Pod_Placement Capacity_Gate Batches Endpoint Patch Filter_Verb Filter_Facts Filter_Order Filter_Answer Bind Node_Ledger
    Cluster_Load Filter_Commit Cluster Cluster_Safe Float_Code Scenario Preempt Preempt_Facts
    Preempt_Scenario
begin

text \<open>
  vgpu-manager shares the GPUs of a Kubernetes cluster between pods. A pod asks for shares of cards
  (a number of cards, cores in percent, memory), the scheduler extender picks the node and the cards and
  writes them into the pod's annotations as device claims, and the device plugin of that node hands the
  claims to the containers. This development models the scheduling core, from the annotations a node
  publishes to the text a device plugin reads back, and proves that it never promises a card twice.

  \<^bold>\<open>The parts and how they interact.\<close> A node publishes its cards, their links and its configuration in
  annotations (\<^verbatim>\<open>pkg/device/types.go\<close>). The filter verb (\<^verbatim>\<open>pkg/scheduler/filter\<close>) drops the nodes that
  cannot serve a pod, builds a ledger for each of the others from what the node publishes and from the claims
  of the pods planned on it, ranks them, and runs the allocator (\<^verbatim>\<open>pkg/device/allocator\<close>) on them in that
  order; a live call patches the claims of the first node that fits into the pod (\<^verbatim>\<open>pkg/client\<close>), a dry run
  reports every node that fits. The bind verb (\<^verbatim>\<open>pkg/scheduler/bind\<close>) checks the reservation and binds the
  pod. The preempt verb (\<^verbatim>\<open>pkg/scheduler/preempt\<close>) corrects the victims the kube-scheduler proposes so that
  the allocator can place the pod once they are gone. The device plugin takes the claims of one container
  after the other from the pre-allocation and records them as served.

  \<^bold>\<open>Conventions.\<close> Go's \<^verbatim>\<open>int\<close> and \<^verbatim>\<open>int64\<close> are HOL integers; \<^const>\<open>i64\<close> is the wrap-around, written where a sum or
  a product is taken. Go's maps are association lists whose order is the order one iteration visits them in,
  so a statement about every list is a statement about every iteration order. \<^verbatim>\<open>float64\<close> values are rationals
  rounded to 53 bits after every operation (\<^verbatim>\<open>Float64\<close>; \<^verbatim>\<open>Float_Code\<close> computes the rounding on integers);
  the exponent range is not bounded. Errors are \<^const>\<open>Inl\<close>, or an error constructor of the component. The
  listers, the API server, the JSON, base64, compression and URL decoders and the clock are fields of the
  records \<^typ>\<open>env\<close>, \<^typ>\<open>net_env\<close>, \<^typ>\<open>filter_env\<close>, \<^typ>\<open>bind_env\<close> and \<^typ>\<open>preempt_env\<close>, so every theorem
  holds for every behaviour of theirs that its hypotheses allow. Events, writes and metrics are a trace the
  verb returns. Logging has no counterpart.

  \<^bold>\<open>The theories\<close>, in the order of the layers:

  \<^item> \<^verbatim>\<open>Prelude\<close>: 64-bit integers, Go maps, stable sorting under a comparator (locale \<^verbatim>\<open>comparator\<close>), strings
    and decimal numbers. \<^verbatim>\<open>Float64\<close>: rounding (locale \<^verbatim>\<open>rounding\<close>) and the operations on it.
  \<^item> \<^verbatim>\<open>Kube\<close> (\<^verbatim>\<open>pkg/util\<close>): pods, nodes, annotations and labels, the predicates on them, device type and UUID
    selectors, gang keys, the choice of the pod a plugin call belongs to.
  \<^item> \<^verbatim>\<open>Claim_Text\<close> (\<^verbatim>\<open>pkg/device/types.go\<close>): device claims and their text. The locale \<^verbatim>\<open>sep_codec\<close> lifts a
    round trip through a separator and is interpreted for devices and for containers. Decoding inverts
    encoding, never slices out of range and accepts only well-formed claims; the plugin's loop serves every
    claim once.
  \<^item> \<^verbatim>\<open>Device\<close>, \<^verbatim>\<open>Footprint\<close>, \<^verbatim>\<open>Node_Info\<close>, \<^verbatim>\<open>Node_Usage\<close>, \<^verbatim>\<open>Node_Ledger\<close> (\<^verbatim>\<open>pkg/device/types.go\<close>): the ledger
    of a card, the peak of a pod on a card, a node built from its annotations and its pods, snapshots. The
    locale \<^verbatim>\<open>lifecycle\<close> (theory \<^verbatim>\<open>Lifecycle\<close>) shows that the peak formula is the maximum over the containers
    that can run together; it is interpreted for claims and for requested amounts.
  \<^item> \<^verbatim>\<open>Links\<close>, \<^verbatim>\<open>Union_Find\<close>, \<^verbatim>\<open>Tiers\<close> (\<^verbatim>\<open>pkg/device/gpuallocator\<close>, \<^verbatim>\<open>computeTieredComponents\<close>): the links
    between cards and the connected components of every link tier. The locale \<^verbatim>\<open>union_find\<close> states what both
    union-finds of the source promise: representatives agree exactly when edges connect.
  \<^item> \<^verbatim>\<open>Request\<close>, \<^verbatim>\<open>Scoring\<close>, \<^verbatim>\<open>Numa\<close>, \<^verbatim>\<open>Subset_Search\<close>, \<^verbatim>\<open>Tiered\<close>, \<^verbatim>\<open>Allocator\<close> (\<^verbatim>\<open>pkg/device/allocator\<close>, one
    theory per file): the parsed request, rankings, NUMA groups, the search for the best linked subset, the
    tiered plans and the allocation of a whole pod.
  \<^item> \<^verbatim>\<open>Tiered_Plan\<close> (locale \<^verbatim>\<open>selector\<close>), \<^verbatim>\<open>Placement\<close>, \<^verbatim>\<open>Charging\<close>, \<^verbatim>\<open>Alloc_Steps\<close> (locale
    \<^verbatim>\<open>alloc_relation\<close>), \<^verbatim>\<open>Pod_Placement\<close>: what the allocator guarantees for a plan, for one container and for a
    pod: the cards pass the gates and have room, strict modes keep their promise, a request that is not strict
    is placed whenever enough cards pass, the pod fits at every moment of its lifecycle, no internal error is
    reachable, a simulation decides what the real run decides.
  \<^item> \<^verbatim>\<open>Reason\<close>, \<^verbatim>\<open>Batches\<close>, \<^verbatim>\<open>Endpoint\<close>, \<^verbatim>\<open>Patch\<close>, \<^verbatim>\<open>Capacity_Gate\<close>: rejection reasons, the split of work over
    parallel workers, the endpoints of remote GPU servers, the metadata patches, and the cheap gate, which
    rejects only what the allocator would refuse.
  \<^item> \<^verbatim>\<open>Filter_Verb\<close>, \<^verbatim>\<open>Filter_Facts\<close>, \<^verbatim>\<open>Filter_Order\<close>, \<^verbatim>\<open>Filter_Answer\<close>, \<^verbatim>\<open>Filter_Commit\<close>: the filter verb, and
    that every candidate is kept or has a reason, that the order in which the workers finish does not matter,
    that the live call takes the first node of its dry run, that a dry run writes nothing, and where a
    written claim comes from.
  \<^item> \<^verbatim>\<open>Bind\<close>; \<^verbatim>\<open>Preempt\<close>, \<^verbatim>\<open>Preempt_Facts\<close>: the other two verbs. A pod is bound only while its reservation
    counts. The victims of a corrected preemption answer may be evicted and make room, and a node is left out
    only if evicting every evictable pod would not.
  \<^item> \<^verbatim>\<open>Cluster_Load\<close>, \<^verbatim>\<open>Cluster\<close>, \<^verbatim>\<open>Cluster_Safe\<close>: the cluster as a step relation over the verbs, and the
    invariant that no card is ever reserved or used beyond what its node registered.
  \<^item> \<^verbatim>\<open>Scenario\<close>, \<^verbatim>\<open>Preempt_Scenario\<close>: concrete clusters on which the verbs are evaluated.

  \<^bold>\<open>Termination and bounds.\<close> Every definition is total. The one loop of the source whose end is not
  structural, the root walk of the union-finds, takes as fuel the number of cards, which an acyclic parent
  array never exceeds; the combination loop is bounded by the number of combinations and proved to end by its
  own exit test. The safety theorems assume registers of at most $2^{40}$ cards, each with at most $2^{40}$ of every
  resource, and pods whose amounts, scaled by a node's memory factor, fit into 64 bits; within these bounds
  no sum wraps.

  \<^bold>\<open>Not modelled\<close>: the device plugin's gRPC servers, CDI files and NVML enumeration, the DRA kubelet plugin,
  the remote agent, the metrics exporters, the admission webhooks, the reschedule controller and the
  command-line programs: they are I/O around the API server, the kubelet, the NVIDIA libraries and the file
  system. A verb is one step of the cluster: live filter calls exclude each other by the filter's lock, which is on by
  default (\<^verbatim>\<open>SerializedNodeFilter\<close>); that the pods a filter call listed still hold when it writes is part of
  this model, not a theorem.
\<close>

end
